(* ===== verification/Prelude.thy ===== *)
theory Prelude
  imports Main "HOL-Library.Word" "HOL-Library.AList"
begin

text \<open>
  Shared vocabulary of the development: the machine integers of the Rust sources, \<open>Result\<close>
  and the \<open>?\<close> operator, \<open>HashMap\<close> as a key-distinct association list, atomic counters, and
  the decimal rendering and parsing of \<open>u64\<close> in the standard library.

  A \<open>String\<close> is modelled by its UTF-8 bytes (\<^typ>\<open>string\<close>). A \<open>HashMap\<close> is an association
  list with distinct keys; the order of the list is the map's iteration order, which Rust leaves
  open: a theorem that holds for every such list holds for every iteration order.
\<close>

section \<open>Types\<close>

type_synonym u8 = "8 word"
type_synonym u16 = "16 word"
type_synonym u64 = "64 word"
type_synonym u128 = "128 word"
type_synonym ('e, 'a) result = "'e + 'a"

abbreviation Ok :: "'a \<Rightarrow> ('e, 'a) result" where "Ok \<equiv> Inr"
abbreviation Err :: "'e \<Rightarrow> ('e, 'a) result" where "Err \<equiv> Inl"

named_theorems hm_simps \<open>lookup, insertion and removal on hash maps\<close>

section \<open>Result and the question mark operator\<close>

fun and_then :: "('e, 'a) result \<Rightarrow> ('a \<Rightarrow> ('e, 'b) result) \<Rightarrow> ('e, 'b) result" where
  "and_then (Inl e) f = Inl e"
| "and_then (Inr a) f = f a"

fun ok_or :: "'a option \<Rightarrow> 'e \<Rightarrow> ('e, 'a) result" where
  "ok_or None e = Inl e"
| "ok_or (Some a) e = Inr a"

fun is_ok :: "('e, 'a) result \<Rightarrow> bool" where
  "is_ok (Inl e) = False"
| "is_ok (Inr a) = True"

lemma and_then_Ok_iff: "and_then m f = Inr b \<longleftrightarrow> (\<exists>a. m = Inr a \<and> f a = Inr b)"
  by (cases m) auto

lemma and_then_Err_iff:
  "and_then m f = Inl e \<longleftrightarrow> m = Inl e \<or> (\<exists>a. m = Inr a \<and> f a = Inl e)"
  by (cases m) auto

lemma ok_or_iffs:
  "ok_or x e = Inr a \<longleftrightarrow> x = Some a"
  "ok_or x e = Inl e' \<longleftrightarrow> x = None \<and> e' = e"
  by (cases x; auto)+

section \<open>Hash maps\<close>

type_synonym ('k, 'v) hashmap = "('k \<times> 'v) list"

abbreviation hm_get :: "('k, 'v) hashmap \<Rightarrow> 'k \<Rightarrow> 'v option" where "hm_get \<equiv> map_of"
abbreviation hm_insert :: "'k \<Rightarrow> 'v \<Rightarrow> ('k, 'v) hashmap \<Rightarrow> ('k, 'v) hashmap"
  where "hm_insert \<equiv> AList.update"
abbreviation hm_remove :: "'k \<Rightarrow> ('k, 'v) hashmap \<Rightarrow> ('k, 'v) hashmap"
  where "hm_remove \<equiv> AList.delete"
abbreviation hm_keys :: "('k, 'v) hashmap \<Rightarrow> 'k list" where "hm_keys m \<equiv> map fst m"
abbreviation hm_ok :: "('k, 'v) hashmap \<Rightarrow> bool" where "hm_ok m \<equiv> distinct (map fst m)"

lemma hm_get_insert [hm_simps]:
  "hm_get (hm_insert k v m) k' = (if k' = k then Some v else hm_get m k')"
  by (simp add: update_conv)

lemma hm_get_remove [hm_simps]:
  "hm_get (hm_remove k m) k' = (if k' = k then None else hm_get m k')"
  by (simp add: delete_conv)

lemma hm_ok_insert [hm_simps, intro]: "hm_ok m \<Longrightarrow> hm_ok (hm_insert k v m)"
  by (rule distinct_update)

lemma hm_ok_remove [hm_simps, intro]: "hm_ok m \<Longrightarrow> hm_ok (hm_remove k m)"
  by (rule distinct_delete)

lemma set_keys_insert [hm_simps]: "fst ` set (hm_insert k v m) = insert k (fst ` set m)"
  by (simp add: dom_update)

lemma set_keys_remove [hm_simps]: "fst ` set (hm_remove k m) = fst ` set m - {k}"
proof -
  have "fst ` set (hm_remove k m) = set (removeAll k (map fst m))"
    by (simp flip: delete_keys)
  then show ?thesis by simp
qed

lemma hm_get_None_iff: "hm_get m k = None \<longleftrightarrow> k \<notin> set (hm_keys m)"
  by (simp add: map_of_eq_None_iff)

lemma hm_len_insert:
  "length (hm_insert k v m) = (if k \<in> set (hm_keys m) then length m else Suc (length m))"
  by (induction m) auto

lemma hm_len_remove:
  assumes "hm_ok m"
  shows "length (hm_remove k m) = (if k \<in> set (hm_keys m) then length m - 1 else length m)"
proof -
  have "length (hm_remove k m) = card (fst ` set (hm_remove k m))"
    using distinct_card [OF hm_ok_remove [OF assms, of k]] by simp
  also have "\<dots> = card (fst ` set m - {k})"
    by (simp add: set_keys_remove)
  also have "\<dots> = (if k \<in> set (hm_keys m) then length m - 1 else length m)"
    using distinct_card [OF assms] by (simp add: card_Diff_singleton_if)
  finally show ?thesis .
qed

section \<open>Atomic counters\<close>

text \<open>
  \<open>AtomicU64::fetch_add(1)\<close> returns the old value and wraps around. Two components draw
  identifiers from such a counter in a loop that skips zero (\<open>sfu_server::next_nonzero\<close> and
  \<open>GrpcAuthority::context\<close>); the loop runs at most twice.
\<close>

lemma u64_unat_less: "unat (n :: u64) < 2 ^ 64"
  using unsigned_less [of n] by simp

function next_nonzero :: "u64 \<Rightarrow> u64 \<times> u64" where
  "next_nonzero counter =
     (let val = counter; counter' = counter + 1
      in if val \<noteq> 0 then (val, counter') else next_nonzero counter')"
  by pat_completeness auto
termination
  by (relation "measure (\<lambda>c. if c = 0 then 1 else 0)") auto

declare next_nonzero.simps [simp del]

lemma next_nonzero_eq:
  "next_nonzero c = (if c \<noteq> 0 then (c, c + 1) else (1, 2))"
  by (simp add: next_nonzero.simps [of c] next_nonzero.simps [of 1] Let_def)

fun drawn :: "('c \<Rightarrow> 'a \<times> 'c) \<Rightarrow> nat \<Rightarrow> 'c \<Rightarrow> 'a list" where
  "drawn draw 0 c = []"
| "drawn draw (Suc n) c = fst (draw c) # drawn draw n (snd (draw c))"

text \<open>The contract of an identifier source, and what its clients rely on.\<close>

locale id_source =
  fixes draw :: "u64 \<Rightarrow> u64 \<times> u64"
  assumes draw_nonzero: "fst (draw c) \<noteq> 0"
    and draw_next: "snd (draw c) = fst (draw c) + 1"
    and draw_now: "c \<noteq> 0 \<Longrightarrow> fst (draw c) = c"
begin

lemma drawn_nonzero: "0 \<notin> set (drawn draw n c)"
proof (induction n arbitrary: c)
  case (Suc n)
  have "fst (draw c) \<noteq> 0" by (rule draw_nonzero)
  with Suc show ?case by auto
qed simp

lemma drawn_upto:
  assumes "c \<noteq> 0" and "unat c + n \<le> 2 ^ 64"
  shows "map unat (drawn draw n c) = [unat c..<unat c + n]"
  using assms
proof (induction n arbitrary: c)
  case (Suc n)
  have hd: "fst (draw c) = c" and tl: "snd (draw c) = c + 1"
    using Suc.prems(1) draw_now [of c] draw_next [of c] by simp_all
  show ?case
  proof (cases n)
    case (Suc m)
    with Suc.prems(2) have less: "unat c + 1 < 2 ^ 64" by simp
    then have u: "unat (c + 1) = unat c + 1"
      by (simp add: unat_word_ariths)
    then have "c + 1 \<noteq> 0" by (metis Suc_eq_plus1 nat.simps(3) unsigned_0)
    with Suc.IH [of "c + 1"] Suc.prems(2) u hd tl show ?thesis
      by (simp add: upt_conv_Cons)
  qed (simp add: hd)
qed simp

text \<open>A counter started at one hands out distinct identifiers until it wraps.\<close>

lemma drawn_distinct:
  assumes "n < 2 ^ 64"
  shows "distinct (drawn draw n 1)"
proof -
  have "map unat (drawn draw n 1) = [1..<1 + n]"
    using drawn_upto [of 1 n] assms by simp
  then have "distinct (map unat (drawn draw n 1))" by simp
  then show ?thesis by (simp add: distinct_map)
qed

end

interpretation ids: id_source next_nonzero
  by unfold_locales (simp_all add: next_nonzero_eq)

end
