(* ===== verification/Room_Id.thy ===== *)
theory Room_Id
  imports Prelude
begin

text \<open>
  V2 room identifiers on the wire (\<open>src/src/room_id.rs\<close>). The \<open>uuid\<close> crate and
  \<open>signaling::v2::is_room_uuid\<close> are not part of the repository: they are the fields of the
  record \<open>uuid_api\<close>, over an arbitrary type of room identifiers. \<open>uuid_laws\<close> states what the
  crate documents of them: a \<open>Uuid\<close> is 16 octets and both conversions are lossless.
\<close>

record 'r uuid_api =
  as_bytes :: "'r \<Rightarrow> u8 list"
  from_bytes :: "u8 list \<Rightarrow> 'r"
  as_u128 :: "'r \<Rightarrow> u128"
  is_room_uuid :: "'r \<Rightarrow> bool"

definition uuid_laws :: "('r, 'z) uuid_api_scheme \<Rightarrow> bool" where
  "uuid_laws U \<longleftrightarrow>
     (\<forall>r. length (as_bytes U r) = 16 \<and> from_bytes U (as_bytes U r) = r) \<and>
     (\<forall>bs. length bs = 16 \<longrightarrow> as_bytes U (from_bytes U bs) = bs)"

definition room_id_to_bytes :: "('r, 'z) uuid_api_scheme \<Rightarrow> 'r \<Rightarrow> u8 list" where
  "room_id_to_bytes U room_id = as_bytes U room_id"

definition room_id_from_bytes :: "('r, 'z) uuid_api_scheme \<Rightarrow> u8 list \<Rightarrow> 'r option" where
  "room_id_from_bytes U bytes =
     (if length bytes \<noteq> 16 then None
      else let room_id = from_bytes U bytes
           in if is_room_uuid U room_id then Some room_id else None)"

lemma room_id_from_to_bytes:
  "uuid_laws U \<Longrightarrow>
   room_id_from_bytes U (room_id_to_bytes U r) = (if is_room_uuid U r then Some r else None)"
  by (simp add: uuid_laws_def room_id_from_bytes_def room_id_to_bytes_def)

lemma room_id_from_bytes_Some:
  assumes "uuid_laws U" and "room_id_from_bytes U bs = Some r"
  shows "bs = room_id_to_bytes U r" and "is_room_uuid U r" and "length bs = 16"
  using assms
  by (auto simp: uuid_laws_def room_id_from_bytes_def room_id_to_bytes_def Let_def
           split: if_splits)

section \<open>A concrete instance\<close>

text \<open>Sixteen octets with the version and variant test of a UUIDv8; it satisfies the laws.\<close>

typedef uuid16 = "{bs :: u8 list. length bs = 16}"
  by (rule exI [of _ "replicate 16 0"]) simp

definition uuid16_api :: "uuid16 uuid_api" where
  "uuid16_api = \<lparr>as_bytes = Rep_uuid16,
     from_bytes = (\<lambda>bs. if length bs = 16 then Abs_uuid16 bs else Abs_uuid16 (replicate 16 0)),
     as_u128 = (\<lambda>r. of_nat (foldl (\<lambda>n b. 256 * n + unat b) 0 (Rep_uuid16 r))),
     is_room_uuid = (\<lambda>r. drop_bit 4 (Rep_uuid16 r ! 6) = 8 \<and> drop_bit 6 (Rep_uuid16 r ! 8) = 2)\<rparr>"

definition sample_bytes :: "u8 list" where
  "sample_bytes = [0, 0, 0, 0, 0, 0, 128, 0, 128, 0, 0, 0, 0, 0, 0, 42]"

definition sample_room :: uuid16 where
  "sample_room = Abs_uuid16 sample_bytes"

lemma length_Rep_uuid16 [simp]: "length (Rep_uuid16 r) = 16"
  using Rep_uuid16 [of r] by simp

lemma uuid16_laws: "uuid_laws uuid16_api"
  by (simp add: uuid_laws_def uuid16_api_def Rep_uuid16_inverse Abs_uuid16_inverse)

lemma sample_room_bytes [simp]: "Rep_uuid16 sample_room = sample_bytes"
  by (simp add: sample_room_def Abs_uuid16_inverse sample_bytes_def)

lemma sample_room_decodes: "room_id_from_bytes uuid16_api sample_bytes = Some sample_room"
  by (simp add: room_id_from_bytes_def uuid16_api_def sample_room_def Abs_uuid16_inverse
      sample_bytes_def)

end
