(* ===== verification/Wire.thy ===== *)
theory Wire
  imports Room_Id
begin

text \<open>
  The messages that cross component boundaries, with the fields and variants the sources use:
  the Protobuf messages of \<open>signaling_proto::v2\<close> and the Sans-I/O types of the \<open>signaling\<close> and
  \<open>sfu\<close> crates. Those crates are not part of the repository; only their data appears here, never
  their behaviour.

  A Protobuf enumeration field is an \<open>i32\<close> that may or may not be the number of a known variant.
  Only \<open>Variant as i32\<close> and \<open>Enum::try_from(i32)\<close> are ever applied to it, so it is modelled as
  the known variant or the unknown number. Member references, which many messages carry, are one
  record, over the wire form (16 bytes) or the decoded form of the room identifier.
\<close>

section \<open>Enumerations and errors\<close>

datatype 'a open_enum = Known 'a | Unknown int

type_synonym wire_room = "u8 list"
type_synonym instant = nat

datatype AppId = AppId_Apprtc | AppId_Sfu

datatype ErrorCode = Full | DuplicateClient | RoomNotFound | ClientNotFound | Unauthorized
  | NoSfuAvailable | RoomTransition | WorkerUnavailable | StaleAssignmentEpoch | StaleLifecycle
  | ResourceExhausted | InvalidRequest | InvalidSignal | InternalError

datatype RoomMode = ModeUnspecified | ModeP2p | ModeUpgrading | ModeSfu | ModeFailed

datatype SfuState = StateReady | StateDraining

datatype LeaveReason = ReasonUser | ReasonDisconnected | ReasonRoomClosed

record pb_error =
  err_code :: "ErrorCode open_enum"
  err_reason :: string
  err_retryable :: bool
  err_retry_after_ms :: "u64 option"

record RequestContext =
  ctx_app_id :: "AppId open_enum"
  ctx_instance_id :: string
  ctx_request_id :: u64

section \<open>Commands from signaling to a worker\<close>

record 'b member =
  mb_room :: 'b
  mb_client :: u64
  mb_lifecycle :: u64
  mb_epoch :: u64

record ('b, 'x) leave_member = "'b member" +
  lv_reason :: 'x

record 'b signal = "'b member" +
  sg_message_json :: string
  sg_sdp_request_id :: "u64 option"

record member_projection =
  mp_client :: u64
  mp_lifecycle :: u64

record 'b sync_room_msg =
  sy_room :: 'b
  sy_epoch :: u64
  sy_members :: "member_projection list"

datatype command =
    SyncRoom "wire_room sync_room_msg"
  | JoinCmd "wire_room member"
  | LeaveCmd "(wire_room, LeaveReason open_enum) leave_member"
  | SignalCmd "wire_room signal"
  | DrainCmd

record sfu_command =
  cmd_request_id :: u64
  cmd_command :: "command option"

section \<open>Command results and events from a worker\<close>

datatype payload =
    Acknowledged
  | MemberJoined "wire_room member"
  | MemberLeft "wire_room member"
  | RoomSynced wire_room u64

datatype command_result = ResOk "payload option" | ResError pb_error

record sfu_command_result =
  res_request_id :: u64
  res_result :: "command_result option"

record sfu_capacity =
  max_rooms :: u64
  max_clients :: u64

record sfu_health =
  hl_state :: "SfuState open_enum"
  hl_capacity :: "sfu_capacity option"
  hl_current_rooms :: u64
  hl_current_clients :: u64

record sfu_failure =
  fl_error :: "pb_error option"
  fl_room :: "wire_room option"
  fl_client :: "u64 option"
  fl_lifecycle :: "u64 option"
  fl_sdp_request_id :: "u64 option"

datatype event = HealthEv sfu_health | SignalEv "wire_room signal" | FailureEv sfu_failure

record sfu_event_msg =
  ev_request_id :: u64
  ev_event :: "event option"

record register_sfu =
  rg_context :: "RequestContext option"
  rg_capacity :: "sfu_capacity option"

datatype sfu_to_signaling =
    RegisterMsg register_sfu
  | CommandResultMsg sfu_command_result
  | EventMsg sfu_event_msg

datatype register_result = RegisteredOk u64 bool | RegisteredError pb_error

record register_response =
  rr_context :: "u64 option"
  rr_result :: "register_result option"

datatype signaling_to_sfu =
    RegisteredMsg register_response
  | CommandMsg sfu_command
  | EventAckMsg u64

section \<open>The Sans-I/O signaling state machine's view of a worker\<close>

datatype 'r command_kind =
    KSyncRoom "'r sync_room_msg"
  | KJoin "'r member"
  | KLeave "('r, LeaveReason) leave_member"
  | KSignal "'r signal"

record 'r domain_command =
  dc_request_id :: u64
  dc_command :: "'r command_kind"

datatype 'r command_ok =
    OkAcknowledged
  | OkMemberJoined "'r member"
  | OkMemberLeft "('r, LeaveReason) leave_member"
  | OkRoomSynced 'r u64

record sfu_error =
  se_reason :: string
  se_retryable :: bool

record domain_health =
  dh_state :: SfuState
  dh_capacity :: sfu_capacity
  dh_current_rooms :: u64
  dh_current_clients :: u64

datatype 'r event_kind =
    KHealth domain_health
  | KEventSignal "'r signal"
  | KFailure sfu_error "'r option" "u64 option" "u64 option" "u64 option"

datatype 'r sfu_input =
    InRegister u64 string u64 sfu_capacity
  | InCommandResult u64 string u64 "(sfu_error, 'r command_ok) result" instant
  | InEvent u64 string u64 "'r event_kind"
  | InDisconnected u64 string instant

datatype 'r sfu_output =
    OutRegistered u64 u64 u64 bool
  | OutRegistrationError u64 u64 sfu_error
  | OutCommand u64 "'r domain_command"
  | OutEventAck u64 u64
  | OutClose u64

section \<open>The authority interface of the signaling state machine\<close>

datatype 'r authority_operation =
    Admit string string bool instant
  | Remove string string
  | Occupancy string
  | Inject string string string instant
  | AdmitV2 'r u64 string instant
  | RemoveV2 'r u64 string
  | OccupancyV2 'r
  | Status

datatype room_mode = P2p | Upgrading | SfuRoom | Failed

record authority_status =
  st_rooms :: u64
  st_v2_rooms :: u64
  st_clients :: u64
  st_websocket_connections :: u64
  st_total_websocket_connections :: u64
  st_websocket_errors :: u64
  st_connected_sfu_instances :: u64
  st_ready_sfu_instances :: u64

datatype authority_result =
    Admitted bool "string list"
  | Removed
  | OccupancyCount u64
  | Injected
  | AdmittedV2 room_mode u64 string "bool option"
  | RemovedV2
  | OccupancyV2Count u64 room_mode
  | StatusResult authority_status
  | ErrorResult string

section \<open>gRPC status\<close>

datatype grpc_code = InvalidArgument | PermissionDenied | AlreadyExists | Unavailable
  | DeadlineExceeded | GrpcInternal

type_synonym grpc_status = "grpc_code \<times> string"

section \<open>Unary calls\<close>

text \<open>
  Requests of the AppRTC service. A V1 room and client are strings, a V2 room is its 16 bytes and a
  V2 client a number. A response is the echoed request identifier and its \<open>oneof\<close>: an error or the
  payload of the call.
\<close>

record status_request =
  rq_context :: "RequestContext option"

record 'b room_request = status_request +
  rq_room :: 'b

record ('b, 'c) client_request = "'b room_request" +
  rq_client :: 'c

record admit_v1_request = "(string, string) client_request" +
  rq_is_loopback :: bool

record inject_v1_request = "(string, string) client_request" +
  rq_message_json :: string

record remove_v2_request = "(wire_room, u64) client_request" +
  rq_admission_token :: string

record 'a rpc_response =
  rs_context :: "u64 option"
  rs_result :: "(pb_error, 'a) result option"

record v1_admission =
  ad_is_initiator :: bool
  ad_messages :: "string list"

record v2_admission =
  av_mode :: "RoomMode open_enum"
  av_signal_epoch :: u64
  av_admission_token :: string
  av_is_initiator :: "bool option"

record occupancy_msg =
  oc_member_count :: u64
  oc_mode :: "RoomMode open_enum"

record status_msg =
  sm_v1_rooms :: u64
  sm_v2_rooms :: u64
  sm_clients :: u64
  sm_browser_websocket_connections :: u64
  sm_total_browser_websocket_connections :: u64
  sm_browser_websocket_errors :: u64
  sm_connected_sfu_instances :: u64
  sm_ready_sfu_instances :: u64

end
