(* ===== verification/Json.thy ===== *)
theory Json
  imports Prelude
begin

text \<open>
  JSON values as the sources build and inspect them (\<open>serde_json::Value\<close>), and the decoding of
  the derived \<open>Deserialize\<close> of \<open>AppSignal\<close> in \<open>src/src/sfu_server.rs\<close>. Reading and printing JSON
  text is the work of the \<open>serde_json\<close> crate and stays a parameter of the components that use it.
\<close>

datatype json =
    JNull
  | JBool bool
  | JInt int
  | JFloat string
  | JString string
  | JArray "json list"
  | JObject "(string, json) hashmap"

record app_signal =
  sig_kind :: string
  sig_candidate :: string
  sig_id :: "string option"
  sig_label :: "u16 option"
  sig_requestid :: "string option"

fun de_string :: "json \<Rightarrow> string option" where
  "de_string (JString s) = Some s"
| "de_string _ = None"

fun de_opt_string :: "json \<Rightarrow> string option option" where
  "de_opt_string JNull = Some None"
| "de_opt_string (JString s) = Some (Some s)"
| "de_opt_string _ = None"

fun de_opt_u16 :: "json \<Rightarrow> u16 option option" where
  "de_opt_u16 JNull = Some None"
| "de_opt_u16 (JInt n) = (if 0 \<le> n \<and> n < 65536 then Some (Some (of_int n)) else None)"
| "de_opt_u16 _ = None"

definition de_default :: "'a \<Rightarrow> (json \<Rightarrow> 'a option) \<Rightarrow> json option \<Rightarrow> 'a option" where
  "de_default d f v = (case v of None \<Rightarrow> Some d | Some j \<Rightarrow> f j)"

definition app_signal_fields ::
  "json option \<Rightarrow> json option \<Rightarrow> json option \<Rightarrow> json option \<Rightarrow> json option \<Rightarrow> app_signal option" where
  "app_signal_fields k c i l r =
     Option.bind k (\<lambda>k. Option.bind (de_string k) (\<lambda>kind.
     Option.bind (de_default [] de_string c) (\<lambda>candidate.
     Option.bind (de_default None de_opt_string i) (\<lambda>mid.
     Option.bind (de_default None de_opt_u16 l) (\<lambda>label.
     Option.bind (de_default None de_opt_string r) (\<lambda>requestid.
       Some \<lparr>sig_kind = kind, sig_candidate = candidate, sig_id = mid, sig_label = label,
             sig_requestid = requestid\<rparr>))))))"

text \<open>
  A derived \<open>Deserialize\<close> reads a struct from an object by field name (unknown names are skipped)
  and from an array by position; every field but the first has a default.
\<close>

fun app_signal_from_value :: "json \<Rightarrow> app_signal option" where
  "app_signal_from_value (JObject m) =
     app_signal_fields (hm_get m ''type'') (hm_get m ''candidate'') (hm_get m ''id'')
       (hm_get m ''label'') (hm_get m ''requestid'')"
| "app_signal_from_value (JArray xs) =
     (if 5 < length xs then None
      else let at = (\<lambda>n. if n < length xs then Some (xs ! n) else None)
           in app_signal_fields (at 0) (at 1) (at 2) (at 3) (at 4))"
| "app_signal_from_value _ = None"

end
