(* ===== verification/Decimal.thy ===== *)
theory Decimal
  imports Prelude
begin

text \<open>
  Decimal text of a \<open>u64\<close>, as the standard library writes it (\<open>u64::to_string\<close>) and reads it
  (\<open>str::parse::<u64>\<close>: an optional leading plus sign, at least one digit, no overflow).
  Client identifiers, epochs and SDP request identifiers cross the browser boundary in this form.
\<close>

section \<open>Digits\<close>

definition is_digit :: "char \<Rightarrow> bool" where
  "is_digit c \<longleftrightarrow> 48 \<le> (of_char c :: nat) \<and> (of_char c :: nat) \<le> 57"

definition digit_val :: "char \<Rightarrow> nat" where
  "digit_val c = of_char c - 48"

definition digit_char :: "nat \<Rightarrow> char" where
  "digit_char d = char_of (48 + d)"

lemma digit_char_inverse:
  assumes "d < 10"
  shows "is_digit (digit_char d)" and "digit_val (digit_char d) = d"
  using assms by (simp_all add: is_digit_def digit_val_def digit_char_def)

lemma digit_val_inverse:
  assumes "is_digit c"
  shows "digit_char (digit_val c) = c" and "digit_val c < 10"
proof -
  from assms have "48 \<le> (of_char c :: nat)" and "(of_char c :: nat) \<le> 57"
    by (simp_all add: is_digit_def)
  then show "digit_char (digit_val c) = c" and "digit_val c < 10"
    unfolding digit_val_def digit_char_def by simp_all
qed

lemma digit_char_0: "digit_char 0 = CHR ''0''"
  unfolding digit_char_def by code_simp

lemma digit_val_0: "digit_val CHR ''0'' = 0"
  by (simp add: digit_val_def)

lemma digit_char_eq_0_iff: "d < 10 \<Longrightarrow> digit_char d = CHR ''0'' \<longleftrightarrow> d = 0"
  by (metis digit_char_0 digit_char_inverse(2) digit_val_0)

lemma digit_char_neq_plus: "d < 10 \<Longrightarrow> digit_char d \<noteq> CHR ''+''"
  using digit_char_inverse(1) [of d] by (auto simp: is_digit_def)

section \<open>Rendering and reading\<close>

fun show_nat :: "nat \<Rightarrow> string" where
  "show_nat n =
     (if n < 10 then [digit_char n] else show_nat (n div 10) @ [digit_char (n mod 10)])"

declare show_nat.simps [simp del]

definition read_nat :: "string \<Rightarrow> nat" where
  "read_nat s = foldl (\<lambda>n c. 10 * n + digit_val c) 0 s"

definition u64_to_string :: "u64 \<Rightarrow> string" where
  "u64_to_string n = show_nat (unat n)"

definition parse_u64 :: "string \<Rightarrow> u64 option" where
  "parse_u64 s =
     (let ds = (case s of c # cs \<Rightarrow> if c = CHR ''+'' then cs else s | [] \<Rightarrow> [])
      in if ds = [] \<or> \<not> list_all is_digit ds \<or> 2 ^ 64 \<le> read_nat ds then None
         else Some (of_nat (read_nat ds)))"

lemma read_nat_snoc: "read_nat (s @ [c]) = 10 * read_nat s + digit_val c"
  by (simp add: read_nat_def)

lemma show_nat_digits: "list_all is_digit (show_nat n)"
proof (induction n rule: show_nat.induct)
  case (1 n)
  then show ?case
    by (cases "n < 10") (simp_all add: show_nat.simps [of n] digit_char_inverse)
qed

lemma read_show_nat: "read_nat (show_nat n) = n"
proof (induction n rule: show_nat.induct)
  case (1 n)
  then show ?case
    by (cases "n < 10")
       (simp_all add: show_nat.simps [of n] read_nat_snoc digit_char_inverse,
        simp add: read_nat_def digit_char_inverse)
qed

lemma show_nat_nonempty: "show_nat n \<noteq> []"
  by (subst show_nat.simps) simp

lemma show_nat_hd:
  assumes "n \<noteq> 0"
  shows "hd (show_nat n) \<noteq> CHR ''0''"
  using assms
proof (induction n rule: show_nat.induct)
  case (1 n)
  show ?case
  proof (cases "n < 10")
    case True
    with "1.prems" show ?thesis by (simp add: show_nat.simps [of n] digit_char_eq_0_iff)
  next
    case False
    then have "n div 10 \<noteq> 0" by simp
    with "1.IH" False show ?thesis
      by (simp add: show_nat.simps [of n] show_nat_nonempty)
  qed
qed

text \<open>The only other spelling of a number is one with leading zeros.\<close>

lemma show_read_nat:
  assumes "list_all is_digit s" and "s \<noteq> []" and "hd s \<noteq> CHR ''0'' \<or> s = ''0''"
  shows "show_nat (read_nat s) = s"
  using assms
proof (induction s rule: rev_induct)
  case Nil
  then show ?case by simp
next
  case (snoc c s)
  have c: "is_digit c" using snoc.prems(1) by simp
  show ?case
  proof (cases "s = []")
    case True
    with c show ?thesis
      by (simp add: read_nat_def show_nat.simps [of "digit_val c"] digit_val_inverse)
  next
    case False
    then have hd: "hd s \<noteq> CHR ''0''" using snoc.prems(3) by auto
    with False snoc have IH: "show_nat (read_nat s) = s" by simp
    have "read_nat s \<noteq> 0"
    proof
      assume "read_nat s = 0"
      then have "s = ''0''" using IH by (simp add: show_nat.simps [of 0] digit_char_0)
      with hd show False by simp
    qed
    then have "\<not> read_nat (s @ [c]) < 10" by (simp add: read_nat_snoc)
    moreover have "read_nat (s @ [c]) div 10 = read_nat s"
      and "read_nat (s @ [c]) mod 10 = digit_val c"
      using digit_val_inverse(2) [OF c] by (simp_all add: read_nat_snoc)
    ultimately show ?thesis
      using IH digit_val_inverse(1) [OF c] by (subst show_nat.simps) simp
  qed
qed

lemma parse_u64_digits:
  assumes "list_all is_digit s" and "s \<noteq> []"
  shows "parse_u64 s = (if read_nat s < 2 ^ 64 then Some (of_nat (read_nat s)) else None)"
proof -
  obtain c cs where s: "s = c # cs" using assms(2) by (cases s) auto
  with assms(1) have "c \<noteq> CHR ''+''" by (auto simp: is_digit_def)
  with assms s have "(case s of c # cs \<Rightarrow> if c = CHR ''+'' then cs else s | [] \<Rightarrow> []) = s"
    by simp
  then show ?thesis using assms by (simp add: parse_u64_def)
qed

lemma parse_u64_to_string [simp]: "parse_u64 (u64_to_string n) = Some n"
  using u64_unat_less [of n]
  by (simp add: u64_to_string_def parse_u64_digits show_nat_digits show_nat_nonempty
      read_show_nat)

end
