(* ===== verification/Sfu_Worker.thy ===== *)
theory Sfu_Worker
  imports Wire Json Decimal
begin

text \<open>
  One media shard of the SFU worker (\<open>src/src/sfu_server.rs\<close>): the membership projection, the
  commands that change it and the engine (\<open>apply_command\<close>, \<open>sync_room\<close>, \<open>apply_signal\<close>), and the
  translation of engine events to worker events (\<open>drain_engine\<close>).

  The Sans-I/O engine (\<open>sfu::Sfu\<close>), the \<open>rtc\<close> description type and \<open>serde_json\<close>'s text format are
  parameters, the fields of \<open>sfu_api\<close>. \<open>handle_event\<close> stands for
  \<open>engine.handle_event(TaggedSFUEvent { now: Instant::now(), event })\<close>; the clock it reads
  belongs to the engine state. Its Boolean result says whether the call returned \<open>Ok\<close>; the
  sources drop the error value. So do the clocks of \<open>handle_read\<close> and \<open>handle_timeout\<close>, whose
  errors are only logged.
\<close>

section \<open>The engine interface\<close>

datatype RTCSdpType = SdpOffer | SdpAnswer | SdpOther

record ice_candidate =
  ice_candidate_line :: string
  ice_sdp_mid :: "string option"
  ice_mline_index :: "u16 option"
  ice_username_fragment :: "string option"
  ice_url :: "string option"

datatype ('r, 'sdp) engine_event =
    EJoin u64 'r u64
  | ELeave u64 'r u64 string
  | ESessionDescription u64 'r u64 'sdp
  | EIceCandidate u64 'r u64 ice_candidate
  | EErr u64 "'r option" "u64 option" string
  | EOk u64

type_synonym datagram = "u8 list \<times> string"

record ('r, 'e, 'sdp) sfu_api = "'r uuid_api" +
  handle_event :: "'e \<Rightarrow> ('r, 'sdp) engine_event \<Rightarrow> bool \<times> 'e"
  handle_read :: "'e \<Rightarrow> datagram \<Rightarrow> 'e"
  handle_timeout :: "'e \<Rightarrow> 'e"
  engine_close :: "'e \<Rightarrow> 'e"
  poll_read :: "'e \<Rightarrow> bool \<times> 'e"
  poll_write :: "'e \<Rightarrow> datagram option \<times> 'e"
  poll_event :: "'e \<Rightarrow> ('r, 'sdp) engine_event option \<times> 'e"
  event_room_id :: "('r, 'sdp) engine_event \<Rightarrow> 'r option"
  event_client_id :: "('r, 'sdp) engine_event \<Rightarrow> u64 option"
  leave_reason_debug :: "LeaveReason open_enum \<Rightarrow> string"
  candidate_default :: ice_candidate
  json_from_str :: "string \<Rightarrow> json option"
  json_to_string :: "json \<Rightarrow> string"
  sdp_from_value :: "json \<Rightarrow> 'sdp option"
  sdp_to_value :: "'sdp \<Rightarrow> json"
  sdp_type :: "'sdp \<Rightarrow> RTCSdpType"

type_synonym 'r projection = "('r \<times> u64, u64 \<times> u64) hashmap"
type_synonym cmd_error = "ErrorCode \<times> string"

section \<open>Results\<close>

definition command_error :: "u64 \<Rightarrow> ErrorCode \<Rightarrow> string \<Rightarrow> sfu_command_result" where
  "command_error request_id code reason =
     \<lparr>res_request_id = request_id,
      res_result = Some (ResError \<lparr>err_code = Known code, err_reason = reason,
        err_retryable = False, err_retry_after_ms = None\<rparr>)\<rparr>"

definition invalid_room_id :: "u64 \<Rightarrow> sfu_command_result" where
  "invalid_room_id request_id =
     command_error request_id InvalidRequest ''room_id must be the 16 bytes of a UUIDv8''"

definition command_outcome :: "u64 \<Rightarrow> (cmd_error, payload) result \<Rightarrow> sfu_command_result" where
  "command_outcome request_id r =
     (case r of
        Inr payload \<Rightarrow> \<lparr>res_request_id = request_id, res_result = Some (ResOk (Some payload))\<rparr>
      | Inl (code, reason) \<Rightarrow> command_error request_id code reason)"

section \<open>Join, leave and signal\<close>

definition apply_join ::
  "('r, 'e, 'sdp, 'z) sfu_api_scheme \<Rightarrow> u64 \<Rightarrow> 'r \<Rightarrow> wire_room member \<Rightarrow> 'e \<Rightarrow> 'r projection \<Rightarrow>
   (cmd_error, payload) result \<times> 'e \<times> 'r projection" where
  "apply_join A request_id room_id join engine projection =
     (let key = (room_id, mb_client join);
          joined = MemberJoined \<lparr>mb_room = mb_room join, mb_client = mb_client join,
            mb_lifecycle = mb_lifecycle join, mb_epoch = mb_epoch join\<rparr>
      in case hm_get projection key of
           Some current \<Rightarrow>
             if current = (mb_lifecycle join, mb_epoch join) then (Inr joined, engine, projection)
             else (Inl (StaleLifecycle, ''conflicting member lifecycle''), engine, projection)
         | None \<Rightarrow>
             (case handle_event A engine (EJoin request_id room_id (mb_client join)) of
                (ok, engine') \<Rightarrow>
                  if ok
                  then (Inr joined, engine',
                        hm_insert key (mb_lifecycle join, mb_epoch join) projection)
                  else (Inl (InternalError, ''SFU join failed''), engine', projection)))"

definition apply_leave ::
  "('r, 'e, 'sdp, 'z) sfu_api_scheme \<Rightarrow> u64 \<Rightarrow> 'r \<Rightarrow>
   (wire_room, LeaveReason open_enum) leave_member \<Rightarrow> 'e \<Rightarrow> 'r projection \<Rightarrow>
   (cmd_error, payload) result \<times> 'e \<times> 'r projection" where
  "apply_leave A request_id room_id lv engine projection =
     (let key = (room_id, mb_client lv);
          left = MemberLeft \<lparr>mb_room = mb_room lv, mb_client = mb_client lv,
            mb_lifecycle = mb_lifecycle lv, mb_epoch = mb_epoch lv\<rparr>
      in case hm_get projection key of
           None \<Rightarrow> (Inr left, engine, projection)
         | Some (lifecycle_id, assignment_epoch) \<Rightarrow>
             if assignment_epoch \<noteq> mb_epoch lv
             then (Inl (StaleAssignmentEpoch, ''stale assignment epoch''), engine, projection)
             else if lifecycle_id \<noteq> mb_lifecycle lv
             then (Inl (StaleLifecycle, ''stale member lifecycle''), engine, projection)
             else (case handle_event A engine
                          (ELeave request_id room_id (mb_client lv)
                             (leave_reason_debug A (lv_reason lv))) of
                     (ok, engine') \<Rightarrow>
                       if ok then (Inr left, engine', hm_remove key projection)
                       else (Inl (InternalError, ''SFU leave failed''), engine', projection)))"

definition apply_signal ::
  "('r, 'e, 'sdp, 'z) sfu_api_scheme \<Rightarrow> u64 \<Rightarrow> 'r \<Rightarrow> wire_room signal \<Rightarrow> 'e \<Rightarrow>
   (cmd_error, unit) result \<times> 'e" where
  "apply_signal A command_request_id room_id sg engine =
     (let deliver = (\<lambda>ev reason. case handle_event A engine ev of
            (ok, engine') \<Rightarrow>
              ((if ok then Inr () else Inl (InvalidSignal, reason)), engine'))
      in case json_from_str A (sg_message_json sg) of
           None \<Rightarrow> (Inl (InvalidSignal, ''invalid signaling JSON''), engine)
         | Some val \<Rightarrow>
           (case app_signal_from_value val of
              None \<Rightarrow> (Inl (InvalidSignal, ''invalid signaling message''), engine)
            | Some envelope \<Rightarrow>
                if sig_kind envelope = ''offer'' \<or> sig_kind envelope = ''answer'' then
                  (case sdp_from_value A val of
                     None \<Rightarrow> (Inl (InvalidSignal, ''invalid session description''), engine)
                   | Some sdp \<Rightarrow>
                       let request_id =
                         (if sdp_type A sdp = SdpAnswer
                          then (case Option.bind (sig_requestid envelope) parse_u64 of
                                  Some n \<Rightarrow> Some n | None \<Rightarrow> sg_sdp_request_id sg)
                          else Some (case sg_sdp_request_id sg of
                                  Some n \<Rightarrow> n | None \<Rightarrow> command_request_id))
                       in case request_id of
                            None \<Rightarrow> (Inl (InvalidSignal, ''answer missing requestid''), engine)
                          | Some n \<Rightarrow>
                              deliver (ESessionDescription n room_id (mb_client sg) sdp)
                                ''session description rejected'')
                else if sig_kind envelope = ''candidate'' then
                  deliver (EIceCandidate command_request_id room_id (mb_client sg)
                    \<lparr>ice_candidate_line = sig_candidate envelope, ice_sdp_mid = sig_id envelope,
                     ice_mline_index = sig_label envelope, ice_username_fragment = None,
                     ice_url = None\<rparr>) ''ICE candidate rejected''
                else if sig_kind envelope = ''end-of-candidates'' then
                  deliver (EIceCandidate command_request_id room_id (mb_client sg)
                    (candidate_default A)) ''end of candidates rejected''
                else if sig_kind envelope = ''bye'' then (Inr (), engine)
                else (Inl (InvalidSignal, ''unknown signaling message type''), engine)))"

definition apply_signal_cmd ::
  "('r, 'e, 'sdp, 'z) sfu_api_scheme \<Rightarrow> u64 \<Rightarrow> 'r \<Rightarrow> wire_room signal \<Rightarrow> 'e \<Rightarrow> 'r projection \<Rightarrow>
   (cmd_error, payload) result \<times> 'e \<times> 'r projection" where
  "apply_signal_cmd A request_id room_id sg engine projection =
     (if hm_get projection (room_id, mb_client sg) \<noteq> Some (mb_lifecycle sg, mb_epoch sg)
      then (Inl (StaleLifecycle, ''stale signal lifecycle''), engine, projection)
      else case apply_signal A request_id room_id sg engine of
             (r, engine') \<Rightarrow> (and_then r (\<lambda>_. Inr Acknowledged), engine', projection))"

section \<open>Room synchronization\<close>

text \<open>The first loop of \<open>sync_room\<close>: members the roster does not name leave.\<close>

fun sync_leaves ::
  "('r, 'e, 'sdp, 'z) sfu_api_scheme \<Rightarrow> u64 \<Rightarrow> 'r \<Rightarrow> u64 list \<Rightarrow> 'e \<Rightarrow> 'r projection \<Rightarrow>
   (cmd_error, unit) result \<times> 'e \<times> 'r projection" where
  "sync_leaves A request_id room_id [] engine projection = (Inr (), engine, projection)"
| "sync_leaves A request_id room_id (client_id # stale) engine projection =
     (case handle_event A engine (ELeave request_id room_id client_id ''room synchronization'') of
        (ok, engine') \<Rightarrow>
          if ok
          then sync_leaves A request_id room_id stale engine'
                 (hm_remove (room_id, client_id) projection)
          else (Inl (InternalError, ''SFU room sync leave failed''), engine', projection))"

text \<open>The second loop: members of the roster join unless present, and take its lifecycle.\<close>

fun sync_joins ::
  "('r, 'e, 'sdp, 'z) sfu_api_scheme \<Rightarrow> u64 \<Rightarrow> 'r \<Rightarrow> u64 \<Rightarrow> member_projection list \<Rightarrow> 'e \<Rightarrow>
   'r projection \<Rightarrow> (cmd_error, unit) result \<times> 'e \<times> 'r projection" where
  "sync_joins A request_id room_id epoch [] engine projection = (Inr (), engine, projection)"
| "sync_joins A request_id room_id epoch (mem # members) engine projection =
     (let key = (room_id, mp_client mem)
      in if hm_get projection key = None
         then (case handle_event A engine (EJoin request_id room_id (mp_client mem)) of
                 (ok, engine') \<Rightarrow>
                   if ok
                   then sync_joins A request_id room_id epoch members engine'
                          (hm_insert key (mp_lifecycle mem, epoch) projection)
                   else (Inl (InternalError, ''SFU room sync join failed''), engine', projection))
         else sync_joins A request_id room_id epoch members engine
                (hm_insert key (mp_lifecycle mem, epoch) projection))"

definition sync_wanted :: "member_projection list \<Rightarrow> (u64, u64) hashmap" where
  "sync_wanted members = foldl (\<lambda>m x. hm_insert (mp_client x) (mp_lifecycle x) m) [] members"

definition sync_stale :: "'r \<Rightarrow> (u64, u64) hashmap \<Rightarrow> 'r projection \<Rightarrow> u64 list" where
  "sync_stale room_id wanted projection =
     map (\<lambda>((_, client_id), _). client_id)
       (filter (\<lambda>((candidate, client_id), _).
          candidate = room_id \<and> hm_get wanted client_id = None) projection)"

definition sync_room ::
  "('r, 'e, 'sdp, 'z) sfu_api_scheme \<Rightarrow> u64 \<Rightarrow> wire_room sync_room_msg \<Rightarrow> 'e \<Rightarrow> 'r projection \<Rightarrow>
   (cmd_error, payload) result \<times> 'e \<times> 'r projection" where
  "sync_room A request_id sync engine projection =
     (case room_id_from_bytes A (sy_room sync) of
        None \<Rightarrow>
          (Inl (InvalidRequest, ''room_id must be the 16 bytes of a UUIDv8''), engine, projection)
      | Some room_id \<Rightarrow>
          (let stale = sync_stale room_id (sync_wanted (sy_members sync)) projection
           in case sync_leaves A request_id room_id stale engine projection of
                (Inl err, engine1, projection1) \<Rightarrow> (Inl err, engine1, projection1)
              | (Inr _, engine1, projection1) \<Rightarrow>
                  (case sync_joins A request_id room_id (sy_epoch sync) (sy_members sync)
                          engine1 projection1 of
                     (Inl err, engine2, projection2) \<Rightarrow> (Inl err, engine2, projection2)
                   | (Inr _, engine2, projection2) \<Rightarrow>
                       (Inr (RoomSynced (sy_room sync) (sy_epoch sync)), engine2, projection2))))"

section \<open>Applying a command\<close>

definition apply_command ::
  "('r, 'e, 'sdp, 'z) sfu_api_scheme \<Rightarrow> 'e \<Rightarrow> 'r projection \<Rightarrow> sfu_command \<Rightarrow>
   sfu_command_result \<times> 'e \<times> 'r projection" where
  "apply_command A engine projection cmd =
     (let request_id = cmd_request_id cmd;
          in_room = (\<lambda>bytes f. case room_id_from_bytes A bytes of
              None \<Rightarrow> (invalid_room_id request_id, engine, projection)
            | Some room_id \<Rightarrow> apfst (command_outcome request_id) (f room_id engine projection))
      in if request_id = 0
         then (command_error request_id InvalidRequest ''request_id must be nonzero'',
               engine, projection)
         else case cmd_command cmd of
             Some (JoinCmd join) \<Rightarrow>
               in_room (mb_room join) (\<lambda>r. apply_join A request_id r join)
           | Some (LeaveCmd lv) \<Rightarrow>
               in_room (mb_room lv) (\<lambda>r. apply_leave A request_id r lv)
           | Some (SignalCmd sg) \<Rightarrow>
               in_room (mb_room sg) (\<lambda>r. apply_signal_cmd A request_id r sg)
           | Some (SyncRoom sync) \<Rightarrow>
               apfst (command_outcome request_id) (sync_room A request_id sync engine projection)
           | Some DrainCmd \<Rightarrow>
               (command_outcome request_id (Inr Acknowledged), engine, projection)
           | None \<Rightarrow>
               (command_outcome request_id (Inl (InvalidRequest, ''missing SFU command'')),
                engine, projection))"

section \<open>Engine events\<close>

definition opt_json :: "('a \<Rightarrow> json) \<Rightarrow> 'a option \<Rightarrow> json" where
  "opt_json f x = (case x of None \<Rightarrow> JNull | Some a \<Rightarrow> f a)"

definition tag_offer :: "u64 \<Rightarrow> json \<Rightarrow> json" where
  "tag_offer request_id val =
     (case val of
        JObject m \<Rightarrow> JObject (hm_insert ''requestid'' (JString (u64_to_string request_id)) m)
      | v \<Rightarrow> v)"

definition encode_engine_event ::
  "('r, 'e, 'sdp, 'z) sfu_api_scheme \<Rightarrow> 'r projection \<Rightarrow> ('r, 'sdp) engine_event \<Rightarrow> event option" where
  "encode_engine_event A projection ev =
     (case (event_room_id A ev, event_client_id A ev) of
        (Some room_id, Some client_id) \<Rightarrow>
          (case hm_get projection (room_id, client_id) of
             None \<Rightarrow> None
           | Some (lifecycle_id, assignment_epoch) \<Rightarrow>
               (case ev of
                  ESessionDescription request_id _ _ sdp \<Rightarrow>
                    Some (SignalEv \<lparr>mb_room = room_id_to_bytes A room_id, mb_client = client_id,
                      mb_lifecycle = lifecycle_id, mb_epoch = assignment_epoch,
                      sg_message_json = json_to_string A
                        (if sdp_type A sdp = SdpOffer
                         then tag_offer request_id (sdp_to_value A sdp) else sdp_to_value A sdp),
                      sg_sdp_request_id = Some request_id\<rparr>)
                | EIceCandidate _ _ _ cand \<Rightarrow>
                    Some (SignalEv \<lparr>mb_room = room_id_to_bytes A room_id, mb_client = client_id,
                      mb_lifecycle = lifecycle_id, mb_epoch = assignment_epoch,
                      sg_message_json = json_to_string A (JObject
                        [(''type'', JString (if ice_candidate_line cand = []
                                             then ''end-of-candidates'' else ''candidate'')),
                         (''label'', opt_json (\<lambda>n. JInt (uint n)) (ice_mline_index cand)),
                         (''id'', opt_json JString (ice_sdp_mid cand)),
                         (''candidate'', JString (ice_candidate_line cand))]),
                      sg_sdp_request_id = None\<rparr>)
                | EErr request_id _ _ reason \<Rightarrow>
                    Some (FailureEv \<lparr>fl_error = Some \<lparr>err_code = Known InternalError,
                        err_reason = reason, err_retryable = False, err_retry_after_ms = None\<rparr>,
                      fl_room = Some (room_id_to_bytes A room_id), fl_client = Some client_id,
                      fl_lifecycle = Some lifecycle_id, fl_sdp_request_id = Some request_id\<rparr>)
                | EOk _ \<Rightarrow> None
                | EJoin _ _ _ \<Rightarrow> None
                | ELeave _ _ _ _ \<Rightarrow> None))
      | _ \<Rightarrow> None)"

partial_function (option) drain_events ::
  "('r, 'e, 'sdp, 'z) sfu_api_scheme \<Rightarrow> 'r projection \<Rightarrow> bool \<Rightarrow> 'e \<Rightarrow> u64 \<Rightarrow>
   sfu_event_msg list \<Rightarrow> ('e \<times> u64 \<times> sfu_event_msg list) option" where
  "drain_events A projection receiver_open engine next_event_id sent =
     (let polled = poll_event A engine; engine' = snd polled
      in case fst polled of
           None \<Rightarrow> Some (engine', next_event_id, sent)
         | Some ev \<Rightarrow>
             (case encode_engine_event A projection ev of
                None \<Rightarrow> drain_events A projection receiver_open engine' next_event_id sent
              | Some kind \<Rightarrow>
                  (let msg = \<lparr>ev_request_id = fst (next_nonzero next_event_id),
                              ev_event = Some kind\<rparr>;
                       next_event_id' = snd (next_nonzero next_event_id)
                   in if receiver_open
                      then drain_events A projection receiver_open engine' next_event_id'
                             (sent @ [msg])
                      else Some (engine', next_event_id', sent))))"

text \<open>
  The whole of \<open>drain_engine\<close>: pump the read side, send every datagram, translate every event.
  A failed UDP send is only logged.
\<close>

partial_function (option) drain_reads ::
  "('r, 'e, 'sdp, 'z) sfu_api_scheme \<Rightarrow> 'e \<Rightarrow> 'e option" where
  "drain_reads A engine =
     (let polled = poll_read A engine
      in if fst polled then drain_reads A (snd polled) else Some (snd polled))"

partial_function (option) drain_writes ::
  "('r, 'e, 'sdp, 'z) sfu_api_scheme \<Rightarrow> 'e \<Rightarrow> datagram list \<Rightarrow> ('e \<times> datagram list) option" where
  "drain_writes A engine sent =
     (let polled = poll_write A engine
      in case fst polled of
           None \<Rightarrow> Some (snd polled, sent)
         | Some transmit \<Rightarrow> drain_writes A (snd polled) (sent @ [transmit]))"

definition drain_engine ::
  "('r, 'e, 'sdp, 'z) sfu_api_scheme \<Rightarrow> 'r projection \<Rightarrow> bool \<Rightarrow> 'e \<Rightarrow> u64 \<Rightarrow>
   ('e \<times> u64 \<times> sfu_event_msg list \<times> datagram list) option" where
  "drain_engine A projection receiver_open engine next_event_id =
     Option.bind (drain_reads A engine) (\<lambda>engine1.
     Option.bind (drain_writes A engine1 []) (\<lambda>(engine2, datagrams).
     Option.bind (drain_events A projection receiver_open engine2 next_event_id [])
       (\<lambda>(engine3, next_event_id', events).
          Some (engine3, next_event_id', events, datagrams))))"

section \<open>The contract of a worker\<close>

text \<open>
  The abstract contract of the worker: a roster maps a room and a client to the lifecycle and the
  assignment epoch under which the client is a member; \<open>roster_step\<close> is what each command means.
\<close>

type_synonym 'r roster = "'r \<times> u64 \<rightharpoonup> u64 \<times> u64"

fun roster_step :: "'r \<Rightarrow> command \<Rightarrow> 'r roster \<Rightarrow> 'r roster" where
  "roster_step r (JoinCmd m) R = R((r, mb_client m) \<mapsto> (mb_lifecycle m, mb_epoch m))"
| "roster_step r (LeaveCmd m) R = R((r, mb_client m) := None)"
| "roster_step r (SignalCmd m) R = R"
| "roster_step r (SyncRoom s) R =
     (\<lambda>(r', c). if r' \<noteq> r then R (r', c)
        else map_option (\<lambda>l. (l, sy_epoch s))
               (map_of (rev (map (\<lambda>x. (mp_client x, mp_lifecycle x)) (sy_members s))) c))"
| "roster_step r DrainCmd R = R"

fun command_room :: "command \<Rightarrow> wire_room option" where
  "command_room (JoinCmd m) = Some (mb_room m)"
| "command_room (LeaveCmd m) = Some (mb_room m)"
| "command_room (SignalCmd m) = Some (mb_room m)"
| "command_room (SyncRoom s) = Some (sy_room s)"
| "command_room DrainCmd = None"

fun member_ref :: "command \<Rightarrow> (wire_room \<times> u64 \<times> (u64 \<times> u64)) option" where
  "member_ref (JoinCmd m) = Some (mb_room m, mb_client m, (mb_lifecycle m, mb_epoch m))"
| "member_ref (LeaveCmd m) = Some (mb_room m, mb_client m, (mb_lifecycle m, mb_epoch m))"
| "member_ref (SignalCmd m) = Some (mb_room m, mb_client m, (mb_lifecycle m, mb_epoch m))"
| "member_ref _ = None"

fun event_version :: "event \<Rightarrow> (wire_room \<times> u64 \<times> u64) option" where
  "event_version (SignalEv s) = Some (mb_room s, mb_client s, mb_lifecycle s)"
| "event_version (FailureEv f) =
     (case (fl_room f, fl_client f, fl_lifecycle f) of
        (Some r, Some c, Some l) \<Rightarrow> Some (r, c, l) | _ \<Rightarrow> None)"
| "event_version (HealthEv h) = None"

text \<open>
  What the engine documents of membership: a join or a leave that succeeds changes the set of
  members accordingly, and nothing else does. The invariant of a shard is that its projection
  names exactly the engine's members.
\<close>

definition engine_tracks ::
  "('r, 'e, 'sdp, 'z) sfu_api_scheme \<Rightarrow> ('e \<Rightarrow> ('r \<times> u64) set) \<Rightarrow> bool" where
  "engine_tracks A members \<longleftrightarrow>
     (\<forall>e ev ok e'. handle_event A e ev = (ok, e') \<longrightarrow>
        members e' =
          (case ev of
             EJoin q r c \<Rightarrow> if ok then insert (r, c) (members e) else members e
           | ELeave q r c reason \<Rightarrow> if ok then members e - {(r, c)} else members e
           | _ \<Rightarrow> members e))"

definition shard_inv :: "('e \<Rightarrow> ('r \<times> u64) set) \<Rightarrow> 'e \<Rightarrow> 'r projection \<Rightarrow> bool" where
  "shard_inv members e p \<longleftrightarrow> hm_ok p \<and> members e = set (hm_keys p)"

text \<open>
  The engine's three queues are finite: each successful poll makes some measure of it smaller.
  \<open>polls\<close> relates an engine to the events it yields until it has no more.
\<close>

definition polls_finite ::
  "('r, 'e, 'sdp, 'z) sfu_api_scheme \<Rightarrow> ('e \<Rightarrow> nat) \<Rightarrow> ('e \<Rightarrow> nat) \<Rightarrow> ('e \<Rightarrow> nat) \<Rightarrow> bool" where
  "polls_finite A reads writes pending \<longleftrightarrow>
     (\<forall>e e'. poll_read A e = (True, e') \<longrightarrow> reads e' < reads e) \<and>
     (\<forall>e d e'. poll_write A e = (Some d, e') \<longrightarrow> writes e' < writes e) \<and>
     (\<forall>e ev e'. poll_event A e = (Some ev, e') \<longrightarrow> pending e' < pending e)"

inductive polls ::
  "('r, 'e, 'sdp, 'z) sfu_api_scheme \<Rightarrow> 'e \<Rightarrow> ('r, 'sdp) engine_event list \<Rightarrow> 'e \<Rightarrow> bool"
  for A where
  polls_done: "poll_event A e = (None, e') \<Longrightarrow> polls A e [] e'"
| polls_more: "poll_event A e = (Some ev, e1) \<Longrightarrow> polls A e1 evs e' \<Longrightarrow> polls A e (ev # evs) e'"

fun number_events :: "u64 \<Rightarrow> event list \<Rightarrow> sfu_event_msg list \<times> u64" where
  "number_events ctr [] = ([], ctr)"
| "number_events ctr (k # ks) =
     (case next_nonzero ctr of (q, ctr1) \<Rightarrow>
        (case number_events ctr1 ks of (ms, ctr2) \<Rightarrow>
           (\<lparr>ev_request_id = q, ev_event = Some k\<rparr> # ms, ctr2)))"

section \<open>A concrete engine\<close>

text \<open>
  An engine small enough to evaluate: its members and a queue of events. A description sent by a
  member is echoed back as an offer. The text format is a stand-in with two messages.
\<close>

type_synonym sample_engine =
  "(uuid16 \<times> u64) list \<times> (uuid16, RTCSdpType) engine_event list"

fun sample_handle_event ::
  "sample_engine \<Rightarrow> (uuid16, RTCSdpType) engine_event \<Rightarrow> bool \<times> sample_engine" where
  "sample_handle_event (ms, evs) (EJoin q r c) = (True, (List.insert (r, c) ms, evs))"
| "sample_handle_event (ms, evs) (ELeave q r c reason) = (True, (removeAll (r, c) ms, evs))"
| "sample_handle_event (ms, evs) (ESessionDescription q r c sdp) =
     ((r, c) \<in> set ms, (ms, evs @ [ESessionDescription q r c SdpOffer]))"
| "sample_handle_event e (EIceCandidate q r c cand) = (True, e)"
| "sample_handle_event e ev = (False, e)"

fun sample_poll_event ::
  "sample_engine \<Rightarrow> (uuid16, RTCSdpType) engine_event option \<times> sample_engine" where
  "sample_poll_event (ms, []) = (None, (ms, []))"
| "sample_poll_event (ms, ev # evs) = (Some ev, (ms, evs))"

fun sample_event_member :: "('r, 'sdp) engine_event \<Rightarrow> ('r \<times> u64) option" where
  "sample_event_member (EJoin q r c) = Some (r, c)"
| "sample_event_member (ELeave q r c reason) = Some (r, c)"
| "sample_event_member (ESessionDescription q r c sdp) = Some (r, c)"
| "sample_event_member (EIceCandidate q r c cand) = Some (r, c)"
| "sample_event_member (EErr q r c reason) =
     (case (r, c) of (Some r, Some c) \<Rightarrow> Some (r, c) | _ \<Rightarrow> None)"
| "sample_event_member (EOk q) = None"

definition sample_answer :: "string \<Rightarrow> json" where
  "sample_answer s =
     JObject [(''type'', JString ''answer''), (''sdp'', JString ''v=0''), (''requestid'', JString s)]"

definition sample_api :: "(uuid16, sample_engine, RTCSdpType) sfu_api" where
  "sample_api = \<lparr>as_bytes = as_bytes uuid16_api, from_bytes = from_bytes uuid16_api,
     as_u128 = as_u128 uuid16_api, is_room_uuid = is_room_uuid uuid16_api,
     handle_event = sample_handle_event, handle_read = (\<lambda>e d. e), handle_timeout = id,
     engine_close = (\<lambda>e. ([], [])), poll_read = (\<lambda>e. (False, e)), poll_write = (\<lambda>e. (None, e)),
     poll_event = sample_poll_event, event_room_id = map_option fst \<circ> sample_event_member,
     event_client_id = map_option snd \<circ> sample_event_member,
     leave_reason_debug = (\<lambda>_. ''User''),
     candidate_default = \<lparr>ice_candidate_line = [], ice_sdp_mid = None, ice_mline_index = None,
       ice_username_fragment = None, ice_url = None\<rparr>,
     json_from_str = (\<lambda>s. if s = ''bye'' then Some (JObject [(''type'', JString s)])
       else Some (sample_answer s)),
     json_to_string = (\<lambda>v. ''json''), sdp_from_value = (\<lambda>v. Some SdpAnswer),
     sdp_to_value = (\<lambda>sdp. JObject [(''type'', JString ''offer'')]), sdp_type = id\<rparr>"

definition sample_member :: "u64 \<Rightarrow> u64 \<Rightarrow> u64 \<Rightarrow> wire_room member" where
  "sample_member client lifecycle epoch = \<lparr>mb_room = sample_bytes, mb_client = client,
     mb_lifecycle = lifecycle, mb_epoch = epoch\<rparr>"

definition sample_join :: sfu_command where
  "sample_join = \<lparr>cmd_request_id = 1, cmd_command = Some (JoinCmd (sample_member 7 1 1))\<rparr>"

lemma sample_room_id: "room_id_from_bytes sample_api sample_bytes = Some sample_room"
  using sample_room_decodes by (simp add: room_id_from_bytes_def sample_api_def split: if_splits)

lemma sample_bytes_replicate: "sample_bytes \<noteq> replicate 16 0"
proof -
  have "sample_bytes ! 15 \<noteq> replicate 16 0 ! 15" by (simp add: sample_bytes_def)
  then show ?thesis by metis
qed

lemma sample_handle_event_api [simp]: "handle_event sample_api = sample_handle_event"
  by (simp add: sample_api_def)

lemma parse_bye: "parse_u64 ''bye'' = None"
  by (simp add: parse_u64_def is_digit_def)

lemma sample_engine_tracks: "engine_tracks sample_api (\<lambda>e. set (fst e))"
  unfolding engine_tracks_def sample_handle_event_api
  by (intro allI, rule impI, elim sample_handle_event.elims) auto

lemma sample_polls_finite: "polls_finite sample_api (\<lambda>_. 0) (\<lambda>_. 0) (\<lambda>e. length (snd e))"
proof -
  have "length (snd e') < length (snd e)"
    if "sample_poll_event e = (Some ev, e')" for e ev e'
    using that by (cases e rule: sample_poll_event.cases) auto
  then show ?thesis by (auto simp: polls_finite_def sample_api_def)
qed

lemma sample_join_runs:
  "apply_command sample_api ([], []) [] sample_join =
   (\<lparr>res_request_id = 1, res_result = Some (ResOk (Some (MemberJoined (sample_member 7 1 1))))\<rparr>,
    ([(sample_room, 7)], []), [((sample_room, 7), (1, 1))])"
  by (simp add: apply_command_def sample_join_def sample_member_def sample_room_id apply_join_def
      command_outcome_def)

section \<open>Results echo the command identifier\<close>

lemma command_error_id [simp]: "res_request_id (command_error q c s) = q"
  by (simp add: command_error_def)

lemma command_outcome_id [simp]: "res_request_id (command_outcome q r) = q"
  by (simp add: command_outcome_def split: sum.splits prod.splits)

lemma invalid_room_id_id [simp]: "res_request_id (invalid_room_id q) = q"
  by (simp add: invalid_room_id_def)

lemma command_outcome_Ok_iff:
  "command_outcome q r = \<lparr>res_request_id = q, res_result = Some (ResOk (Some p))\<rparr> \<longleftrightarrow> r = Inr p"
  by (auto simp: command_outcome_def command_error_def split: sum.splits prod.splits)

lemma apply_command_request_id:
  "res_request_id (fst (apply_command A engine projection cmd)) = cmd_request_id cmd"
  by (simp add: apply_command_def Let_def split: option.splits command.splits)

section \<open>Synchronization loops\<close>

lemma sync_wanted_get_aux:
  "hm_get (foldl (\<lambda>m x. hm_insert (mp_client x) (mp_lifecycle x) m) m0 members) c =
   (map_of m0 ++ map_of (rev (map (\<lambda>x. (mp_client x, mp_lifecycle x)) members))) c"
  by (induction members arbitrary: m0) (auto simp: hm_simps map_add_def split: option.splits)

lemma sync_wanted_get:
  "hm_get (sync_wanted members) c = map_of (rev (map (\<lambda>x. (mp_client x, mp_lifecycle x)) members)) c"
  by (simp add: sync_wanted_def sync_wanted_get_aux)

lemma set_sync_stale:
  "c \<in> set (sync_stale r w p) \<longleftrightarrow> hm_get p (r, c) \<noteq> None \<and> hm_get w c = None"
  by (force simp: sync_stale_def map_of_eq_None_iff)

lemma sync_leaves_Ok:
  "sync_leaves A q r cs e p = (Inr u, e', p') \<Longrightarrow>
   map_of p' = (\<lambda>k. if k \<in> Pair r ` set cs then None else map_of p k)"
proof (induction cs arbitrary: e p)
  case (Cons c cs)
  from Cons.prems obtain e1 where
    "sync_leaves A q r cs e1 (hm_remove (r, c) p) = (Inr u, e', p')"
    by (auto split: prod.splits if_splits)
  from Cons.IH [OF this] show ?case by (auto simp: fun_eq_iff hm_simps)
qed simp

lemma sync_joins_Ok:
  "sync_joins A q r epoch ms e p = (Inr u, e', p') \<Longrightarrow>
   map_of p' (r', c) =
     (if r' = r then (case map_of (rev (map (\<lambda>x. (mp_client x, mp_lifecycle x)) ms)) c of
          None \<Rightarrow> map_of p (r', c) | Some l \<Rightarrow> Some (l, epoch))
      else map_of p (r', c))"
proof (induction ms arbitrary: e p)
  case (Cons m ms)
  from Cons.prems obtain e1 where
    "sync_joins A q r epoch ms e1 (hm_insert (r, mp_client m) (mp_lifecycle m, epoch) p)
     = (Inr u, e', p')"
    by (auto simp: Let_def split: prod.splits if_splits)
  from Cons.IH [OF this] show ?case
    by (auto simp: hm_simps map_add_def split: option.splits)
qed simp

section \<open>Commands refine the roster\<close>

lemma apply_join_Ok:
  "apply_join A q r m e p = (Inr payload, e', p') \<Longrightarrow>
   map_of p' = (map_of p)((r, mb_client m) \<mapsto> (mb_lifecycle m, mb_epoch m))"
  by (auto simp: apply_join_def Let_def fun_eq_iff hm_simps
           split: option.splits prod.splits if_splits)

lemma apply_leave_Ok:
  "apply_leave A q r m e p = (Inr payload, e', p') \<Longrightarrow>
   map_of p' = (map_of p)((r, mb_client m) := None)"
  by (auto simp: apply_leave_def Let_def fun_eq_iff hm_simps
           split: option.splits prod.splits if_splits)

lemma apply_member_Err:
  "apply_join A q r m e p = (Inl err, e', p') \<Longrightarrow> p' = p"
  "apply_leave A q r lv e p = (Inl err, e', p') \<Longrightarrow> p' = p"
  by (auto simp: apply_join_def apply_leave_def Let_def
           split: option.splits prod.splits if_splits)

lemma apply_signal_cmd_projection [simp]:
  "snd (snd (apply_signal_cmd A q r sg e p)) = p"
  by (simp add: apply_signal_cmd_def split: prod.splits)

lemma sync_room_Ok:
  assumes "sync_room A q s e p = (Inr payload, e', p')"
  shows "\<exists>r. room_id_from_bytes A (sy_room s) = Some r \<and>
           map_of p' = roster_step r (SyncRoom s) (map_of p)"
proof -
  from assms obtain r e1 p1 where r: "room_id_from_bytes A (sy_room s) = Some r"
    and lv: "sync_leaves A q r (sync_stale r (sync_wanted (sy_members s)) p) e p
             = (Inr (), e1, p1)"
    and jn: "sync_joins A q r (sy_epoch s) (sy_members s) e1 p1 = (Inr (), e', p')"
    by (auto simp: sync_room_def Let_def split: option.splits prod.splits sum.splits)
  have "map_of p' k = roster_step r (SyncRoom s) (map_of p) k" for k
    using sync_joins_Ok [OF jn] sync_leaves_Ok [OF lv]
    by (cases k) (auto simp: set_sync_stale sync_wanted_get split: option.splits)
  with r show ?thesis by blast
qed

lemmas apply_command_unfold = apply_command_def Let_def apfst_def map_prod_def

lemma apply_signal_cmd_frame:
  "apply_signal_cmd A q r sg e p = (res, e', p') \<Longrightarrow> p' = p"
  using apply_signal_cmd_projection [of A q r sg e p] by simp

lemmas command_result_defs = command_error_def invalid_room_id_def command_outcome_def
lemmas command_splits = option.splits if_splits prod.splits sum.splits

lemma apply_command_roster:
  assumes "apply_command A e p cmd = (res, e', p')"
    and "res_result res = Some (ResOk (Some payload))"
    and "cmd_command cmd = Some c" and "c \<noteq> DrainCmd"
  shows "\<exists>r. Option.bind (command_room c) (room_id_from_bytes A) = Some r \<and>
           map_of p' = roster_step r c (map_of p)"
  using assms
  by (cases c)
     (auto simp: apply_command_unfold command_result_defs split: command_splits
           dest!: apply_join_Ok apply_leave_Ok apply_signal_cmd_frame sync_room_Ok)

text \<open>
  C3. A command the worker answers with \<open>Ok\<close> changes its projection exactly as the roster
  contract says for that command in the room it names: a join sets the member's lifecycle and
  epoch, a leave removes the member, a signal changes nothing, and a room synchronization makes
  the room's members those of the message (the last entry of a client wins) at the message's
  epoch; other rooms keep theirs.
\<close>

theorem apply_command_refines_roster:
  assumes "apply_command A e p cmd = (res, e', p')"
    and "res_result res = Some (ResOk (Some payload))"
    and "cmd_command cmd = Some c" and "c \<noteq> DrainCmd"
  shows "\<exists>r. Option.bind (command_room c) (room_id_from_bytes A) = Some r \<and>
           map_of p' = roster_step r c (map_of p)"
  using assms by (rule apply_command_roster)

theorem apply_command_refines_roster_witness:
  "\<exists>r. Option.bind (command_room (JoinCmd (sample_member 7 1 1))) (room_id_from_bytes sample_api)
     = Some r \<and>
   map_of [((sample_room, 7 :: u64), (1 :: u64, 1 :: u64))] =
     roster_step r (JoinCmd (sample_member 7 1 1)) (map_of [])"
  by (rule apply_command_refines_roster [OF sample_join_runs, of "MemberJoined (sample_member 7 1 1)"])
     (simp_all add: sample_join_def)

section \<open>Frame: other rooms\<close>

lemma sync_leaves_frame:
  "sync_leaves A q r cs e p = (res, e', p') \<Longrightarrow> r \<noteq> r' \<Longrightarrow> map_of p' (r', c) = map_of p (r', c)"
  by (induction cs arbitrary: e p) (auto simp: hm_simps split: prod.splits if_splits)

lemma sync_joins_frame:
  "sync_joins A q r epoch ms e p = (res, e', p') \<Longrightarrow> r \<noteq> r' \<Longrightarrow>
   map_of p' (r', c) = map_of p (r', c)"
  by (induction ms arbitrary: e p)
     (auto simp: hm_simps Let_def split: prod.splits if_splits)

lemma sync_room_frame:
  assumes "sync_room A q s e p = (res, e', p')" and "room_id_from_bytes A (sy_room s) \<noteq> Some r'"
  shows "map_of p' (r', c) = map_of p (r', c)"
  using assms
  by (auto simp: sync_room_def Let_def split: option.splits prod.splits sum.splits)
     (metis sync_leaves_frame sync_joins_frame)+

lemma apply_join_frame:
  "apply_join A q r m e p = (res, e', p') \<Longrightarrow> r \<noteq> r' \<Longrightarrow> map_of p' (r', c) = map_of p (r', c)"
  by (auto simp: apply_join_def Let_def hm_simps split: option.splits prod.splits if_splits)

lemma apply_leave_frame:
  "apply_leave A q r m e p = (res, e', p') \<Longrightarrow> r \<noteq> r' \<Longrightarrow> map_of p' (r', c) = map_of p (r', c)"
  by (auto simp: apply_leave_def Let_def hm_simps split: option.splits prod.splits if_splits)

text \<open>
  A command leaves every member of a room it does not name as it was, whatever it answers.
\<close>

lemma apply_command_frame:
  assumes "apply_command A e p cmd = (res, e', p')"
    and "\<And>c bytes. cmd_command cmd = Some c \<Longrightarrow> command_room c = Some bytes \<Longrightarrow>
           room_id_from_bytes A bytes \<noteq> Some r'"
  shows "map_of p' (r', c) = map_of p (r', c)"
proof (cases "cmd_command cmd")
  case None
  with assms(1) show ?thesis by (auto simp: apply_command_unfold split: if_splits)
next
  case (Some k)
  then show ?thesis
    using assms(1) assms(2) [OF Some]
    by (cases k)
       (auto simp: apply_command_unfold split: command_splits
             dest: apply_join_frame apply_leave_frame apply_signal_cmd_frame sync_room_frame)
qed

section \<open>The engine and the projection agree\<close>

lemma engine_tracksD:
  assumes "engine_tracks A members"
  shows "handle_event A e (EJoin q r c) = (ok, e') \<Longrightarrow>
           members e' = (if ok then insert (r, c) (members e) else members e)"
    and "handle_event A e (ELeave q r c reason) = (ok, e') \<Longrightarrow>
           members e' = (if ok then members e - {(r, c)} else members e)"
    and "handle_event A e (ESessionDescription q r c sdp) = (ok, e') \<Longrightarrow> members e' = members e"
    and "handle_event A e (EIceCandidate q r c cand) = (ok, e') \<Longrightarrow> members e' = members e"
  using assms unfolding engine_tracks_def by (force split: engine_event.splits)+

lemma shard_inv_steps:
  assumes "engine_tracks A members" and "shard_inv members e p"
  shows "handle_event A e (EJoin q r c) = (True, e') \<Longrightarrow>
           shard_inv members e' (hm_insert (r, c) v p)"
    and "handle_event A e (ELeave q r c reason) = (True, e') \<Longrightarrow>
           shard_inv members e' (hm_remove (r, c) p)"
    and "handle_event A e (EJoin q r c) = (False, e') \<Longrightarrow> shard_inv members e' p"
    and "handle_event A e (ELeave q r c reason) = (False, e') \<Longrightarrow> shard_inv members e' p"
    and "handle_event A e (ESessionDescription q r c sdp) = (ok, e') \<Longrightarrow> shard_inv members e' p"
    and "handle_event A e (EIceCandidate q r c cand) = (ok, e') \<Longrightarrow> shard_inv members e' p"
  using assms(2) engine_tracksD [OF assms(1)]
  by (auto simp: shard_inv_def hm_simps)

lemma shard_inv_update:
  "shard_inv members e p \<Longrightarrow> hm_get p k \<noteq> None \<Longrightarrow> shard_inv members e (hm_insert k v p)"
  by (auto simp: shard_inv_def hm_simps map_of_eq_None_iff)

lemma shard_inv_sync_leaves:
  assumes "engine_tracks A members"
  shows "shard_inv members e p \<Longrightarrow> sync_leaves A q r cs e p = (res, e', p') \<Longrightarrow>
    shard_inv members e' p'"
  by (induction cs arbitrary: e p)
     (auto split: prod.splits if_splits dest: shard_inv_steps [OF assms])

lemma shard_inv_sync_joins:
  assumes "engine_tracks A members"
  shows "shard_inv members e p \<Longrightarrow> sync_joins A q r epoch ms e p = (res, e', p') \<Longrightarrow>
    shard_inv members e' p'"
proof (induction ms arbitrary: e p)
  case (Cons m ms)
  show ?case
  proof (cases "hm_get p (r, mp_client m)")
    case None
    obtain ok e1 where he: "handle_event A e (EJoin q r (mp_client m)) = (ok, e1)"
      by (cases "handle_event A e (EJoin q r (mp_client m))")
    with Cons None show ?thesis
      by (cases ok) (auto dest: shard_inv_steps [OF assms Cons.prems(1)])
  next
    case (Some v)
    with Cons show ?thesis by (auto dest: shard_inv_update)
  qed
qed simp

lemma shard_inv_sync_room:
  assumes "engine_tracks A members" and "shard_inv members e p"
    and "sync_room A q s e p = (res, e', p')"
  shows "shard_inv members e' p'"
proof (cases "room_id_from_bytes A (sy_room s)")
  case None
  with assms(2,3) show ?thesis by (simp add: sync_room_def)
next
  case (Some r)
  obtain r1 e1 p1 where lv: "sync_leaves A q r (sync_stale r (sync_wanted (sy_members s)) p) e p
      = (r1, e1, p1)" by (rule prod_cases3)
  obtain r2 e2 p2 where jn: "sync_joins A q r (sy_epoch s) (sy_members s) e1 p1 = (r2, e2, p2)"
    by (rule prod_cases3)
  have inv1: "shard_inv members e1 p1" by (rule shard_inv_sync_leaves [OF assms(1,2) lv])
  have "shard_inv members e2 p2" by (rule shard_inv_sync_joins [OF assms(1) inv1 jn])
  with inv1 assms(3) Some lv jn show ?thesis
    by (auto simp: sync_room_def split: sum.splits)
qed

lemma shard_inv_join:
  assumes "engine_tracks A members" and "shard_inv members e p"
    and "apply_join A q r m e p = (res, e', p')"
  shows "shard_inv members e' p'"
  using assms(2,3)
  by (auto simp: apply_join_def Let_def split: option.splits prod.splits if_splits
           dest: shard_inv_steps [OF assms(1)])

lemma shard_inv_leave:
  assumes "engine_tracks A members" and "shard_inv members e p"
    and "apply_leave A q r m e p = (res, e', p')"
  shows "shard_inv members e' p'"
  using assms(2,3)
  by (auto simp: apply_leave_def Let_def split: option.splits prod.splits if_splits
           dest: shard_inv_steps [OF assms(1)])

lemma shard_inv_signal:
  assumes "engine_tracks A members" and "shard_inv members e p"
    and "apply_signal A q r m e = (res, e')"
  shows "shard_inv members e' p"
  using assms(2,3)
  by (auto simp: apply_signal_def Let_def split: option.splits prod.splits if_splits
           dest: shard_inv_steps(5,6) [OF assms(1)])

lemma shard_inv_signal_cmd:
  assumes "engine_tracks A members" and "shard_inv members e p"
    and "apply_signal_cmd A q r m e p = (res, e', p')"
  shows "shard_inv members e' p'"
  using assms(2,3) shard_inv_signal [OF assms(1,2)]
  by (auto simp: apply_signal_cmd_def split: prod.splits if_splits)

lemmas shard_inv_commands =
  shard_inv_join shard_inv_leave shard_inv_signal_cmd shard_inv_sync_room

text \<open>
  C4. Given an engine that changes its members only by successful joins and leaves, every
  command keeps the projection a map whose keys are exactly the engine's members, also when the
  engine refuses a join or leave half way through a room synchronization.
\<close>

theorem apply_command_engine_agrees:
  assumes "engine_tracks A members" and "shard_inv members e p"
    and "apply_command A e p cmd = (res, e', p')"
  shows "shard_inv members e' p'"
  using assms(2,3)
  by (auto simp: apply_command_unfold split: command_splits command.splits
           dest: shard_inv_commands [OF assms(1)])

theorem apply_command_engine_agrees_witness:
  "shard_inv (\<lambda>e :: sample_engine. set (fst e)) ([(sample_room, 7)], [])
     [((sample_room, 7), (1, 1))]"
  by (rule apply_command_engine_agrees [OF sample_engine_tracks _ sample_join_runs])
     (simp add: shard_inv_def)

section \<open>Fencing and idempotence\<close>

text \<open>
  C5. A join, leave or signal for a current member whose lifecycle or assignment epoch is not
  the projection's is refused as stale and changes neither the projection nor the engine.
\<close>

theorem stale_command_fenced:
  assumes "cmd_request_id cmd \<noteq> 0" and "cmd_command cmd = Some c"
    and "member_ref c = Some (bytes, client, version)"
    and "room_id_from_bytes A bytes = Some r"
    and "hm_get p (r, client) = Some current" and "current \<noteq> version"
  shows "\<exists>code reason. code \<in> {StaleLifecycle, StaleAssignmentEpoch} \<and>
    apply_command A e p cmd = (command_error (cmd_request_id cmd) code reason, e, p)"
  using assms
  by (cases c)
     (auto simp: apply_command_unfold command_outcome_def apply_join_def apply_leave_def
        apply_signal_cmd_def split: prod.splits)

theorem stale_command_fenced_witness:
  "\<exists>code reason. code \<in> {StaleLifecycle, StaleAssignmentEpoch} \<and>
    apply_command sample_api ([(sample_room, 7)], []) [((sample_room, 7), (1, 1))]
      \<lparr>cmd_request_id = 2, cmd_command = Some (JoinCmd (sample_member 7 2 1))\<rparr>
    = (command_error 2 code reason, ([(sample_room, 7)], []), [((sample_room, 7), (1, 1))])"
  using stale_command_fenced [of "\<lparr>cmd_request_id = 2, cmd_command = Some (JoinCmd (sample_member 7 2 1))\<rparr>"
      "JoinCmd (sample_member 7 2 1)" sample_bytes 7 "(2, 1)" sample_api sample_room
      "[((sample_room, 7), (1, 1))]" "(1, 1)" "([(sample_room, 7)], [])"]
  by (simp add: sample_room_id sample_member_def)

text \<open>
  A join that succeeded is idempotent: the same join under any other identifier is
  answered with the same payload and changes neither the projection nor the engine.
\<close>

lemma join_replay:
  assumes "cmd_request_id cmd \<noteq> 0" and "cmd_command cmd = Some (JoinCmd m)"
    and "apply_command A e p cmd = (res, e', p')"
    and "res_result res = Some (ResOk payload)"
    and "cmd_request_id cmd2 \<noteq> 0" and "cmd_command cmd2 = Some (JoinCmd m)"
  shows "apply_command A e' p' cmd2 =
    (\<lparr>res_request_id = cmd_request_id cmd2, res_result = Some (ResOk payload)\<rparr>, e', p')"
  using assms
  by (auto simp: apply_command_unfold command_result_defs apply_join_def hm_simps
           split: command_splits)

section \<open>Engine events are finite and current\<close>

lemma polls_exists:
  assumes "polls_finite A reads writes pending"
  shows "\<exists>evs e'. polls A e evs e'"
proof (induction "pending e" arbitrary: e rule: less_induct)
  case less
  obtain o_ev e1 where poll: "poll_event A e = (o_ev, e1)" by (cases "poll_event A e")
  show ?case
  proof (cases o_ev)
    case None
    with poll show ?thesis by (auto intro: polls_done)
  next
    case (Some ev)
    with assms poll have "pending e1 < pending e" by (auto simp: polls_finite_def)
    with less poll Some show ?thesis by (blast intro: polls_more)
  qed
qed

lemma drain_events_polls:
  assumes "polls A e evs e'"
    and "number_events ctr (List.map_filter (encode_engine_event A p) evs) = (msgs, ctr')"
  shows "drain_events A p True e ctr sent = Some (e', ctr', sent @ msgs)"
  using assms
proof (induction e evs e' arbitrary: ctr sent msgs rule: polls.induct)
  case (polls_done e e')
  then show ?case by (subst drain_events.simps) (simp add: map_filter_simps)
next
  case (polls_more e ev e1 evs e')
  then show ?case
    by (subst drain_events.simps)
       (auto simp: map_filter_simps Let_def split: option.splits prod.splits)
qed

lemma drain_reads_returns:
  assumes "polls_finite A reads writes pending"
  shows "\<exists>e'. drain_reads A e = Some e'"
proof (induction "reads e" arbitrary: e rule: less_induct)
  case less
  obtain b e1 where "poll_read A e = (b, e1)" by (cases "poll_read A e")
  with less assms show ?case
    by (subst drain_reads.simps) (auto simp: polls_finite_def Let_def)
qed

lemma drain_writes_returns:
  assumes "polls_finite A reads writes pending"
  shows "\<exists>e' ds. drain_writes A e sent = Some (e', sent @ ds)"
proof (induction "writes e" arbitrary: e sent rule: less_induct)
  case less
  obtain o_d e1 where poll: "poll_write A e = (o_d, e1)" by (cases "poll_write A e")
  show ?case
  proof (cases o_d)
    case None
    with poll show ?thesis by (subst drain_writes.simps) simp
  next
    case (Some d)
    with assms poll have "writes e1 < writes e" unfolding polls_finite_def by blast
    with less [of e1 "sent @ [d]"] poll Some show ?thesis
      by (subst drain_writes.simps) (auto simp: Let_def)
  qed
qed

lemma drain_events_closed_returns:
  assumes "polls_finite A reads writes pending"
  shows "\<exists>e' ctr'. drain_events A p False e ctr sent = Some (e', ctr', sent)"
proof (induction "pending e" arbitrary: e rule: less_induct)
  case less
  obtain o_ev e1 where poll: "poll_event A e = (o_ev, e1)" by (cases "poll_event A e")
  show ?case
  proof (cases o_ev)
    case None
    with poll show ?thesis by (subst drain_events.simps) simp
  next
    case (Some ev)
    with assms poll have "pending e1 < pending e" by (auto simp: polls_finite_def)
    with less [of e1] poll Some show ?thesis
      by (subst drain_events.simps) (auto simp: Let_def split: option.splits)
  qed
qed

lemma encode_engine_event_current:
  "encode_engine_event A p ev = Some kind \<Longrightarrow>
   \<exists>r c l ep. hm_get p (r, c) = Some (l, ep) \<and> event_room_id A ev = Some r \<and>
     event_version kind = Some (room_id_to_bytes A r, c, l)"
  by (auto simp: encode_engine_event_def split: option.splits prod.splits engine_event.splits)


lemma drain_events_open_returns:
  assumes "polls_finite A reads writes pending"
  shows "\<exists>r. drain_events A p True e ctr sent = Some r"
proof -
  obtain evs e' where e': "polls A e evs e'" using polls_exists [OF assms] by blast
  obtain msgs ctr' where
    "number_events ctr (List.map_filter (encode_engine_event A p) evs) = (msgs, ctr')" by fastforce
  from drain_events_polls [OF e' this] show ?thesis by blast
qed

lemma drain_engine_spec:
  assumes "polls_finite A reads writes pending"
  shows "\<exists>e0 e1 ds evs e' msgs ctr'. drain_reads A e = Some e0 \<and> drain_writes A e0 [] = Some (e1, ds) \<and>
    polls A e1 evs e' \<and>
    number_events ctr (List.map_filter (encode_engine_event A p) evs) = (msgs, ctr') \<and>
    drain_engine A p True e ctr = Some (e', ctr', msgs, ds)"
proof -
  obtain e0 where e0: "drain_reads A e = Some e0" using drain_reads_returns [OF assms] by blast
  obtain e1 ds where e1: "drain_writes A e0 [] = Some (e1, ds)"
    using drain_writes_returns [OF assms, of e0 "[]"] by auto
  obtain evs e' where e': "polls A e1 evs e'" using polls_exists [OF assms] by blast
  obtain msgs ctr' where n:
    "number_events ctr (List.map_filter (encode_engine_event A p) evs) = (msgs, ctr')"
    by fastforce
  from e0 e1 e' n drain_events_polls [OF e' n] show ?thesis
    unfolding drain_engine_def by fastforce
qed



section \<open>An answer finds the offer it answers\<close>

text \<open>
  An answer that carries the \<open>requestid\<close> the worker put into the offer reaches the engine
  under the identifier of that offer, whatever the command's own identifiers are.
\<close>

lemma answer_correlation:
  assumes "tag_offer q (JObject off) = JObject off'"
    and "json_from_str A (sg_message_json sg) = Some (JObject m)"
    and "hm_get m ''requestid'' = hm_get off' ''requestid''"
    and "app_signal_from_value (JObject m) = Some env" and "sig_kind env = ''answer''"
    and "sdp_from_value A (JObject m) = Some sdp" and "sdp_type A sdp = SdpAnswer"
  shows "apply_signal A cmd_id r sg e =
    (case handle_event A e (ESessionDescription q r (mb_client sg) sdp) of
       (ok, e') \<Rightarrow>
         ((if ok then Inr () else Inl (InvalidSignal, ''session description rejected'')), e'))"
proof -
  have "hm_get m ''requestid'' = Some (JString (u64_to_string q))"
    using assms(1,3) by (auto simp: tag_offer_def hm_simps)
  with assms(4) have "sig_requestid env = Some (u64_to_string q)"
    by (auto simp: app_signal_fields_def de_default_def bind_eq_Some_conv split: option.splits)
  with assms show ?thesis by (simp add: apply_signal_def Let_def)
qed

end
