(* ===== verification/Fifo_Cache.thy ===== *)
theory Fifo_Cache
  imports Prelude
begin

text \<open>
  The contract of a bounded replay cache: a map together with a queue of its keys in insertion
  order, from which the oldest key is evicted when the capacity is exceeded. Two components
  provide one: \<open>RequestCache\<close> of \<open>src/src/grpc_server.rs\<close> (completed AppRTC operations) and the
  command cache of \<open>src/src/sfu_server.rs\<close>. Their insertions differ (one loops on the size of
  the map, the other on the length of the queue); the contract and its consequences are stated
  once, in the locale \<open>fifo_cache\<close>. An insertion is a partial operation, because a loop of the
  first kind does not end when the queue runs empty.
\<close>

definition take_last :: "nat \<Rightarrow> 'a list \<Rightarrow> 'a list" where
  "take_last n xs = drop (length xs - n) xs"

lemma take_last_small [simp]: "length xs \<le> n \<Longrightarrow> take_last n xs = xs"
  by (simp add: take_last_def)

lemma length_take_last [simp]: "length (take_last n xs) = min n (length xs)"
  by (simp add: take_last_def)

lemma take_last_Cons:
  "take_last n (x # xs) = (if length xs < n then x # xs else take_last n xs)"
  by (simp add: take_last_def Suc_diff_le)

lemma take_last_append: "take_last n (take_last n xs @ ys) = take_last n (xs @ ys)"
proof (cases "length xs \<le> n")
  case False
  then have "take_last n xs @ ys = drop (length xs - n) (xs @ ys)"
    by (simp add: take_last_def)
  with False show ?thesis by (simp add: take_last_def add.commute)
qed simp

lemma take_last_map: "take_last n (map f xs) = map f (take_last n xs)"
  by (simp add: take_last_def drop_map)

lemma distinct_take_last: "distinct xs \<Longrightarrow> distinct (take_last n xs)"
  by (simp add: take_last_def)

lemma set_take_last: "set (take_last n xs) \<subseteq> set xs"
  by (simp add: take_last_def set_drop_subset)

lemma take_last_snoc_in: "0 < n \<Longrightarrow> x \<in> set (take_last n (xs @ [x]))"
  by (simp add: take_last_def)

text \<open>Restricting a map to the keys left by one eviction and then to fewer keys.\<close>

lemma restrict_removed:
  assumes "x \<notin> A"
  shows "(m(x := None)) |` A = m |` A"
  using assms by (auto simp: restrict_map_def fun_eq_iff)

text \<open>The representation both providers use: a map and the queue of its keys.\<close>

definition cache_inv :: "nat \<Rightarrow> ('k, 'v) hashmap \<times> 'k list \<Rightarrow> bool" where
  "cache_inv cap co \<longleftrightarrow>
     (case co of (cache, order) \<Rightarrow>
        hm_ok cache \<and> distinct order \<and> set order = set (hm_keys cache) \<and> length order \<le> cap)"

lemma map_of_restrict_keys: "map_of cache |` set (hm_keys cache) = map_of cache"
  by (auto simp: restrict_map_def fun_eq_iff) (metis map_of_eq_None_iff)

lemma cache_inv_length:
  assumes "cache_inv cap (cache, order)"
  shows "length cache = length order"
proof -
  have "hm_ok cache" and "distinct order" and "set order = set (hm_keys cache)"
    using assms by (simp_all add: cache_inv_def)
  then show ?thesis using distinct_card [of order] distinct_card [of "hm_keys cache"] by simp
qed

fun insert_all :: "('c \<Rightarrow> 'k \<Rightarrow> 'v \<Rightarrow> 'c option) \<Rightarrow> 'c \<Rightarrow> ('k \<times> 'v) list \<Rightarrow> 'c option" where
  "insert_all ins c [] = Some c"
| "insert_all ins c ((k, v) # kvs) =
     (case ins c k v of None \<Rightarrow> None | Some c' \<Rightarrow> insert_all ins c' kvs)"

locale fifo_cache =
  fixes cap :: nat
    and ins :: "'c \<Rightarrow> 'k \<Rightarrow> 'v \<Rightarrow> 'c option"
    and get :: "'c \<Rightarrow> 'k \<Rightarrow> 'v option"
    and order :: "'c \<Rightarrow> 'k list"
    and inv :: "'c \<Rightarrow> bool"
  assumes cap_pos: "0 < cap"
    and inv_distinct: "inv c \<Longrightarrow> distinct (order c)"
    and inv_dom: "inv c \<Longrightarrow> dom (get c) = set (order c)"
    and inv_len: "inv c \<Longrightarrow> length (order c) \<le> cap"
    and ins_total: "inv c \<Longrightarrow> \<exists>c'. ins c k v = Some c'"
    and ins_inv: "inv c \<Longrightarrow> ins c k v = Some c' \<Longrightarrow> inv c'"
    and ins_order: "inv c \<Longrightarrow> ins c k v = Some c' \<Longrightarrow>
      order c' = take_last cap (if k \<in> set (order c) then order c else order c @ [k])"
    and ins_get: "inv c \<Longrightarrow> ins c k v = Some c' \<Longrightarrow>
      get c' = ((get c)(k \<mapsto> v)) |` set (order c')"
begin

lemma ins_keeps_key: "inv c \<Longrightarrow> ins c k v = Some c' \<Longrightarrow> k \<in> set (order c')"
  using cap_pos inv_len [of c] by (auto simp: ins_order take_last_snoc_in)

lemma get_inserted: "inv c \<Longrightarrow> ins c k v = Some c' \<Longrightarrow> get c' k = Some v"
  by (simp add: ins_get ins_keeps_key)

lemma get_other:
  "inv c \<Longrightarrow> ins c k v = Some c' \<Longrightarrow> k' \<in> set (order c') \<Longrightarrow> k' \<noteq> k \<Longrightarrow> get c' k' = get c k'"
  by (simp add: ins_get)

lemma size_bounded: "inv c \<Longrightarrow> card (dom (get c)) \<le> cap"
  using distinct_card [OF inv_distinct, of c] inv_dom [of c] inv_len [of c] by simp

text \<open>Replacing the value of a cached key evicts nothing.\<close>

lemma ins_cached_order:
  "inv c \<Longrightarrow> k \<in> set (order c) \<Longrightarrow> ins c k v = Some c' \<Longrightarrow> order c' = order c"
  using inv_len [of c] by (simp add: ins_order)

lemma ins_fresh_order:
  "inv c \<Longrightarrow> k \<notin> set (order c) \<Longrightarrow> ins c k v = Some c' \<Longrightarrow>
   order c' = take_last cap (order c @ [k])"
  by (simp add: ins_order)

text \<open>
  After any number of insertions under fresh keys the cache holds exactly the most recent ones,
  each with the value stored for it.
\<close>

lemma insert_all_recent:
  assumes "inv c" and "distinct (map fst kvs)" and "set (order c) \<inter> fst ` set kvs = {}"
  shows "\<exists>c'. insert_all ins c kvs = Some c' \<and> inv c' \<and>
    order c' = take_last cap (order c @ map fst kvs) \<and>
    get c' = (get c ++ map_of kvs) |` set (order c')"
  using assms
proof (induction kvs arbitrary: c)
  case Nil
  from Nil(1) have "get c = get c |` set (order c)"
    by (auto simp: restrict_map_def fun_eq_iff inv_dom [symmetric] dom_def)
  with Nil show ?case by (simp add: inv_len)
next
  case (Cons kv kvs)
  obtain k v where kv: "kv = (k, v)" by (cases kv)
  obtain c1 where c1: "ins c k v = Some c1" using ins_total [OF Cons.prems(1)] by blast
  have inv1: "inv c1" using Cons.prems(1) c1 by (rule ins_inv)
  have k: "k \<notin> set (order c)" "k \<notin> fst ` set kvs" using Cons.prems(2,3) kv by auto
  then have o1: "order c1 = take_last cap (order c @ [k])"
    using Cons.prems(1) c1 by (simp add: ins_fresh_order)
  then have "set (order c1) \<inter> fst ` set kvs = {}"
    using Cons.prems(3) k set_take_last [of cap "order c @ [k]"] kv by auto
  then obtain c' where c': "insert_all ins c1 kvs = Some c'" "inv c'"
    "order c' = take_last cap (order c1 @ map fst kvs)"
    "get c' = (get c1 ++ map_of kvs) |` set (order c')"
    using Cons.IH [OF inv1] Cons.prems(2) kv by auto
  have o': "order c' = take_last cap (order c @ map fst (kv # kvs))"
    using c'(3) o1 take_last_append [of cap "order c @ [k]" "map fst kvs"] kv by simp
  have "get c' x = (get c ++ map_of (kv # kvs)) x" if x: "x \<in> set (order c')" for x
  proof (cases "x \<in> fst ` set kvs")
    case True
    then have "map_of kvs x \<noteq> None" by (simp add: map_of_eq_None_iff)
    with True x k(2) kv c'(4) show ?thesis by (auto simp: map_add_def split: option.splits)
  next
    case False
    then have "map_of kvs x = None" by (simp add: map_of_eq_None_iff)
    moreover have "x \<in> set (order c1)"
      using x c'(3) False set_take_last [of cap "order c1 @ map fst kvs"] by auto
    ultimately show ?thesis
      using x c'(4) kv ins_get [OF Cons.prems(1) c1] by (auto simp: map_add_def)
  qed
  then have "get c' = (get c ++ map_of (kv # kvs)) |` set (order c')"
    using c'(4) by (auto simp: restrict_map_def fun_eq_iff)
  moreover have "insert_all ins c (kv # kvs) = Some c'" using kv c1 c'(1) by simp
  ultimately show ?case using c'(2) o' by blast
qed

end

end
