(* ===== verification/Sfu_Shards.thy ===== *)
theory Sfu_Shards
  imports Sfu_Worker Fifo_Cache
begin

text \<open>
  The media shards of the SFU worker (\<open>src/src/sfu_server.rs\<close>): the command cache
  (\<open>cache_command\<close>), the shared counters (\<open>update_metrics\<close>), the body and the exit of
  \<open>media_loop\<close>, and the routing of \<open>dispatch_command\<close>. A stopped shard is one whose task has
  ended; both ways in which \<open>dispatch_command\<close> observes that give the same error.

  The shards run concurrently and share the counters and \<open>next_event_id\<close>. \<open>worker_step\<close>
  interleaves them: a command up to its reply, a packet, a timer, a drain of one engine or the end
  of one shard is a step; a run is any sequence of steps.
\<close>

section \<open>The command cache\<close>

definition COMMAND_CACHE_CAPACITY :: nat where
  "COMMAND_CACHE_CAPACITY = 4096"

fun evict_commands ::
  "nat \<Rightarrow> ('k, 'v) hashmap \<Rightarrow> 'k list \<Rightarrow> ('k, 'v) hashmap \<times> 'k list" where
  "evict_commands cap cache [] = (cache, [])"
| "evict_commands cap cache (oldest # order) =
     (if cap < length (oldest # order)
      then evict_commands cap (hm_remove oldest cache) order
      else (cache, oldest # order))"

definition cache_insert ::
  "nat \<Rightarrow> ('k, 'v) hashmap \<times> 'k list \<Rightarrow> 'k \<Rightarrow> 'v \<Rightarrow> ('k, 'v) hashmap \<times> 'k list" where
  "cache_insert cap co k v =
     (case co of (cache, order) \<Rightarrow>
        evict_commands cap (hm_insert k v cache)
          (if hm_get cache k = None then order @ [k] else order))"

definition cache_command ::
  "(u64, sfu_command_result) hashmap \<times> u64 list \<Rightarrow> sfu_command_result \<Rightarrow>
   (u64, sfu_command_result) hashmap \<times> u64 list" where
  "cache_command co result = cache_insert COMMAND_CACHE_CAPACITY co (res_request_id result) result"

lemma evict_commands_spec:
  assumes "hm_ok cache" and "distinct order" and "set order = set (hm_keys cache)"
    and "evict_commands cap cache order = (cache', order')"
  shows "order' = take_last cap order \<and> map_of cache' = map_of cache |` set order' \<and>
    cache_inv cap (cache', order')"
  using assms
proof (induction cap cache order rule: evict_commands.induct)
  case (1 cap cache)
  then show ?case by (simp add: cache_inv_def take_last_def)
next
  case (2 cap cache oldest order)
  show ?case
  proof (cases "cap < length (oldest # order)")
    case False
    with "2.prems"(4) have eq: "cache' = cache" "order' = oldest # order" by simp_all
    have "length order' \<le> cap" using False eq by simp
    with eq "2.prems"(1-3) show ?thesis
      by (simp add: cache_inv_def map_of_restrict_keys del: set_map list.set)
  next
    case True
    let ?c = "hm_remove oldest cache"
    have "set order = set (hm_keys ?c)" using 2 by (auto simp: set_keys_remove)
    with 2 True have IH: "order' = take_last cap order" "map_of cache' = map_of ?c |` set order'"
      "cache_inv cap (cache', order')" by (auto simp: hm_ok_remove)
    have "oldest \<notin> set order'"
      using IH(1) "2.prems"(2) set_take_last [of cap order] by auto
    then have "map_of cache' = map_of cache |` set order'"
      using IH(2) by (simp add: delete_conv' restrict_removed)
    with IH True show ?thesis by (simp add: take_last_Cons)
  qed
qed

lemma cache_insert_spec:
  assumes "cache_inv cap (cache, order)" and "cache_insert cap (cache, order) k v = (cache', order')"
  shows "order' = take_last cap (if k \<in> set order then order else order @ [k]) \<and>
    map_of cache' = ((map_of cache)(k \<mapsto> v)) |` set order' \<and> cache_inv cap (cache', order')"
proof -
  have order: "set order = set (hm_keys cache)" using assms(1) by (simp add: cache_inv_def)
  let ?o = "if hm_get cache k = None then order @ [k] else order"
  have o: "?o = (if k \<in> set order then order else order @ [k])"
    using order by (simp add: map_of_eq_None_iff)
  have "hm_ok (hm_insert k v cache)" and "distinct ?o"
    and "set ?o = set (hm_keys (hm_insert k v cache))"
    using assms(1) order by (auto simp: cache_inv_def hm_ok_insert set_keys_insert o)
  from evict_commands_spec [OF this] assms(2) o show ?thesis
    by (auto simp: cache_insert_def update_conv')
qed

interpretation cmd_cache: fifo_cache COMMAND_CACHE_CAPACITY
  "\<lambda>co k v. Some (cache_insert COMMAND_CACHE_CAPACITY co k v)" "\<lambda>co. map_of (fst co)" snd
  "cache_inv COMMAND_CACHE_CAPACITY"
proof (unfold_locales, goal_cases)
  case 1
  show ?case by (simp add: COMMAND_CACHE_CAPACITY_def)
next
  case (2 c)
  then show ?case by (cases c) (simp add: cache_inv_def)
next
  case (3 c)
  then show ?case by (cases c) (simp add: cache_inv_def dom_map_of_conv_image_fst)
next
  case (4 c)
  then show ?case by (cases c) (simp add: cache_inv_def)
next
  case (5 c k v)
  then show ?case by simp
next
  case (6 c k v c')
  then show ?case using cache_insert_spec [of _ "fst c" "snd c" k v "fst c'" "snd c'"] by simp
next
  case (7 c k v c')
  then show ?case using cache_insert_spec [of _ "fst c" "snd c" k v "fst c'" "snd c'"] by simp
next
  case (8 c k v c')
  then show ?case using cache_insert_spec [of _ "fst c" "snd c" k v "fst c'" "snd c'"] by simp
qed

section \<open>Metrics\<close>

record metrics =
  mt_rooms :: u64
  mt_clients :: u64

definition replace_contribution :: "u64 \<Rightarrow> u64 \<Rightarrow> u64 \<Rightarrow> u64 \<times> u64" where
  "replace_contribution tot previous current =
     ((if previous \<le> current then tot + (current - previous)
       else tot - (previous - current)), current)"

lemma replace_contribution_eq:
  "replace_contribution tot previous current = (tot - previous + current, current)"
  by (simp add: replace_contribution_def)

definition projection_rooms :: "'r projection \<Rightarrow> u64" where
  "projection_rooms projection = of_nat (length (remdups (map fst (hm_keys projection))))"

definition projection_clients :: "'r projection \<Rightarrow> u64" where
  "projection_clients projection = of_nat (length projection)"

definition update_metrics ::
  "'r projection \<Rightarrow> metrics \<Rightarrow> u64 \<Rightarrow> u64 \<Rightarrow> metrics \<times> u64 \<times> u64" where
  "update_metrics projection mt previous_rooms previous_clients =
     (let (rooms, previous_rooms') =
            replace_contribution (mt_rooms mt) previous_rooms (projection_rooms projection);
          (clients, previous_clients') =
            replace_contribution (mt_clients mt) previous_clients (projection_clients projection)
      in (\<lparr>mt_rooms = rooms, mt_clients = clients\<rparr>, previous_rooms', previous_clients'))"

definition sample_metrics :: metrics where
  "sample_metrics = \<lparr>mt_rooms = 0, mt_clients = 0\<rparr>"

section \<open>One shard\<close>

record ('r, 'e) shard =
  sh_engine :: 'e
  sh_projection :: "'r projection"
  sh_cache :: "(u64, sfu_command_result) hashmap"
  sh_order :: "u64 list"
  sh_metric_rooms :: u64
  sh_metric_clients :: u64
  sh_running :: bool

definition new_shard :: "'e \<Rightarrow> ('r, 'e) shard" where
  "new_shard engine = \<lparr>sh_engine = engine, sh_projection = [], sh_cache = [], sh_order = [],
     sh_metric_rooms = 0, sh_metric_clients = 0, sh_running = True\<rparr>"

definition shard_command ::
  "('r, 'e, 'sdp, 'z) sfu_api_scheme \<Rightarrow> sfu_command \<Rightarrow> ('r, 'e) shard \<times> metrics \<Rightarrow>
   sfu_command_result \<times> ('r, 'e) shard \<times> metrics" where
  "shard_command A cmd sm =
     (case sm of (s, mt) \<Rightarrow>
        (case hm_get (sh_cache s) (cmd_request_id cmd) of
           Some cached \<Rightarrow> (cached, s, mt)
         | None \<Rightarrow>
             (case apply_command A (sh_engine s) (sh_projection s) cmd of
                (result, engine, projection) \<Rightarrow>
                  (case cache_command (sh_cache s, sh_order s) result of
                     (cache, order) \<Rightarrow>
                       (case update_metrics projection mt (sh_metric_rooms s)
                               (sh_metric_clients s) of
                          (mt', rooms, clients) \<Rightarrow>
                            (result,
                             s\<lparr>sh_engine := engine, sh_projection := projection, sh_cache := cache,
                               sh_order := order, sh_metric_rooms := rooms,
                               sh_metric_clients := clients\<rparr>,
                             mt'))))))"

definition shard_stop ::
  "('r, 'e, 'sdp, 'z) sfu_api_scheme \<Rightarrow> ('r, 'e) shard \<times> metrics \<Rightarrow> ('r, 'e) shard \<times> metrics" where
  "shard_stop A sm =
     (case sm of (s, mt) \<Rightarrow>
        (s\<lparr>sh_engine := engine_close A (sh_engine s), sh_running := False\<rparr>,
         \<lparr>mt_rooms = mt_rooms mt - sh_metric_rooms s,
          mt_clients = mt_clients mt - sh_metric_clients s\<rparr>))"

text \<open>
  The branches of the \<open>select!\<close> in \<open>media_loop\<close>. \<open>None\<close> is a closed command channel or a failed
  receive.
\<close>

datatype media_input =
    MediaStop
  | MediaCommand "sfu_command option"
  | MediaPacket "datagram option"
  | MediaTimeout

fun media_branch ::
  "('r, 'e, 'sdp, 'z) sfu_api_scheme \<Rightarrow> media_input \<Rightarrow> ('r, 'e) shard \<times> metrics \<Rightarrow>
   (sfu_command_result option \<times> ('r, 'e) shard \<times> metrics) option" where
  "media_branch A MediaStop sm = None"
| "media_branch A (MediaCommand None) sm = None"
| "media_branch A (MediaCommand (Some cmd)) sm =
     (case shard_command A cmd sm of (result, sm') \<Rightarrow> Some (Some result, sm'))"
| "media_branch A (MediaPacket None) sm = Some (None, sm)"
| "media_branch A (MediaPacket (Some input)) (s, mt) =
     Some (None, s\<lparr>sh_engine := handle_read A (sh_engine s) input\<rparr>, mt)"
| "media_branch A MediaTimeout (s, mt) =
     Some (None, s\<lparr>sh_engine := handle_timeout A (sh_engine s)\<rparr>, mt)"

definition shard_drain ::
  "('r, 'e, 'sdp, 'z) sfu_api_scheme \<Rightarrow> bool \<Rightarrow> u64 \<Rightarrow> ('r, 'e) shard \<Rightarrow>
   (('r, 'e) shard \<times> u64 \<times> sfu_event_msg list \<times> datagram list) option" where
  "shard_drain A receiver_open next_event_id s =
     map_option (\<lambda>(engine, out). (s\<lparr>sh_engine := engine\<rparr>, out))
       (drain_engine A (sh_projection s) receiver_open (sh_engine s) next_event_id)"

text \<open>
  One iteration of \<open>media_loop\<close>: the reply to a command, the new state, and the events and
  datagrams it sends. A branch that breaks the loop runs the code after it.
\<close>

definition media_step ::
  "('r, 'e, 'sdp, 'z) sfu_api_scheme \<Rightarrow> bool \<Rightarrow> media_input \<Rightarrow> ('r, 'e) shard \<times> metrics \<Rightarrow> u64 \<Rightarrow>
   (sfu_command_result option \<times> (('r, 'e) shard \<times> metrics) \<times> u64 \<times> sfu_event_msg list \<times>
    datagram list) option" where
  "media_step A receiver_open inp sm next_event_id =
     (case media_branch A inp sm of
        None \<Rightarrow> Some (None, shard_stop A sm, next_event_id, [], [])
      | Some (reply, s, mt) \<Rightarrow>
          (case shard_drain A receiver_open next_event_id s of
             None \<Rightarrow> None
           | Some (s', out) \<Rightarrow> Some (reply, (s', mt), out)))"

definition shard_cache_inv :: "('r, 'e) shard \<Rightarrow> bool" where
  "shard_cache_inv s \<longleftrightarrow> cache_inv COMMAND_CACHE_CAPACITY (sh_cache s, sh_order s)"

lemma shard_command_caches:
  assumes "shard_cache_inv s" and "shard_command A cmd (s, mt) = (result, s', mt')"
  shows "shard_cache_inv s'" and "hm_get (sh_cache s') (cmd_request_id cmd) = Some result"
proof -
  have "shard_cache_inv s' \<and> hm_get (sh_cache s') (cmd_request_id cmd) = Some result"
  proof (cases "hm_get (sh_cache s) (cmd_request_id cmd)")
    case (Some cached)
    with assms show ?thesis by (auto simp: shard_command_def)
  next
    case None
    with assms(2) have r: "result = fst (apply_command A (sh_engine s) (sh_projection s) cmd)"
      and c: "(sh_cache s', sh_order s') = cache_command (sh_cache s, sh_order s) result"
      by (auto simp: shard_command_def split: prod.splits)
    have inv: "cache_inv COMMAND_CACHE_CAPACITY (sh_cache s, sh_order s)"
      using assms(1) by (simp add: shard_cache_inv_def)
    have ins: "Some (cache_insert COMMAND_CACHE_CAPACITY (sh_cache s, sh_order s)
                 (res_request_id result) result) = Some (sh_cache s', sh_order s')"
      using c by (simp add: cache_command_def)
    have "res_request_id result = cmd_request_id cmd"
      using r by (simp add: apply_command_request_id)
    then show ?thesis
      using cmd_cache.ins_inv [OF inv ins] cmd_cache.get_inserted [OF inv ins]
      by (simp add: shard_cache_inv_def)
  qed
  then show "shard_cache_inv s'" and "hm_get (sh_cache s') (cmd_request_id cmd) = Some result"
    by simp_all
qed



section \<open>Dispatching to shards\<close>

definition command_room_id :: "('r, 'z) uuid_api_scheme \<Rightarrow> sfu_command \<Rightarrow> 'r option" where
  "command_room_id U cmd =
     Option.bind (Option.bind (cmd_command cmd) command_room) (room_id_from_bytes U)"

definition shard_index :: "('r, 'z) uuid_api_scheme \<Rightarrow> 'r \<Rightarrow> nat \<Rightarrow> nat" where
  "shard_index U room_id n = unat (as_u128 U room_id) mod max n 1"

definition dispatch_command ::
  "('r, 'e, 'sdp, 'z) sfu_api_scheme \<Rightarrow> sfu_command \<Rightarrow> ('r, 'e) shard list \<times> metrics \<Rightarrow>
   sfu_command_result \<times> ('r, 'e) shard list \<times> metrics" where
  "dispatch_command A cmd wk =
     (case wk of (media, mt) \<Rightarrow>
        let request_id = cmd_request_id cmd
        in case command_room_id A cmd of
             None \<Rightarrow> (command_error request_id InvalidRequest ''unsupported command'', media, mt)
           | Some room_id \<Rightarrow>
               (let i = shard_index A room_id (length media)
                in if length media \<le> i
                   then (command_error request_id WorkerUnavailable ''media shard unavailable'',
                         media, mt)
                   else if \<not> sh_running (media ! i)
                   then (command_error request_id WorkerUnavailable ''media shard stopped'',
                         media, mt)
                   else case shard_command A cmd (media ! i, mt) of
                          (result, s, mt') \<Rightarrow> (result, media[i := s], mt')))"

datatype worker_input =
    Dispatch sfu_command
  | EngineInput nat "datagram option"
  | DrainShard nat bool
  | StopShard nat

type_synonym ('r, 'e) worker = "(('r, 'e) shard list \<times> metrics) \<times> u64"

definition update_engine :: "nat \<Rightarrow> ('e \<Rightarrow> 'e) \<Rightarrow> ('r, 'e) shard list \<Rightarrow> ('r, 'e) shard list" where
  "update_engine i f media = media[i := (media ! i)\<lparr>sh_engine := f (sh_engine (media ! i))\<rparr>]"

fun worker_step ::
  "('r, 'e, 'sdp, 'z) sfu_api_scheme \<Rightarrow> worker_input \<Rightarrow> ('r, 'e) worker \<Rightarrow> ('r, 'e) worker option" where
  "worker_step A (Dispatch cmd) (wk, ctr) = Some (snd (dispatch_command A cmd wk), ctr)"
| "worker_step A (EngineInput i inp) ((media, mt), ctr) =
     (if i < length media \<and> sh_running (media ! i)
      then Some ((update_engine i
             (\<lambda>e. case inp of None \<Rightarrow> handle_timeout A e | Some d \<Rightarrow> handle_read A e d) media, mt), ctr)
      else Some ((media, mt), ctr))"
| "worker_step A (DrainShard i receiver_open) ((media, mt), ctr) =
     (if i < length media \<and> sh_running (media ! i)
      then (case shard_drain A receiver_open ctr (media ! i) of
              None \<Rightarrow> None
            | Some (s, ctr', _, _) \<Rightarrow> Some ((media[i := s], mt), ctr'))
      else Some ((media, mt), ctr))"
| "worker_step A (StopShard i) ((media, mt), ctr) =
     (if i < length media \<and> sh_running (media ! i)
      then (case shard_stop A (media ! i, mt) of (s, mt') \<Rightarrow> Some ((media[i := s], mt'), ctr))
      else Some ((media, mt), ctr))"

fun worker_run ::
  "('r, 'e, 'sdp, 'z) sfu_api_scheme \<Rightarrow> worker_input list \<Rightarrow> ('r, 'e) worker \<Rightarrow> ('r, 'e) worker option" where
  "worker_run A [] wk = Some wk"
| "worker_run A (inp # inputs) wk = Option.bind (worker_step A inp wk) (worker_run A inputs)"

definition initial_worker :: "'e list \<Rightarrow> ('r, 'e) worker" where
  "initial_worker engines = ((map new_shard engines, \<lparr>mt_rooms = 0, mt_clients = 0\<rparr>), 1)"

text \<open>
  Two invariants of the worker: a shard holds only rooms that are routed to it, and the shared
  counters are the sums of what the running shards contributed, which is what they hold.
\<close>

definition routed :: "('r, 'z) uuid_api_scheme \<Rightarrow> ('r, 'e) shard list \<Rightarrow> bool" where
  "routed U media \<longleftrightarrow>
     (\<forall>i < length media. \<forall>r c. hm_get (sh_projection (media ! i)) (r, c) \<noteq> None \<longrightarrow>
        shard_index U r (length media) = i)"

definition running :: "('r, 'e) shard list \<Rightarrow> ('r, 'e) shard list" where
  "running media = filter sh_running media"

definition counted :: "('r, 'e) shard list \<times> metrics \<Rightarrow> bool" where
  "counted wk \<longleftrightarrow>
     (case wk of (media, mt) \<Rightarrow>
        mt_rooms mt = sum_list (map sh_metric_rooms (running media)) \<and>
        mt_clients mt = sum_list (map sh_metric_clients (running media)) \<and>
        (\<forall>s \<in> set media. sh_metric_rooms s = projection_rooms (sh_projection s) \<and>
           sh_metric_clients s = projection_clients (sh_projection s)))"

lemma sum_list_running_update:
  fixes f :: "('r, 'e) shard \<Rightarrow> u64"
  assumes "i < length media"
  shows "sum_list (map f (running (media[i := s]))) =
    sum_list (map f (running media)) - (if sh_running (media ! i) then f (media ! i) else 0)
      + (if sh_running s then f s else 0)"
proof -
  have m: "media = take i media @ media ! i # drop (Suc i) media"
    using assms by (rule id_take_nth_drop)
  have u: "media[i := s] = take i media @ s # drop (Suc i) media"
    using assms by (simp add: upd_conv_take_nth_drop)
  show ?thesis
    by (subst m, subst u) (simp add: running_def)
qed

lemma shard_command_running:
  "shard_command A cmd (s, mt) = (res, s', mt') \<Longrightarrow> sh_running s' = sh_running s"
  by (auto simp: shard_command_def split: option.splits prod.splits)

lemma shard_command_contribution:
  assumes "shard_command A cmd (s, mt) = (res, s', mt')"
    and "sh_metric_rooms s = projection_rooms (sh_projection s)"
    and "sh_metric_clients s = projection_clients (sh_projection s)"
  shows "sh_running s' = sh_running s"
    and "mt_rooms mt' = mt_rooms mt - sh_metric_rooms s + sh_metric_rooms s'"
    and "mt_clients mt' = mt_clients mt - sh_metric_clients s + sh_metric_clients s'"
    and "sh_metric_rooms s' = projection_rooms (sh_projection s')"
    and "sh_metric_clients s' = projection_clients (sh_projection s')"
  using assms
  by (auto simp: shard_command_def update_metrics_def replace_contribution_eq
           split: option.splits prod.splits)

lemma counted_update:
  assumes "counted (media, mt)" and "i < length media"
    and "mt_rooms mt' = mt_rooms mt - (if sh_running (media ! i) then sh_metric_rooms (media ! i) else 0)
           + (if sh_running s then sh_metric_rooms s else 0)"
    and "mt_clients mt' = mt_clients mt - (if sh_running (media ! i) then sh_metric_clients (media ! i) else 0)
           + (if sh_running s then sh_metric_clients s else 0)"
    and "sh_metric_rooms s = projection_rooms (sh_projection s)"
    and "sh_metric_clients s = projection_clients (sh_projection s)"
  shows "counted (media[i := s], mt')"
  using assms(1,3-6) sum_list_running_update [OF assms(2)]
  by (auto simp: counted_def dest!: set_update_subset_insert [THEN subsetD])

lemma counted_nth:
  assumes "counted (media, mt)" and "i < length media"
  shows "sh_metric_rooms (media ! i) = projection_rooms (sh_projection (media ! i))"
    and "sh_metric_clients (media ! i) = projection_clients (sh_projection (media ! i))"
  using assms by (auto simp: counted_def)

lemma dispatch_command_cases:
  assumes "dispatch_command A cmd (media, mt) = (res, media', mt')"
  shows "(media' = media \<and> mt' = mt) \<or>
    (\<exists>r s. command_room_id A cmd = Some r \<and> shard_index A r (length media) < length media \<and>
       sh_running (media ! shard_index A r (length media)) \<and>
       shard_command A cmd (media ! shard_index A r (length media), mt) = (res, s, mt') \<and>
       media' = media[shard_index A r (length media) := s])"
  using assms by (auto simp: dispatch_command_def Let_def split: option.splits if_splits prod.splits)

lemma counted_dispatch:
  assumes "counted (media, mt)" and "dispatch_command A cmd (media, mt) = (res, media', mt')"
  shows "counted (media', mt')"
  using dispatch_command_cases [OF assms(2)]
proof
  assume "media' = media \<and> mt' = mt"
  with assms(1) show ?thesis by simp
next
  assume "\<exists>r s. command_room_id A cmd = Some r \<and>
       shard_index A r (length media) < length media \<and>
       sh_running (media ! shard_index A r (length media)) \<and>
       shard_command A cmd (media ! shard_index A r (length media), mt) = (res, s, mt') \<and>
       media' = media[shard_index A r (length media) := s]"
  then obtain i s where i: "i < length media" "sh_running (media ! i)"
    "shard_command A cmd (media ! i, mt) = (res, s, mt')" "media' = media[i := s]" by blast
  show ?thesis
    using shard_command_contribution [OF i(3) counted_nth [OF assms(1) i(1)]] i(2)
    by (auto simp: i(4) intro!: counted_update [OF assms(1) i(1)])
qed

lemma shard_drain_frame:
  assumes "shard_drain A op ctr s = Some (s', out)"
  shows "\<exists>e. s' = s\<lparr>sh_engine := e\<rparr>"
  using assms by (auto simp: shard_drain_def)

lemma counted_step:
  assumes "counted wk" and "worker_step A inp (wk, ctr) = Some (wk', ctr')"
  shows "counted wk'"
proof -
  obtain media mt where wk: "wk = (media, mt)" by (cases wk)
  note upd = counted_update [OF assms(1) [unfolded wk]] counted_nth [OF assms(1) [unfolded wk]]
  show ?thesis
  proof (cases inp)
    case (Dispatch cmd)
    with assms wk show ?thesis
      using counted_dispatch [of media mt A cmd]
      by (cases "dispatch_command A cmd (media, mt)") auto
  next
    case (EngineInput i d)
    with assms wk show ?thesis by (auto simp: update_engine_def upd split: if_splits)
  next
    case (DrainShard i op)
    with assms wk show ?thesis
      by (auto simp: upd split: if_splits option.splits dest!: shard_drain_frame)
  next
    case (StopShard i)
    with assms wk show ?thesis
      by (auto simp: shard_stop_def upd split: if_splits)
  qed
qed

lemma shard_command_frame:
  assumes "shard_command A cmd (s, mt) = (res, s', mt')" and "command_room_id A cmd = Some r"
    and "r' \<noteq> r"
  shows "map_of (sh_projection s') (r', c) = map_of (sh_projection s) (r', c)"
proof (cases "hm_get (sh_cache s) (cmd_request_id cmd)")
  case (Some x)
  with assms(1) show ?thesis by (simp add: shard_command_def)
next
  case None
  obtain e' where "apply_command A (sh_engine s) (sh_projection s) cmd = (res, e', sh_projection s')"
    using assms(1) None by (auto simp: shard_command_def split: prod.splits)
  then show ?thesis
    by (rule apply_command_frame) (use assms(2,3) in \<open>auto simp: command_room_id_def\<close>)
qed

lemma routed_update:
  assumes "routed U media" and "i < length media"
    and "\<And>r c. hm_get (sh_projection s) (r, c) \<noteq> None \<Longrightarrow>
           hm_get (sh_projection (media ! i)) (r, c) \<noteq> None \<or> shard_index U r (length media) = i"
  shows "routed U (media[i := s])"
  unfolding routed_def length_list_update
proof (intro allI impI)
  fix j r c
  assume j: "j < length media" and h: "hm_get (sh_projection (media[i := s] ! j)) (r, c) \<noteq> None"
  show "shard_index U r (length media) = j"
  proof (cases "j = i")
    case True
    with h j have "hm_get (sh_projection s) (r, c) \<noteq> None" by simp
    from assms(3) [OF this] assms(1) j True show ?thesis unfolding routed_def by blast
  next
    case False
    with h j assms(1) show ?thesis unfolding routed_def by (metis nth_list_update_neq)
  qed
qed

lemma routed_dispatch:
  assumes "routed A media" and "dispatch_command A cmd (media, mt) = (res, media', mt')"
  shows "routed A media'"
  using dispatch_command_cases [OF assms(2)]
proof
  assume "\<exists>r s. command_room_id A cmd = Some r \<and>
       shard_index A r (length media) < length media \<and>
       sh_running (media ! shard_index A r (length media)) \<and>
       shard_command A cmd (media ! shard_index A r (length media), mt) = (res, s, mt') \<and>
       media' = media[shard_index A r (length media) := s]"
  then obtain r s where r: "command_room_id A cmd = Some r"
    and cmd: "shard_command A cmd (media ! shard_index A r (length media), mt) = (res, s, mt')"
    and i: "shard_index A r (length media) < length media"
    and m: "media' = media[shard_index A r (length media) := s]" by blast
  show ?thesis unfolding m
  proof (rule routed_update [OF assms(1) i])
    fix r' c
    assume "hm_get (sh_projection s) (r', c) \<noteq> None"
    then show "hm_get (sh_projection (media ! shard_index A r (length media))) (r', c) \<noteq> None \<or>
        shard_index A r' (length media) = shard_index A r (length media)"
      using shard_command_frame [OF cmd r, of r' c] by (cases "r' = r") auto
  qed
qed (use assms(1) in simp)

lemma routed_engine:
  assumes "routed U media" and "i < length media"
  shows "routed U (media[i := (media ! i)\<lparr>sh_engine := e\<rparr>])"
  using assms by (auto intro!: routed_update)

lemma routed_step:
  assumes "routed A (fst wk)" and "worker_step A inp (wk, ctr) = Some (wk', ctr')"
  shows "routed A (fst wk')"
proof -
  obtain media mt where wk: "wk = (media, mt)" by (cases wk)
  with assms(1) have r: "routed A media" by simp
  show ?thesis
  proof (cases inp)
    case (Dispatch cmd)
    with assms wk show ?thesis
      using routed_dispatch [of A media cmd mt]
      by (cases "dispatch_command A cmd (media, mt)") auto
  next
    case (EngineInput i d)
    with assms wk r show ?thesis
      by (auto simp: update_engine_def routed_engine split: if_splits)
  next
    case (DrainShard i op)
    with assms wk r show ?thesis
      by (auto simp: routed_engine split: if_splits option.splits dest!: shard_drain_frame)
  next
    case (StopShard i)
    with assms wk r show ?thesis
      by (auto simp: shard_stop_def intro!: routed_update split: if_splits)
  qed
qed

lemma worker_run_inv:
  "worker_run A inputs (wk, ctr) = Some (wk', ctr') \<Longrightarrow> counted wk \<Longrightarrow> routed A (fst wk) \<Longrightarrow>
   counted wk' \<and> routed A (fst wk')"
proof (induction inputs arbitrary: wk ctr)
  case (Cons inp inputs)
  from Cons.prems(1) obtain wk1 ctr1 where
    st: "worker_step A inp (wk, ctr) = Some (wk1, ctr1)"
    and run: "worker_run A inputs (wk1, ctr1) = Some (wk', ctr')"
    by (auto simp: bind_eq_Some_conv)
  from Cons.IH [OF run] counted_step [OF Cons.prems(2) st] routed_step [OF Cons.prems(3) st]
  show ?case by simp
qed simp

lemma initial_worker_inv:
  "counted (fst (initial_worker engines))" "routed A (fst (fst (initial_worker engines)))"
  by (auto simp: counted_def initial_worker_def new_shard_def running_def routed_def
        projection_rooms_def projection_clients_def sum_list_0 o_def filter_map)

lemma sum_list_filter_nth:
  fixes f :: "'a \<Rightarrow> nat"
  shows "sum_list (map f (filter P xs)) = (\<Sum>i \<in> {i. i < length xs \<and> P (xs ! i)}. f (xs ! i))"
proof -
  have "sum_list (map f (filter P xs)) = sum_list (map (\<lambda>x. if P x then f x else 0) xs)"
    by (simp add: sum_list_map_filter')
  also have "\<dots> = (\<Sum>i \<in> {0..<length xs}. if P (xs ! i) then f (xs ! i) else 0)"
    by (simp add: sum_list_sum_nth)
  also have "\<dots> = (\<Sum>i \<in> {i \<in> {0..<length xs}. P (xs ! i)}. f (xs ! i))"
    by (rule sum.inter_filter [symmetric]) simp
  also have "{i \<in> {0..<length xs}. P (xs ! i)} = {i. i < length xs \<and> P (xs ! i)}" by auto
  finally show ?thesis .
qed

lemma sum_list_of_nat:
  "sum_list (map (\<lambda>x. of_nat (f x)) xs) = of_nat (sum_list (map f xs))"
  by (induction xs) simp_all

definition held_rooms :: "('r, 'e) shard list \<Rightarrow> 'r set" where
  "held_rooms media = (\<Union>s \<in> set (running media). fst ` set (hm_keys (sh_projection s)))"

lemma rooms_sum:
  assumes "routed U media"
  shows "sum_list (map (\<lambda>s. length (remdups (map fst (hm_keys (sh_projection s))))) (running media))
    = card (held_rooms media)"
proof -
  let ?I = "{i. i < length media \<and> sh_running (media ! i)}"
  let ?R = "\<lambda>i. fst ` set (hm_keys (sh_projection (media ! i)))"
  have "held_rooms media = (\<Union>i \<in> ?I. ?R i)"
    unfolding held_rooms_def running_def by (auto simp del: set_map simp: in_set_conv_nth)
  moreover have "card (\<Union>i \<in> ?I. ?R i) = (\<Sum>i \<in> ?I. card (?R i))"
  proof (rule card_UN_disjoint)
    have idx: "shard_index U r (length media) = i" if "i < length media" and "r \<in> ?R i" for i r
    proof -
      from that(2) obtain k where "k \<in> set (hm_keys (sh_projection (media ! i)))" and "r = fst k"
        by (rule imageE)
      then have "(r, snd k) \<in> set (hm_keys (sh_projection (media ! i)))" by simp
      then have "hm_get (sh_projection (media ! i)) (r, snd k) \<noteq> None"
        unfolding hm_get_None_iff by simp
      with assms that(1) show ?thesis unfolding routed_def by blast
    qed
    show "\<forall>i \<in> ?I. \<forall>j \<in> ?I. i \<noteq> j \<longrightarrow> ?R i \<inter> ?R j = {}"
    proof (intro ballI impI)
      fix i j assume "i \<in> ?I" and "j \<in> ?I" and "i \<noteq> j"
      then show "?R i \<inter> ?R j = {}" using idx [of i] idx [of j] by blast
    qed
  qed auto
  ultimately show ?thesis
    by (simp add: running_def sum_list_filter_nth length_remdups_card_conv image_image)
qed

lemma worker_counts_clients:
  assumes "counted (media, mt)"
  shows "mt_clients mt = of_nat (\<Sum>s \<leftarrow> running media. length (sh_projection s))"
proof -
  have "sum_list (map sh_metric_clients (running media))
      = sum_list (map (\<lambda>s. projection_clients (sh_projection s)) (running media))"
    using assms by (auto simp: counted_def running_def intro!: arg_cong [where f = sum_list])
  then show ?thesis using assms by (simp add: counted_def projection_clients_def sum_list_of_nat)
qed

lemma worker_counts_rooms:
  assumes "counted (media, mt)" and "routed A media"
  shows "mt_rooms mt = of_nat (card (held_rooms media))"
proof -
  have "sum_list (map sh_metric_rooms (running media))
      = sum_list (map (\<lambda>s. projection_rooms (sh_projection s)) (running media))"
    using assms(1) by (auto simp: counted_def running_def intro!: arg_cong [where f = sum_list])
  then show ?thesis using assms(1) rooms_sum [OF assms(2)]
    by (simp add: counted_def projection_rooms_def sum_list_of_nat)
qed

text \<open>
  C6. In every interleaving of commands, packets, timers, drains and stops of the shards, the
  worker's shared room and client counters are the number of distinct rooms and of members held
  by the running shards (modulo the width of the counters).
\<close>

theorem worker_counts_exact:
  assumes "worker_run A inputs (initial_worker engines) = Some ((media, mt), ctr)"
  shows "mt_rooms mt = of_nat (card (held_rooms media)) \<and>
    mt_clients mt = of_nat (\<Sum>s \<leftarrow> running media. length (sh_projection s))"
proof -
  have "worker_run A inputs (fst (initial_worker engines), 1) = Some ((media, mt), ctr)"
    using assms by (simp add: initial_worker_def)
  from worker_run_inv [OF this initial_worker_inv(1) initial_worker_inv(2)]
  have "counted (media, mt)" and "routed A media" by simp_all
  then show ?thesis using worker_counts_clients worker_counts_rooms by blast
qed

lemma sample_worker_run:
  "worker_run sample_api [Dispatch sample_join] (initial_worker [([], [])]) =
   Some ((fst (snd (dispatch_command sample_api sample_join (fst (initial_worker [([], [])])))),
     \<lparr>mt_rooms = 1, mt_clients = 1\<rparr>), 1)"
proof -
  have "command_room_id sample_api sample_join = Some sample_room"
    by (simp add: command_room_id_def sample_join_def sample_member_def sample_room_id)
  then show ?thesis
    using sample_join_runs
    by (simp add: initial_worker_def dispatch_command_def shard_index_def shard_command_def
        new_shard_def cache_command_def cache_insert_def COMMAND_CACHE_CAPACITY_def
        update_metrics_def replace_contribution_def projection_rooms_def projection_clients_def
        split: prod.splits)
qed

theorem worker_counts_exact_witness:
  "mt_rooms \<lparr>mt_rooms = 1, mt_clients = 1\<rparr> =
     of_nat (card (held_rooms
       (fst (snd (dispatch_command sample_api sample_join (fst (initial_worker [([], [])]))))))) \<and>
   mt_clients \<lparr>mt_rooms = 1, mt_clients = 1\<rparr> =
     of_nat (\<Sum>s \<leftarrow> running
       (fst (snd (dispatch_command sample_api sample_join (fst (initial_worker [([], [])]))))).
       length (sh_projection s))"
  by (rule worker_counts_exact [OF sample_worker_run])

section \<open>The command cache over a session\<close>

lemma cache_command_insert_all:
  "insert_all (\<lambda>co k v. Some (cache_insert COMMAND_CACHE_CAPACITY co k v)) co
     (map (\<lambda>r. (res_request_id r, r)) rs) = Some (foldl cache_command co rs)"
  by (induction rs arbitrary: co) (simp_all add: cache_command_def)

text \<open>
  After results under distinct identifiers a shard's cache holds exactly those of the last
  4096 commands, each under its own identifier; the eviction order is the order of arrival.
\<close>

lemma command_cache_recent:
  assumes "distinct (map res_request_id rs)"
    and "foldl cache_command ([], []) rs = (cache, order)"
  shows "order = take_last COMMAND_CACHE_CAPACITY (map res_request_id rs) \<and>
    map_of cache = map_of (map (\<lambda>r. (res_request_id r, r)) rs) |` set order"
proof -
  have inv: "cache_inv COMMAND_CACHE_CAPACITY ([] :: (u64, sfu_command_result) hashmap, [])"
    by (simp add: cache_inv_def)
  from assms(1) show ?thesis
    using cmd_cache.insert_all_recent [OF inv, of "map (\<lambda>r. (res_request_id r, r)) rs"] assms(2)
      cache_command_insert_all [of "([], [])" rs]
    by (simp add: o_def)
qed

section \<open>One iteration of the media loop\<close>

lemma shard_drain_returns:
  assumes "polls_finite A reads writes pending"
  shows "\<exists>e' out. shard_drain A op ctr s = Some (s\<lparr>sh_engine := e'\<rparr>, out)"
proof -
  obtain e0 where e0: "drain_reads A (sh_engine s) = Some e0"
    using drain_reads_returns [OF assms] by blast
  obtain e1 ds where e1: "drain_writes A e0 [] = Some (e1, ds)"
    using drain_writes_returns [OF assms, of e0 "[]"] by auto
  obtain e2 out where "drain_events A (sh_projection s) op e1 ctr [] = Some (e2, out)"
    using drain_events_closed_returns [OF assms, of "sh_projection s" e1 ctr "[]"]
      drain_events_open_returns [OF assms, of "sh_projection s" e1 ctr "[]"]
    by (cases op) auto
  with e0 e1 show ?thesis by (cases out) (auto simp: shard_drain_def drain_engine_def)
qed



end
