(* ===== verification/Sfu_Session.thy ===== *)
theory Sfu_Session
  imports Sfu_Shards
begin

text \<open>
  The worker's gRPC session (\<open>run\<close> and \<open>run_session\<close> of \<open>src/src/sfu_server.rs\<close>): registration,
  health reports, commands and results, and events that stay pending until acknowledged. The
  branches of the session's \<open>select!\<close> are the inputs of a step function. The counter
  \<open>next_event_id\<close> is shared with the media shards, so each health tick carries the value it reads.
\<close>

section \<open>Configuration, identifiers and reconnection\<close>

record sfu_config =
  cf_media_port_min :: u16
  cf_media_port_max :: u16
  cf_max_rooms :: u64
  cf_max_clients :: u64
  cf_instance_id :: string

definition INITIAL_RECONNECT_DELAY :: nat where
  "INITIAL_RECONNECT_DELAY = 250"

definition MAX_RECONNECT_DELAY :: nat where
  "MAX_RECONNECT_DELAY = 10000"

definition check_config :: "sfu_config \<Rightarrow> (string, unit) result" where
  "check_config config =
     (if \<not> cf_media_port_min config \<le> cf_media_port_max config
      then Inl ''media port range is empty''
      else if \<not> (0 < cf_max_rooms config \<and> 0 < cf_max_clients config)
      then Inl ''SFU capacity must be nonzero''
      else Inr ())"

definition next_reconnect_delay :: "nat \<Rightarrow> nat" where
  "next_reconnect_delay delay = min (delay * 2) MAX_RECONNECT_DELAY"

text \<open>The ports of the media sockets, one per shard, in binding order.\<close>

definition media_ports :: "sfu_config \<Rightarrow> nat list" where
  "media_ports config = [unat (cf_media_port_min config)..<Suc (unat (cf_media_port_max config))]"

definition capacity :: "sfu_config \<Rightarrow> sfu_capacity" where
  "capacity config = \<lparr>max_rooms = cf_max_rooms config, max_clients = cf_max_clients config\<rparr>"

section \<open>The session\<close>

record session =
  ss_pending :: "(u64, sfu_event_msg) hashmap"
  ss_outgoing :: "sfu_to_signaling list"
  ss_out_open :: bool

definition send_out :: "sfu_to_signaling \<Rightarrow> session \<Rightarrow> (string, unit) result \<times> session" where
  "send_out msg s =
     (if ss_out_open s then (Inr (), s\<lparr>ss_outgoing := ss_outgoing s @ [msg]\<rparr>)
      else (Inl ''channel closed'', s))"

definition queue_health ::
  "sfu_config \<Rightarrow> metrics \<Rightarrow> u64 \<Rightarrow> session \<Rightarrow> (string, unit) result \<times> u64 \<times> session" where
  "queue_health config mt next_event_id s =
     (let (request_id, next_event_id') = next_nonzero next_event_id;
          event = \<lparr>ev_request_id = request_id,
            ev_event = Some (HealthEv \<lparr>hl_state = Known StateReady,
              hl_capacity = Some (capacity config), hl_current_rooms = mt_rooms mt,
              hl_current_clients = mt_clients mt\<rparr>)\<rparr>;
          (r, s') = send_out (EventMsg event)
            (s\<lparr>ss_pending := hm_insert request_id event (ss_pending s)\<rparr>)
      in (r, next_event_id', s'))"

definition decode_registration ::
  "signaling_to_sfu option \<Rightarrow> u64 \<Rightarrow> (string, u64 \<times> bool) result" where
  "decode_registration response expected_request_id =
     (case response of
        Some (RegisteredMsg registered) \<Rightarrow>
          if rr_context registered \<noteq> Some expected_request_id
          then Inl ''registration response request_id mismatch''
          else (case rr_result registered of
                  Some (RegisteredOk health_interval_ms resumed) \<Rightarrow>
                    Inr (max health_interval_ms 1, resumed)
                | Some (RegisteredError err) \<Rightarrow>
                    Inl (''SFU registration rejected: '' @ err_reason err)
                | None \<Rightarrow> Inl ''empty SFU registration response'')
      | _ \<Rightarrow> Inl ''expected RegisterSfuResponse'')"

fun send_events :: "sfu_event_msg list \<Rightarrow> session \<Rightarrow> (string, unit) result \<times> session" where
  "send_events [] s = (Inr (), s)"
| "send_events (event # events) s =
     (case send_out (EventMsg event) s of
        (Inl err, s') \<Rightarrow> (Inl err, s')
      | (Inr _, s') \<Rightarrow> send_events events s')"

text \<open>
  The part of \<open>run_session\<close> before its loop. \<open>incoming\<close> is what the first read of the response
  stream returns; connecting and opening the stream is the transport's work and has succeeded.
\<close>

definition session_start ::
  "sfu_config \<Rightarrow> metrics \<Rightarrow> u64 \<Rightarrow> (u64 \<Rightarrow> (string, signaling_to_sfu option option) result) \<Rightarrow>
   (u64, sfu_event_msg) hashmap \<Rightarrow> (string, u64 \<times> bool) result \<times> u64 \<times> session" where
  "session_start config mt next_event_id incoming pending =
     (let (registration_request_id, next_event_id') = next_nonzero next_event_id;
          s0 = \<lparr>ss_pending = pending, ss_outgoing = [RegisterMsg
            \<lparr>rg_context = Some \<lparr>ctx_app_id = Known AppId_Sfu, ctx_instance_id = cf_instance_id config,
               ctx_request_id = registration_request_id\<rparr>,
             rg_capacity = Some (capacity config)\<rparr>], ss_out_open = True\<rparr>
      in case incoming registration_request_id of
           Inl err \<Rightarrow> (Inl err, next_event_id', s0)
         | Inr None \<Rightarrow>
             (Inl ''SFU session closed before registration response'', next_event_id', s0)
         | Inr (Some registered) \<Rightarrow>
             (case decode_registration registered registration_request_id of
                Inl err \<Rightarrow> (Inl err, next_event_id', s0)
              | Inr (health_interval, resumed) \<Rightarrow>
                  (case send_events (map snd pending) s0 of
                     (Inl err, s1) \<Rightarrow> (Inl err, next_event_id', s1)
                   | (Inr _, s1) \<Rightarrow>
                       (case queue_health config mt next_event_id' s1 of
                          (Inl err, next_event_id'', s2) \<Rightarrow> (Inl err, next_event_id'', s2)
                        | (Inr _, next_event_id'', s2) \<Rightarrow>
                            (Inr (health_interval, resumed), next_event_id'', s2)))))"

datatype session_input =
    StopSignal
  | HealthTick u64
  | MediaEvent "sfu_event_msg option"
  | Incoming "(string, signaling_to_sfu option option) result"

datatype session_end = SessionOk bool | SessionErr string

definition finish_send ::
  "(string, unit) result \<times> session \<Rightarrow> 'w \<Rightarrow> session_end option \<times> session \<times> 'w" where
  "finish_send rs wk =
     (case rs of (Inl err, s) \<Rightarrow> (Some (SessionErr err), s, wk) | (Inr _, s) \<Rightarrow> (None, s, wk))"

text \<open>One iteration of the loop of \<open>run_session\<close>: the branch of its \<open>select!\<close> that fired.\<close>

fun session_step ::
  "('r, 'e, 'sdp, 'z) sfu_api_scheme \<Rightarrow> sfu_config \<Rightarrow> session_input \<Rightarrow> session \<Rightarrow>
   ('r, 'e) shard list \<times> metrics \<Rightarrow>
   session_end option \<times> session \<times> ('r, 'e) shard list \<times> metrics" where
  "session_step A config StopSignal s wk = (Some (SessionOk True), s, wk)"
| "session_step A config (HealthTick next_event_id) s wk =
     (case queue_health config (snd wk) next_event_id s of
        (r, _, s') \<Rightarrow> finish_send (r, s') wk)"
| "session_step A config (MediaEvent None) s wk = (Some (SessionOk True), s, wk)"
| "session_step A config (MediaEvent (Some event)) s wk =
     finish_send (send_out (EventMsg event)
       (s\<lparr>ss_pending := hm_insert (ev_request_id event) event (ss_pending s)\<rparr>)) wk"
| "session_step A config (Incoming (Inl err)) s wk = (Some (SessionErr err), s, wk)"
| "session_step A config (Incoming (Inr None)) s wk = (Some (SessionOk False), s, wk)"
| "session_step A config (Incoming (Inr (Some (Some (CommandMsg cmd))))) s wk =
     (case dispatch_command A cmd wk of
        (result, wk') \<Rightarrow> finish_send (send_out (CommandResultMsg result) s) wk')"
| "session_step A config (Incoming (Inr (Some (Some (EventAckMsg request_id))))) s wk =
     (None, s\<lparr>ss_pending := hm_remove request_id (ss_pending s)\<rparr>, wk)"
| "session_step A config (Incoming (Inr (Some (Some (RegisteredMsg m))))) s wk =
     (Some (SessionErr ''duplicate SFU registration response''), s, wk)"
| "session_step A config (Incoming (Inr (Some None))) s wk =
     (Some (SessionErr ''empty signaling-to-SFU message''), s, wk)"

fun session_run ::
  "('r, 'e, 'sdp, 'z) sfu_api_scheme \<Rightarrow> sfu_config \<Rightarrow> session_input list \<Rightarrow> session \<Rightarrow>
   ('r, 'e) shard list \<times> metrics \<Rightarrow>
   session_end option \<times> session \<times> ('r, 'e) shard list \<times> metrics" where
  "session_run A config [] s wk = (None, s, wk)"
| "session_run A config (inp # inputs) s wk =
     (case session_step A config inp s wk of
        (None, s', wk') \<Rightarrow> session_run A config inputs s' wk'
      | (Some fin, s', wk') \<Rightarrow> (Some fin, s', wk'))"

definition sample_config :: sfu_config where
  "sample_config = \<lparr>cf_media_port_min = 3478, cf_media_port_max = 3479, cf_max_rooms = 10,
     cf_max_clients = 20, cf_instance_id = ''w''\<rparr>"

definition sample_event :: sfu_event_msg where
  "sample_event = \<lparr>ev_request_id = 4, ev_event = None\<rparr>"

definition sample_health :: "u64 \<Rightarrow> sfu_event_msg" where
  "sample_health q = \<lparr>ev_request_id = q, ev_event = Some (HealthEv \<lparr>hl_state = Known StateReady,
     hl_capacity = Some (capacity sample_config), hl_current_rooms = 0, hl_current_clients = 0\<rparr>)\<rparr>"

text \<open>
  The loop of \<open>run\<close>: how each session ended and whether a stop arrived during the sleep after it
  are inputs; the result is the delays slept and whether the loop was left.
\<close>

fun reconnect_loop :: "nat \<Rightarrow> (session_end \<times> bool) list \<Rightarrow> nat list \<times> bool" where
  "reconnect_loop reconnect_delay [] = ([], False)"
| "reconnect_loop reconnect_delay ((SessionOk True, stopped) # rest) = ([], True)"
| "reconnect_loop reconnect_delay ((_, stopped) # rest) =
     (if stopped then ([], True)
      else apfst ((#) reconnect_delay)
             (reconnect_loop (next_reconnect_delay reconnect_delay) rest))"

section \<open>Reliable events\<close>

text \<open>The inputs that can touch the pending event of an identifier.\<close>

fun touches :: "u64 \<Rightarrow> session_input \<Rightarrow> bool" where
  "touches n (HealthTick c) \<longleftrightarrow> fst (next_nonzero c) = n"
| "touches n (MediaEvent (Some event)) \<longleftrightarrow> ev_request_id event = n"
| "touches n (Incoming (Inr (Some (Some (EventAckMsg q))))) \<longleftrightarrow> q = n"
| "touches n _ \<longleftrightarrow> False"

lemma send_out_pending [simp]: "ss_pending (snd (send_out m s)) = ss_pending s"
  by (simp add: send_out_def)

lemma finish_send_session [simp]: "fst (snd (finish_send rs wk)) = snd rs"
  by (simp add: finish_send_def split: prod.splits sum.splits)

lemma queue_health_pending:
  "ss_pending (snd (snd (queue_health config mt c s))) =
   hm_insert (fst (next_nonzero c))
     \<lparr>ev_request_id = fst (next_nonzero c),
      ev_event = Some (HealthEv \<lparr>hl_state = Known StateReady,
        hl_capacity = Some (capacity config), hl_current_rooms = mt_rooms mt,
        hl_current_clients = mt_clients mt\<rparr>)\<rparr> (ss_pending s)"
  by (simp add: queue_health_def Let_def split_beta)

lemma session_step_pending:
  assumes "\<not> touches n inp"
  shows "hm_get (ss_pending (fst (snd (session_step A config inp s wk)))) n =
    hm_get (ss_pending s) n"
  using assms
  by (induction n inp rule: touches.induct)
     (auto simp: hm_simps queue_health_pending split_beta
           split: option.splits sum.splits signaling_to_sfu.splits)

lemma session_run_pending:
  assumes "\<forall>inp \<in> set inputs. \<not> touches n inp"
  shows "hm_get (ss_pending (fst (snd (session_run A config inputs s wk)))) n =
    hm_get (ss_pending s) n"
  using assms
proof (induction inputs arbitrary: s wk)
  case (Cons inp inputs)
  obtain fin s' wk' where st: "session_step A config inp s wk = (fin, s', wk')"
    by (rule prod_cases3)
  with Cons.prems session_step_pending [of n inp A config s wk]
  have "hm_get (ss_pending s') n = hm_get (ss_pending s) n" by simp
  with Cons st show ?case by (cases fin) auto
qed simp

lemma send_events_open:
  assumes "ss_out_open s"
  shows "send_events events s =
    (Inr (), s\<lparr>ss_outgoing := ss_outgoing s @ map EventMsg events\<rparr>)"
  using assms by (induction events arbitrary: s) (simp_all add: send_out_def)

lemma session_start_outgoing:
  assumes "session_start config mt c incoming pending = (Inr reg, c', s)"
  shows "\<exists>reg_msg health. ss_outgoing s = reg_msg # map EventMsg (map snd pending) @ [health]"
  using assms
  by (auto simp: session_start_def queue_health_def send_events_open send_out_def Let_def
           split: prod.splits sum.splits option.splits if_splits)

lemma session_start_resends:
  assumes "session_start config mt c incoming pending = (Inr reg, c', s)"
    and "hm_get pending n = Some event"
  shows "EventMsg event \<in> set (ss_outgoing s)"
proof -
  have "event \<in> snd ` set pending" using map_of_SomeD [OF assms(2)] by force
  then have "EventMsg event \<in> set (map EventMsg (map snd pending))" by (simp add: image_iff)
  with session_start_outgoing [OF assms(1)] show ?thesis by (metis Un_iff list.set_intros(2) set_append)
qed



lemma next_reconnect_delay_power:
  "next_reconnect_delay (min (250 * 2 ^ n) 10000) = min (250 * 2 ^ Suc n) 10000"
  by (auto simp: next_reconnect_delay_def MAX_RECONNECT_DELAY_def)

lemma reconnect_loop_delays:
  assumes "\<forall>(fin, stopped) \<in> set ends. fin \<noteq> SessionOk True \<and> \<not> stopped"
  shows "reconnect_loop (min (250 * 2 ^ k) 10000) ends =
    (map (\<lambda>n. min (250 * 2 ^ n) 10000) [k..<k + length ends], False)"
  using assms
proof (induction ends arbitrary: k)
  case (Cons e ends)
  obtain fin where e: "e = (fin, False)" "fin \<noteq> SessionOk True" using Cons.prems by (cases e) auto
  have "reconnect_loop (min (250 * 2 ^ k) 10000) (e # ends) =
      apfst ((#) (min (250 * 2 ^ k) 10000)) (reconnect_loop (min (250 * 2 ^ Suc k) 10000) ends)"
    unfolding e(1) using e(2) next_reconnect_delay_power [of k]
    by (cases fin) (auto simp del: power_Suc)
  moreover have "[k..<k + length (e # ends)] = k # [Suc k..<Suc k + length ends]"
    by (simp add: upt_conv_Cons del: upt_Suc)
  ultimately show ?case using Cons by (simp del: power_Suc upt_Suc)
qed simp

text \<open>
  C17. As long as no session ends by a stop and none arrives while the worker sleeps, it reconnects
  for ever: the delay after failure n (from zero) is 250 ms doubled n times, capped at ten seconds,
  and is never reset by a session that succeeded in between.
\<close>

theorem reconnect_delays:
  assumes "\<forall>(fin, stopped) \<in> set ends. fin \<noteq> SessionOk True \<and> \<not> stopped"
  shows "reconnect_loop INITIAL_RECONNECT_DELAY ends =
    (map (\<lambda>n. min (250 * 2 ^ n) 10000) [0..<length ends], False)"
  using reconnect_loop_delays [OF assms, of 0] by (simp add: INITIAL_RECONNECT_DELAY_def)

theorem reconnect_delays_witness:
  "reconnect_loop INITIAL_RECONNECT_DELAY
     [(SessionOk False, False), (SessionErr ''x'', False), (SessionOk False, False)] =
   ([250, 500, 1000], False)"
  by (subst reconnect_delays) (simp_all add: upt_rec)

end
