(* ===== verification/Grpc_Codec.thy ===== *)
theory Grpc_Codec
  imports Wire
begin

text \<open>
  The pure functions of \<open>src/src/grpc_server.rs\<close>: validation of request contexts, the translation
  between Protobuf messages and the Sans-I/O types in both directions, operation fingerprints and
  admission tokens. The hash function (\<open>DefaultHasher\<close>, whose algorithm the standard library leaves
  open), the random bytes and the clock are arguments.
\<close>

section \<open>Contexts and errors\<close>

definition app_context :: "RequestContext option \<Rightarrow> (grpc_status, RequestContext) result" where
  "app_context ctx =
     and_then (ok_or ctx (InvalidArgument, ''missing context'')) (\<lambda>context.
       if ctx_app_id context \<noteq> Known AppId_Apprtc
       then Inl (PermissionDenied, ''AppRTC RPC requires APP_ID_APPRTC'')
       else if ctx_instance_id context = []
       then Inl (InvalidArgument, ''instance_id must not be empty'')
       else if ctx_request_id context = 0
       then Inl (InvalidArgument, ''request_id must be nonzero'')
       else Inr context)"

definition sfu_context :: "RequestContext option \<Rightarrow> (grpc_status, RequestContext) result" where
  "sfu_context ctx =
     and_then (ok_or ctx (InvalidArgument, ''missing context'')) (\<lambda>context.
       if ctx_app_id context \<noteq> Known AppId_Sfu
       then Inl (PermissionDenied, ''SFU session requires APP_ID_SFU'')
       else if ctx_instance_id context = []
       then Inl (InvalidArgument, ''instance_id must not be empty'')
       else if ctx_request_id context = 0
       then Inl (InvalidArgument, ''request_id must be nonzero'')
       else Inr context)"

definition response_context :: "u64 \<Rightarrow> u64 option" where
  "response_context request_id = Some request_id"

definition domain_error_code :: "string \<Rightarrow> ErrorCode" where
  "domain_error_code reason =
     (if reason = ''FULL'' then Full
      else if reason = ''DUPLICATE_CLIENT'' then DuplicateClient
      else if reason = ''ROOM_NOT_FOUND'' then RoomNotFound
      else if reason = ''CLIENT_NOT_FOUND'' then ClientNotFound
      else if reason = ''UNAUTHORIZED'' then Unauthorized
      else if reason = ''NO_SFU_AVAILABLE'' then NoSfuAvailable
      else if reason = ''ROOM_TRANSITION'' then RoomTransition
      else if reason = ''WORKER_UNAVAILABLE'' then WorkerUnavailable
      else if reason = ''STALE_ASSIGNMENT'' then StaleAssignmentEpoch
      else if reason = ''STALE_LIFECYCLE'' then StaleLifecycle
      else if reason = ''RESOURCE_EXHAUSTED'' then ResourceExhausted
      else InvalidRequest)"

definition domain_error :: "string \<Rightarrow> pb_error" where
  "domain_error reason = \<lparr>err_code = Known (domain_error_code reason), err_reason = reason,
     err_retryable = False, err_retry_after_ms = None\<rparr>"

definition parse_wire_room_id ::
  "('r, 'z) uuid_api_scheme \<Rightarrow> u8 list \<Rightarrow> (grpc_status, 'r) result" where
  "parse_wire_room_id U bytes =
     ok_or (room_id_from_bytes U bytes)
       (InvalidArgument, ''room_id must be the 16 bytes of a UUIDv8'')"

section \<open>From a worker to the state machine\<close>

definition decode_signal ::
  "('r, 'z) uuid_api_scheme \<Rightarrow> wire_room signal \<Rightarrow> (grpc_status, 'r signal) result" where
  "decode_signal U sg =
     (if sg_message_json sg = []
      then Inl (InvalidArgument, ''SFU signal message_json must not be empty'')
      else and_then (parse_wire_room_id U (mb_room sg)) (\<lambda>room_id.
        Inr \<lparr>mb_room = room_id, mb_client = mb_client sg, mb_lifecycle = mb_lifecycle sg,
             mb_epoch = mb_epoch sg, sg_message_json = sg_message_json sg,
             sg_sdp_request_id = sg_sdp_request_id sg\<rparr>))"

fun decode_payload ::
  "('r, 'z) uuid_api_scheme \<Rightarrow> payload option \<Rightarrow> (grpc_status, 'r command_ok) result" where
  "decode_payload U (Some Acknowledged) = Inr OkAcknowledged"
| "decode_payload U (Some (MemberJoined joined)) =
     and_then (parse_wire_room_id U (mb_room joined)) (\<lambda>room_id.
       Inr (OkMemberJoined \<lparr>mb_room = room_id, mb_client = mb_client joined,
              mb_lifecycle = mb_lifecycle joined, mb_epoch = mb_epoch joined\<rparr>))"
| "decode_payload U (Some (MemberLeft left)) =
     and_then (parse_wire_room_id U (mb_room left)) (\<lambda>room_id.
       Inr (OkMemberLeft \<lparr>mb_room = room_id, mb_client = mb_client left,
              mb_lifecycle = mb_lifecycle left, mb_epoch = mb_epoch left, lv_reason = ReasonUser\<rparr>))"
| "decode_payload U (Some (RoomSynced synced_room assignment_epoch)) =
     and_then (parse_wire_room_id U synced_room) (\<lambda>room_id.
       Inr (OkRoomSynced room_id assignment_epoch))"
| "decode_payload U None = Inr OkAcknowledged"

fun decode_event_kind ::
  "('r, 'z) uuid_api_scheme \<Rightarrow> event option \<Rightarrow> (grpc_status, 'r event_kind) result" where
  "decode_event_kind U (Some (HealthEv health)) =
     and_then (ok_or (hl_capacity health) (InvalidArgument, ''missing health capacity'')) (\<lambda>cap.
       case hl_state health of
         Known state \<Rightarrow>
           Inr (KHealth \<lparr>dh_state = state, dh_capacity = \<lparr>max_rooms = max_rooms cap, max_clients = max_clients cap\<rparr>,
                  dh_current_rooms = hl_current_rooms health,
                  dh_current_clients = hl_current_clients health\<rparr>)
       | Unknown _ \<Rightarrow> Inl (InvalidArgument, ''invalid SFU health state''))"
| "decode_event_kind U (Some (SignalEv sg)) =
     and_then (decode_signal U sg) (\<lambda>sg. Inr (KEventSignal sg))"
| "decode_event_kind U (Some (FailureEv failure)) =
     and_then (ok_or (fl_error failure) (InvalidArgument, ''missing SFU failure error'')) (\<lambda>err.
       Inr (KFailure \<lparr>se_reason = err_reason err, se_retryable = err_retryable err\<rparr>
              (Option.bind (fl_room failure) (room_id_from_bytes U)) (fl_client failure)
              (fl_lifecycle failure) (fl_sdp_request_id failure)))"
| "decode_event_kind U None = Inl (InvalidArgument, ''missing SFU event'')"

fun decode_sfu_input ::
  "('r, 'z) uuid_api_scheme \<Rightarrow> instant \<Rightarrow> u64 \<Rightarrow> string \<Rightarrow> sfu_to_signaling option \<Rightarrow>
   (grpc_status, 'r sfu_input) result" where
  "decode_sfu_input U now connection_id instance_id (Some (RegisterMsg _)) =
     Inl (InvalidArgument, ''RegisterSfu must appear exactly once'')"
| "decode_sfu_input U now connection_id instance_id (Some (CommandResultMsg result)) =
     (if res_request_id result = 0
      then Inl (InvalidArgument, ''command result request_id must be nonzero'')
      else and_then
        (case res_result result of
           Some (ResOk ok_payload) \<Rightarrow>
             and_then (decode_payload U ok_payload) (\<lambda>payload. Inr (Inr payload))
         | Some (ResError err) \<Rightarrow>
             Inr (Inl \<lparr>se_reason = err_reason err, se_retryable = err_retryable err\<rparr>)
         | None \<Rightarrow> Inl (InvalidArgument, ''missing command result''))
        (\<lambda>result_value.
           Inr (InCommandResult connection_id instance_id (res_request_id result) result_value now)))"
| "decode_sfu_input U now connection_id instance_id (Some (EventMsg event)) =
     (if ev_request_id event = 0
      then Inl (InvalidArgument, ''event request_id must be nonzero'')
      else and_then (decode_event_kind U (ev_event event)) (\<lambda>kind.
        Inr (InEvent connection_id instance_id (ev_request_id event) kind)))"
| "decode_sfu_input U now connection_id instance_id None =
     Inl (InvalidArgument, ''empty SFU message'')"

section \<open>From the state machine to a worker\<close>

definition encode_signal :: "('r, 'z) uuid_api_scheme \<Rightarrow> 'r signal \<Rightarrow> wire_room signal" where
  "encode_signal U sg =
     \<lparr>mb_room = room_id_to_bytes U (mb_room sg), mb_client = mb_client sg,
      mb_lifecycle = mb_lifecycle sg, mb_epoch = mb_epoch sg,
      sg_message_json = sg_message_json sg, sg_sdp_request_id = sg_sdp_request_id sg\<rparr>"

fun encode_command_kind :: "('r, 'z) uuid_api_scheme \<Rightarrow> 'r command_kind \<Rightarrow> command" where
  "encode_command_kind U (KSyncRoom sync) =
     SyncRoom \<lparr>sy_room = room_id_to_bytes U (sy_room sync), sy_epoch = sy_epoch sync,
       sy_members = map (\<lambda>m. \<lparr>mp_client = mp_client m, mp_lifecycle = mp_lifecycle m\<rparr>)
         (sy_members sync)\<rparr>"
| "encode_command_kind U (KJoin join) =
     JoinCmd \<lparr>mb_room = room_id_to_bytes U (mb_room join), mb_client = mb_client join,
       mb_lifecycle = mb_lifecycle join, mb_epoch = mb_epoch join\<rparr>"
| "encode_command_kind U (KLeave lv) =
     LeaveCmd \<lparr>mb_room = room_id_to_bytes U (mb_room lv), mb_client = mb_client lv,
       mb_lifecycle = mb_lifecycle lv, mb_epoch = mb_epoch lv, lv_reason = Known ReasonUser\<rparr>"
| "encode_command_kind U (KSignal sg) = SignalCmd (encode_signal U sg)"

text \<open>\<open>None\<close> is the \<open>unreachable!\<close> of the source: closing is handled by the stream adapter.\<close>

fun encode_sfu_output ::
  "('r, 'z) uuid_api_scheme \<Rightarrow> 'r sfu_output \<Rightarrow> signaling_to_sfu option" where
  "encode_sfu_output U (OutRegistered _ request_id health_interval_ms resumed) =
     Some (RegisteredMsg \<lparr>rr_context = response_context request_id,
       rr_result = Some (RegisteredOk health_interval_ms resumed)\<rparr>)"
| "encode_sfu_output U (OutRegistrationError _ request_id err) =
     Some (RegisteredMsg \<lparr>rr_context = response_context request_id,
       rr_result = Some (RegisteredError (domain_error (se_reason err)))\<rparr>)"
| "encode_sfu_output U (OutCommand _ cmd) =
     Some (CommandMsg \<lparr>cmd_request_id = dc_request_id cmd,
       cmd_command = Some (encode_command_kind U (dc_command cmd))\<rparr>)"
| "encode_sfu_output U (OutEventAck _ request_id) = Some (EventAckMsg request_id)"
| "encode_sfu_output U (OutClose _) = None"

section \<open>Operations\<close>

datatype 'r hash_item = HStr string | HBool bool | HRoom 'r | HU64 u64

fun operation_feed :: "'r authority_operation \<Rightarrow> 'r hash_item list" where
  "operation_feed (Admit roomid clientid is_loopback _) =
     [HStr ''admit'', HStr roomid, HStr clientid, HBool is_loopback]"
| "operation_feed (Remove roomid clientid) = [HStr ''remove'', HStr roomid, HStr clientid]"
| "operation_feed (Occupancy roomid) = [HStr ''occupancy'', HStr roomid]"
| "operation_feed (Inject roomid clientid msg _) =
     [HStr ''inject'', HStr roomid, HStr clientid, HStr msg]"
| "operation_feed (AdmitV2 room_id client_id _ _) =
     [HStr ''admit_v2'', HRoom room_id, HU64 client_id]"
| "operation_feed (RemoveV2 room_id client_id admission_token) =
     [HStr ''remove_v2'', HRoom room_id, HU64 client_id, HStr admission_token]"
| "operation_feed (OccupancyV2 room_id) = [HStr ''occupancy_v2'', HRoom room_id]"
| "operation_feed Status = [HStr ''status'']"

definition operation_fingerprint ::
  "('r hash_item list \<Rightarrow> u64) \<Rightarrow> 'r authority_operation \<Rightarrow> u64" where
  "operation_fingerprint hasher operation = hasher (operation_feed operation)"

definition hex_digit :: "u8 \<Rightarrow> char" where
  "hex_digit n = ''0123456789abcdef'' ! unat n"

text \<open>\<open>write!(token, "{byte:02x}")\<close>.\<close>

definition hex_byte :: "u8 \<Rightarrow> string" where
  "hex_byte byte = [hex_digit (byte div 16), hex_digit (byte mod 16)]"

definition new_admission_token :: "u8 list \<Rightarrow> string" where
  "new_admission_token bytes = concat (map hex_byte bytes)"

fun proto_room_mode :: "room_mode \<Rightarrow> RoomMode" where
  "proto_room_mode P2p = ModeP2p"
| "proto_room_mode Upgrading = ModeUpgrading"
| "proto_room_mode SfuRoom = ModeSfu"
| "proto_room_mode Failed = ModeFailed"

section \<open>Facts\<close>

lemma app_context_Ok_iff:
  "app_context ctx = Inr c \<longleftrightarrow>
   ctx = Some c \<and> ctx_app_id c = Known AppId_Apprtc \<and> ctx_instance_id c \<noteq> [] \<and> ctx_request_id c \<noteq> 0"
  by (cases ctx) (auto simp: app_context_def)

lemma sfu_context_Ok_iff:
  "sfu_context ctx = Inr c \<longleftrightarrow>
   ctx = Some c \<and> ctx_app_id c = Known AppId_Sfu \<and> ctx_instance_id c \<noteq> [] \<and> ctx_request_id c \<noteq> 0"
  by (cases ctx) (auto simp: sfu_context_def)

lemma parse_wire_room_id_Ok:
  assumes "uuid_laws U" and "is_room_uuid U r"
  shows "parse_wire_room_id U (room_id_to_bytes U r) = Inr r"
  using assms by (simp add: parse_wire_room_id_def room_id_from_to_bytes)

lemma decode_encode_signal:
  assumes "uuid_laws U" and "is_room_uuid U (mb_room sg)" and "sg_message_json sg \<noteq> []"
  shows "decode_signal U (encode_signal U sg) = Inr sg"
proof -
  have "room_id_from_bytes U (room_id_to_bytes U (mb_room sg)) = Some (mb_room sg)"
    using assms(1,2) by (simp add: room_id_from_to_bytes)
  with assms(3) show ?thesis
    by (cases sg) (simp add: decode_signal_def encode_signal_def parse_wire_room_id_def)
qed

text \<open>What an operation asks for, apart from the clock reading and the token a retry redraws.\<close>

fun essential :: "'r authority_operation \<Rightarrow> 'r authority_operation" where
  "essential (Admit r c l _) = Admit r c l 0"
| "essential (Inject r c m _) = Inject r c m 0"
| "essential (AdmitV2 r c _ _) = AdmitV2 r c [] 0"
| "essential operation = operation"

text \<open>
  Two operations feed the same data to the fingerprint hash exactly when they ask for the same
  thing: the same method with the same arguments, apart from the clock reading and, for a V2
  admission, the freshly drawn token. So a retry always matches its first attempt, and operations
  that differ are confused only by a collision of the hash itself.
\<close>

lemma operation_feed_eq_iff:
  "operation_feed a = operation_feed b \<longleftrightarrow> essential a = essential b"
  by (cases a; cases b) auto

lemma unat_hex: "unat (b div 16 :: u8) < 16" "unat (b mod 16 :: u8) < 16"
  using unsigned_less [of b, where 'a = nat] by (simp_all add: unat_div unat_mod less_mult_imp_div_less)

lemma hex_digit_inj:
  assumes "unat a < 16" and "unat b < 16" and "hex_digit a = hex_digit b"
  shows "a = b"
proof -
  have "distinct ''0123456789abcdef''" by simp
  with assms have "unat a = unat b"
    unfolding hex_digit_def by (subst (asm) nth_eq_iff_index_eq) simp_all
  then show ?thesis by (simp add: unsigned_word_eqI)
qed

lemma hex_byte_inj: "hex_byte a = hex_byte b \<longleftrightarrow> a = b"
proof
  assume h: "hex_byte a = hex_byte b"
  then have "a div 16 = b div 16" and "a mod 16 = b mod 16"
    using hex_digit_inj unat_hex by (auto simp: hex_byte_def)
  then show "a = b" by (metis div_mult_mod_eq)
qed simp

text \<open>
  An admission token spells its random bytes in lower case hexadecimal, two characters a byte,
  and different bytes give different tokens: the 256 bits drawn are all in the token.
\<close>

lemma admission_token_injective:
  "length (new_admission_token bytes) = 2 * length bytes \<and>
   set (new_admission_token bytes) \<subseteq> set ''0123456789abcdef'' \<and>
   (new_admission_token bytes = new_admission_token bytes' \<longleftrightarrow> bytes = bytes')"
proof -
  have len: "length (new_admission_token bs) = 2 * length bs" for bs
    by (induction bs) (simp_all add: new_admission_token_def hex_byte_def)
  have "hex_digit n \<in> set ''0123456789abcdef''" if "unat n < 16" for n
    unfolding hex_digit_def by (rule nth_mem) (use that in simp)
  then have chars: "set (new_admission_token bytes) \<subseteq> set ''0123456789abcdef''"
    using unat_hex unfolding new_admission_token_def hex_byte_def by force
  have "bytes = bytes'" if "new_admission_token bytes = new_admission_token bytes'"
    using that
  proof (induction bytes arbitrary: bytes')
    case Nil
    then show ?case by (cases bytes') (simp_all add: new_admission_token_def hex_byte_def)
  next
    case (Cons b bs)
    then obtain b' bs' where "bytes' = b' # bs'"
      using len [of "b # bs"] len [of bytes'] by (cases bytes') simp_all
    with Cons show ?case
      using hex_byte_inj [of b b'] by (simp add: new_admission_token_def hex_byte_def)
  qed
  with len chars show ?thesis by blast
qed

end
