(* ===== verification/Grpc_Service.thy ===== *)
theory Grpc_Service
  imports Grpc_Codec
begin

text \<open>
  The handlers of \<open>SignalingService\<close> in \<open>src/src/grpc_server.rs\<close>. \<open>execute\<close> is an argument: a call
  with a validated context and an operation, threading the state of the service; the theories
  \<open>Execute\<close> and \<open>Execute_Once\<close> describe it. The clock and the random bytes of a token are
  arguments too. An SFU session is its first message, and then the loop of the task it spawns.
\<close>

type_synonym ('r, 's) executor =
  "RequestContext \<Rightarrow> 'r authority_operation \<Rightarrow> 's \<Rightarrow> (grpc_status, authority_result) result \<times> 's"

section \<open>Unary calls\<close>

text \<open>Every handler validates, executes one operation and translates the outcome.\<close>

definition handle_rpc ::
  "('r, 's) executor \<Rightarrow> (grpc_status, RequestContext \<times> 'r authority_operation) result \<Rightarrow>
   (RequestContext \<Rightarrow> authority_result \<Rightarrow> (grpc_status, 'a rpc_response) result) \<Rightarrow> 's \<Rightarrow>
   (grpc_status, 'a rpc_response) result \<times> 's" where
  "handle_rpc execute prepared respond s =
     (case prepared of
        Inl status \<Rightarrow> (Inl status, s)
      | Inr (context, operation) \<Rightarrow>
          (case execute context operation s of
             (outcome, s') \<Rightarrow> (and_then outcome (respond context), s')))"

definition unexpected :: "(grpc_status, 'a) result" where
  "unexpected = Inl (GrpcInternal, ''unexpected authority response'')"

definition respond_with :: "RequestContext \<Rightarrow> (pb_error, 'a) result \<Rightarrow> (grpc_status, 'a rpc_response) result" where
  "respond_with context result =
     Inr \<lparr>rs_context = response_context (ctx_request_id context), rs_result = Some result\<rparr>"

definition operation_response ::
  "RequestContext \<Rightarrow> authority_result \<Rightarrow> (grpc_status, unit rpc_response) result" where
  "operation_response context result =
     (case result of
        Removed \<Rightarrow> respond_with context (Inr ())
      | RemovedV2 \<Rightarrow> respond_with context (Inr ())
      | Injected \<Rightarrow> respond_with context (Inr ())
      | ErrorResult reason \<Rightarrow> respond_with context (Inl (domain_error reason))
      | _ \<Rightarrow> unexpected)"

definition admit_v1 ::
  "('r, 's) executor \<Rightarrow> instant \<Rightarrow> admit_v1_request \<Rightarrow> 's \<Rightarrow>
   (grpc_status, v1_admission rpc_response) result \<times> 's" where
  "admit_v1 execute now request =
     handle_rpc execute
       (and_then (app_context (rq_context request)) (\<lambda>context.
          if rq_room request = [] \<or> rq_client request = []
          then Inl (InvalidArgument, ''room_id and client_id must not be empty'')
          else Inr (context, Admit (rq_room request) (rq_client request)
                               (rq_is_loopback request) now)))
       (\<lambda>context result. case result of
          Admitted is_initiator messages \<Rightarrow>
            respond_with context (Inr \<lparr>ad_is_initiator = is_initiator, ad_messages = messages\<rparr>)
        | ErrorResult reason \<Rightarrow> respond_with context (Inl (domain_error reason))
        | _ \<Rightarrow> unexpected)"

definition remove_v1 ::
  "('r, 's) executor \<Rightarrow> (string, string) client_request \<Rightarrow> 's \<Rightarrow>
   (grpc_status, unit rpc_response) result \<times> 's" where
  "remove_v1 execute request =
     handle_rpc execute
       (and_then (app_context (rq_context request)) (\<lambda>context.
          if rq_room request = [] \<or> rq_client request = []
          then Inl (InvalidArgument, ''room_id and client_id must not be empty'')
          else Inr (context, Remove (rq_room request) (rq_client request))))
       operation_response"

definition occupancy_v1 ::
  "('r, 's) executor \<Rightarrow> string room_request \<Rightarrow> 's \<Rightarrow>
   (grpc_status, occupancy_msg rpc_response) result \<times> 's" where
  "occupancy_v1 execute request =
     handle_rpc execute
       (and_then (app_context (rq_context request)) (\<lambda>context.
          if rq_room request = []
          then Inl (InvalidArgument, ''room_id must not be empty'')
          else Inr (context, Occupancy (rq_room request))))
       (\<lambda>context result. case result of
          OccupancyCount count \<Rightarrow>
            respond_with context (Inr \<lparr>oc_member_count = count, oc_mode = Known ModeP2p\<rparr>)
        | ErrorResult reason \<Rightarrow> respond_with context (Inl (domain_error reason))
        | _ \<Rightarrow> unexpected)"

definition inject_v1 ::
  "('r, 's) executor \<Rightarrow> instant \<Rightarrow> inject_v1_request \<Rightarrow> 's \<Rightarrow>
   (grpc_status, unit rpc_response) result \<times> 's" where
  "inject_v1 execute now request =
     handle_rpc execute
       (and_then (app_context (rq_context request)) (\<lambda>context.
          if rq_room request = [] \<or> rq_client request = [] \<or> rq_message_json request = []
          then Inl (InvalidArgument, ''room_id, client_id, and message_json must not be empty'')
          else Inr (context, Inject (rq_room request) (rq_client request)
                               (rq_message_json request) now)))
       operation_response"

definition get_status ::
  "('r, 's) executor \<Rightarrow> status_request \<Rightarrow> 's \<Rightarrow> (grpc_status, status_msg rpc_response) result \<times> 's" where
  "get_status execute request =
     handle_rpc execute
       (and_then (app_context (rq_context request)) (\<lambda>context. Inr (context, Status)))
       (\<lambda>context result. case result of
          StatusResult st \<Rightarrow>
            respond_with context (Inr \<lparr>sm_v1_rooms = st_rooms st, sm_v2_rooms = st_v2_rooms st,
              sm_clients = st_clients st,
              sm_browser_websocket_connections = st_websocket_connections st,
              sm_total_browser_websocket_connections = st_total_websocket_connections st,
              sm_browser_websocket_errors = st_websocket_errors st,
              sm_connected_sfu_instances = st_connected_sfu_instances st,
              sm_ready_sfu_instances = st_ready_sfu_instances st\<rparr>)
        | ErrorResult reason \<Rightarrow> respond_with context (Inl (domain_error reason))
        | _ \<Rightarrow> unexpected)"

definition admit_v2 ::
  "('r, 'z) uuid_api_scheme \<Rightarrow> ('r, 's) executor \<Rightarrow> u8 list \<Rightarrow> instant \<Rightarrow>
   (wire_room, u64) client_request \<Rightarrow> 's \<Rightarrow> (grpc_status, v2_admission rpc_response) result \<times> 's" where
  "admit_v2 U execute token_bytes now request =
     handle_rpc execute
       (and_then (app_context (rq_context request)) (\<lambda>context.
          and_then (parse_wire_room_id U (rq_room request)) (\<lambda>room_id.
            Inr (context, AdmitV2 room_id (rq_client request)
                   (new_admission_token token_bytes) now))))
       (\<lambda>context result. case result of
          AdmittedV2 mode signal_epoch admission_token is_initiator \<Rightarrow>
            respond_with context (Inr \<lparr>av_mode = Known (proto_room_mode mode),
              av_signal_epoch = signal_epoch, av_admission_token = admission_token,
              av_is_initiator = is_initiator\<rparr>)
        | ErrorResult reason \<Rightarrow> respond_with context (Inl (domain_error reason))
        | _ \<Rightarrow> unexpected)"

definition remove_v2 ::
  "('r, 'z) uuid_api_scheme \<Rightarrow> ('r, 's) executor \<Rightarrow> remove_v2_request \<Rightarrow> 's \<Rightarrow>
   (grpc_status, unit rpc_response) result \<times> 's" where
  "remove_v2 U execute request =
     handle_rpc execute
       (and_then (app_context (rq_context request)) (\<lambda>context.
          if rq_admission_token request = []
          then Inl (InvalidArgument, ''admission_token must not be empty'')
          else and_then (parse_wire_room_id U (rq_room request)) (\<lambda>room_id.
            Inr (context, RemoveV2 room_id (rq_client request) (rq_admission_token request)))))
       operation_response"

definition occupancy_v2 ::
  "('r, 'z) uuid_api_scheme \<Rightarrow> ('r, 's) executor \<Rightarrow> wire_room room_request \<Rightarrow> 's \<Rightarrow>
   (grpc_status, occupancy_msg rpc_response) result \<times> 's" where
  "occupancy_v2 U execute request =
     handle_rpc execute
       (and_then (app_context (rq_context request)) (\<lambda>context.
          and_then (parse_wire_room_id U (rq_room request)) (\<lambda>room_id.
            Inr (context, OccupancyV2 room_id))))
       (\<lambda>context result. case result of
          OccupancyV2Count count mode \<Rightarrow>
            respond_with context (Inr \<lparr>oc_member_count = count,
              oc_mode = Known (proto_room_mode mode)\<rparr>)
        | ErrorResult reason \<Rightarrow> respond_with context (Inl (domain_error reason))
        | _ \<Rightarrow> unexpected)"

section \<open>SFU sessions\<close>

text \<open>
  What the first read of the stream gives: a timeout, a transport error, the end of the stream or a
  message. A valid registration yields the input for the event loop.
\<close>

datatype first_read =
    ReadTimeout
  | ReadFailed grpc_status
  | ReadEnd
  | ReadMessage "sfu_to_signaling option"

definition validate_registration ::
  "first_read \<Rightarrow> (grpc_status, RequestContext \<times> sfu_capacity) result" where
  "validate_registration first =
     (case first of
        ReadTimeout \<Rightarrow> Inl (DeadlineExceeded, ''timed out waiting for RegisterSfu'')
      | ReadFailed status \<Rightarrow> Inl status
      | ReadEnd \<Rightarrow> Inl (InvalidArgument, ''missing RegisterSfu'')
      | ReadMessage (Some (RegisterMsg register)) \<Rightarrow>
          and_then (sfu_context (rg_context register)) (\<lambda>context.
          and_then (ok_or (rg_capacity register) (InvalidArgument, ''missing SFU capacity'')) (\<lambda>cap.
            if max_rooms cap = 0 \<or> max_clients cap = 0
            then Inl (InvalidArgument, ''SFU capacity limits must be nonzero'')
            else Inr (context, cap)))
      | ReadMessage _ \<Rightarrow> Inl (InvalidArgument, ''RegisterSfu must be the first message''))"

definition next_sfu_connection_id :: "u64 \<Rightarrow> u64 \<times> u64" where
  "next_sfu_connection_id counter = (max counter 1, counter + 1)"

text \<open>
  \<open>open_sfu_session\<close> up to the spawned task: the registration sent to the event loop, with the
  counter of connections; \<open>commands_open\<close> says whether the event loop still receives.
\<close>

definition open_sfu_session ::
  "bool \<Rightarrow> first_read \<Rightarrow> u64 \<Rightarrow> (grpc_status, u64 \<times> string \<times> 'r sfu_input) result \<times> u64" where
  "open_sfu_session commands_open first counter =
     (case validate_registration first of
        Inl status \<Rightarrow> (Inl status, counter)
      | Inr (context, cap) \<Rightarrow>
          (let (connection_id, counter') = next_sfu_connection_id counter
           in (if commands_open
               then Inr (connection_id, ctx_instance_id context,
                      InRegister connection_id (ctx_instance_id context) (ctx_request_id context)
                        \<lparr>max_rooms = max_rooms cap, max_clients = max_clients cap\<rparr>)
               else Inl (Unavailable, ''signaling authority stopped''), counter')))"

record 'r sfu_stream =
  st_inputs :: "'r sfu_input list"
  st_wire :: "(grpc_status, signaling_to_sfu) result list"

datatype 'r stream_event =
    StreamMessage "sfu_to_signaling option"
  | StreamEnd
  | StreamFailed
  | StreamOutput "'r sfu_output option"

datatype 'r stream_step = Continue "'r sfu_stream" | Break "'r sfu_stream" | Panic

fun is_close :: "'r sfu_output \<Rightarrow> bool" where
  "is_close (OutClose _) = True"
| "is_close _ = False"

text \<open>
  One turn of the task's loop. \<open>commands_open\<close> and \<open>wire_open\<close> say whether the receivers of the two
  channels still exist.
\<close>

fun sfu_stream_step ::
  "('r, 'z) uuid_api_scheme \<Rightarrow> instant \<Rightarrow> u64 \<Rightarrow> string \<Rightarrow> bool \<Rightarrow> bool \<Rightarrow> 'r stream_event \<Rightarrow>
   'r sfu_stream \<Rightarrow> 'r stream_step" where
  "sfu_stream_step U now connection_id instance_id commands_open wire_open (StreamMessage message) st =
     (case decode_sfu_input U now connection_id instance_id message of
        Inr input \<Rightarrow>
          if commands_open then Continue (st\<lparr>st_inputs := st_inputs st @ [input]\<rparr>) else Break st
      | Inl status \<Rightarrow>
          Break (if wire_open then st\<lparr>st_wire := st_wire st @ [Inl status]\<rparr> else st))"
| "sfu_stream_step U now connection_id instance_id commands_open wire_open StreamEnd st = Break st"
| "sfu_stream_step U now connection_id instance_id commands_open wire_open StreamFailed st = Break st"
| "sfu_stream_step U now connection_id instance_id commands_open wire_open (StreamOutput None) st =
     Break st"
| "sfu_stream_step U now connection_id instance_id commands_open wire_open (StreamOutput (Some output)) st =
     (if is_close output then Break st
      else case encode_sfu_output U output of
             None \<Rightarrow> Panic
           | Some msg \<Rightarrow>
               if wire_open then Continue (st\<lparr>st_wire := st_wire st @ [Inr msg]\<rparr>) else Break st)"

text \<open>
  The task: a list of what each turn observes, and what follows the loop. The last flag says
  whether the loop was left; a panic ends the task without the final input.
\<close>

fun sfu_stream_run ::
  "('r, 'z) uuid_api_scheme \<Rightarrow> u64 \<Rightarrow> string \<Rightarrow> (instant \<times> bool \<times> bool \<times> 'r stream_event) list \<Rightarrow>
   'r sfu_stream \<Rightarrow> ('r sfu_stream \<times> bool) option" where
  "sfu_stream_run U connection_id instance_id [] st = Some (st, False)"
| "sfu_stream_run U connection_id instance_id ((now, commands_open, wire_open, ev) # evs) st =
     (case sfu_stream_step U now connection_id instance_id commands_open wire_open ev st of
        Continue st' \<Rightarrow> sfu_stream_run U connection_id instance_id evs st'
      | Break st' \<Rightarrow>
          Some (if commands_open
                then st'\<lparr>st_inputs := st_inputs st' @ [InDisconnected connection_id instance_id now]\<rparr>
                else st', True)
      | Panic \<Rightarrow> None)"

section \<open>Only validated operations reach the event loop\<close>

definition context_ok :: "RequestContext \<Rightarrow> bool" where
  "context_ok c \<longleftrightarrow>
     ctx_app_id c = Known AppId_Apprtc \<and> ctx_instance_id c \<noteq> [] \<and> ctx_request_id c \<noteq> 0"

fun operation_ok :: "('r, 'z) uuid_api_scheme \<Rightarrow> 'r authority_operation \<Rightarrow> bool" where
  "operation_ok U (Admit r c l now) \<longleftrightarrow> r \<noteq> [] \<and> c \<noteq> []"
| "operation_ok U (Remove r c) \<longleftrightarrow> r \<noteq> [] \<and> c \<noteq> []"
| "operation_ok U (Occupancy r) \<longleftrightarrow> r \<noteq> []"
| "operation_ok U (Inject r c m now) \<longleftrightarrow> r \<noteq> [] \<and> c \<noteq> [] \<and> m \<noteq> []"
| "operation_ok U (AdmitV2 r c t now) \<longleftrightarrow> is_room_uuid U r"
| "operation_ok U (RemoveV2 r c t) \<longleftrightarrow> is_room_uuid U r \<and> t \<noteq> []"
| "operation_ok U (OccupancyV2 r) \<longleftrightarrow> is_room_uuid U r"
| "operation_ok U Status \<longleftrightarrow> True"

text \<open>
  A handler that either refuses and leaves the service alone, or executes exactly one well-formed
  operation under a valid context.
\<close>

definition guarded ::
  "('r, 'z) uuid_api_scheme \<Rightarrow> ('r, 's) executor \<Rightarrow> ('s \<Rightarrow> (grpc_status, 'a) result \<times> 's) \<Rightarrow> bool" where
  "guarded U execute handler \<longleftrightarrow>
     (\<forall>s. (\<exists>status. handler s = (Inl status, s)) \<or>
          (\<exists>context operation. context_ok context \<and> operation_ok U operation \<and>
             snd (handler s) = snd (execute context operation s) \<and>
             (\<forall>status. fst (execute context operation s) = Inl status \<longrightarrow>
                fst (handler s) = Inl status)))"

lemma guarded_handle_rpc:
  assumes "\<And>c op. prepared = Inr (c, op) \<Longrightarrow> context_ok c \<and> operation_ok U op"
  shows "guarded U execute (handle_rpc execute prepared respond)"
proof (cases prepared)
  case (Inl status)
  then show ?thesis by (simp add: guarded_def handle_rpc_def)
next
  case (Inr co)
  obtain c op where co: "co = (c, op)" by (cases co)
  have "snd (handle_rpc execute prepared respond s) = snd (execute c op s)" for s
    by (simp add: handle_rpc_def Inr co split: prod.splits)
  moreover have "fst (execute c op s) = Inl status \<Longrightarrow>
      fst (handle_rpc execute prepared respond s) = Inl status" for s status
    by (cases "execute c op s") (simp add: handle_rpc_def Inr co)
  ultimately show ?thesis using assms Inr co unfolding guarded_def by blast
qed

lemma app_context_ok: "app_context ctx = Inr c \<Longrightarrow> context_ok c"
  by (simp add: app_context_Ok_iff context_ok_def)

lemma parse_wire_room_id_valid: "parse_wire_room_id U bs = Inr r \<Longrightarrow> is_room_uuid U r"
  by (auto simp: parse_wire_room_id_def ok_or_iffs room_id_from_bytes_def Let_def split: if_splits)

text \<open>
  C24. Each of the eight calls of the AppRTC service either refuses a request without touching the
  service, or executes exactly one operation: under a context with the AppRTC application id, a
  nonempty instance and a nonzero request id, with nonempty V1 names and messages, UUIDv8 V2 rooms
  and a nonempty token to remove a V2 member. A failed execution is passed on unchanged.
\<close>

theorem handlers_guarded:
  "guarded U execute (admit_v1 execute now rq1) \<and> guarded U execute (remove_v1 execute rq2) \<and>
   guarded U execute (occupancy_v1 execute rq3) \<and> guarded U execute (inject_v1 execute now rq4) \<and>
   guarded U execute (get_status execute rq5) \<and> guarded U execute (admit_v2 U execute bytes now rq6) \<and>
   guarded U execute (remove_v2 U execute rq7) \<and> guarded U execute (occupancy_v2 U execute rq8)"
  unfolding admit_v1_def remove_v1_def occupancy_v1_def inject_v1_def get_status_def admit_v2_def
    remove_v2_def occupancy_v2_def
  by (intro conjI guarded_handle_rpc)
     (auto simp: and_then_Ok_iff split: if_splits
           dest: app_context_ok parse_wire_room_id_valid)

section \<open>The life of an SFU stream\<close>

fun input_source :: "'r sfu_input \<Rightarrow> u64 \<times> string" where
  "input_source (InRegister c i q cap) = (c, i)"
| "input_source (InCommandResult c i q r now) = (c, i)"
| "input_source (InEvent c i q k) = (c, i)"
| "input_source (InDisconnected c i now) = (c, i)"

fun is_disconnected :: "'r sfu_input \<Rightarrow> bool" where
  "is_disconnected (InDisconnected c i now) = True"
| "is_disconnected _ = False"

lemma decode_sfu_input_source:
  assumes "decode_sfu_input U now cid iid m = Inr inp"
  shows "input_source inp = (cid, iid) \<and> \<not> is_disconnected inp"
  using assms
  by (cases "(U, now, cid, iid, m)" rule: decode_sfu_input.cases)
     (auto simp: and_then_Ok_iff split: if_splits)

lemma sfu_stream_step_cases:
  "\<exists>st'. (\<exists>new. st_inputs st' = st_inputs st @ new \<and>
          (\<forall>inp \<in> set new. input_source inp = (cid, iid) \<and> \<not> is_disconnected inp)) \<and>
     (sfu_stream_step U now cid iid co wo ev st = Continue st' \<or>
      sfu_stream_step U now cid iid co wo ev st = Break st')"
proof (cases ev)
  case (StreamMessage m)
  show ?thesis
  proof (cases "decode_sfu_input U now cid iid m")
    case (Inr inp)
    with StreamMessage show ?thesis
      using decode_sfu_input_source [OF Inr]
      by (cases co) (auto intro: exI [of _ "st\<lparr>st_inputs := st_inputs st @ [inp]\<rparr>"] exI [of _ st])
  next
    case (Inl status)
    with StreamMessage show ?thesis by (cases wo) auto
  qed
next
  case (StreamOutput out)
  then show ?thesis
  proof (cases out)
    case (Some outp)
    with StreamOutput show ?thesis by (cases outp; cases wo) auto
  qed auto
qed auto

lemma sfu_stream_run_inputs:
  assumes "\<forall>(now, co, wo, ev) \<in> set evs. co"
  shows "\<exists>st' left new. sfu_stream_run U cid iid evs st = Some (st', left) \<and>
    (\<forall>inp \<in> set new. input_source inp = (cid, iid) \<and> \<not> is_disconnected inp) \<and>
    (\<exists>now. st_inputs st' = st_inputs st @ new @ (if left then [InDisconnected cid iid now] else []))"
  using assms
proof (induction evs arbitrary: st)
  case Nil
  then show ?case by (intro exI [of _ st] exI [of _ False] exI [of _ "[]"]) simp
next
  case (Cons e evs)
  obtain now wo ev where e: "e = (now, True, wo, ev)" using Cons.prems by (cases e) auto
  obtain st1 new where st1: "st_inputs st1 = st_inputs st @ new"
    "\<forall>inp \<in> set new. input_source inp = (cid, iid) \<and> \<not> is_disconnected inp"
    "sfu_stream_step U now cid iid True wo ev st = Continue st1 \<or>
     sfu_stream_step U now cid iid True wo ev st = Break st1"
    using sfu_stream_step_cases [of st cid iid U now True wo ev] by blast
  from st1(3) show ?case
  proof
    assume c: "sfu_stream_step U now cid iid True wo ev st = Continue st1"
    obtain st' left new' now' where "sfu_stream_run U cid iid evs st1 = Some (st', left)"
      "\<forall>inp \<in> set new'. input_source inp = (cid, iid) \<and> \<not> is_disconnected inp"
      "st_inputs st' = st_inputs st1 @ new' @ (if left then [InDisconnected cid iid now'] else [])"
      using Cons.IH [of st1] Cons.prems by auto
    with c e st1 show ?thesis
      by (intro exI [of _ st'] exI [of _ left] exI [of _ "new @ new'"]) auto
  next
    assume "sfu_stream_step U now cid iid True wo ev st = Break st1"
    with e st1 show ?thesis
      by (intro exI [of _ "st1\<lparr>st_inputs := st_inputs st1 @ [InDisconnected cid iid now]\<rparr>"]
            exI [of _ True] exI [of _ new]) auto
  qed
qed

text \<open>
  As long as the event loop receives, the task of an SFU session never panics, every input it
  forwards carries the session's connection and instance, and it reports the disconnection exactly
  once: as its last input, when it ends, for whatever reason.
\<close>

theorem sfu_stream_disconnects_once:
  assumes "\<forall>(now, commands_open, wire_open, ev) \<in> set evs. commands_open"
  shows "\<exists>st left inputs now. sfu_stream_run U cid iid evs \<lparr>st_inputs = [], st_wire = []\<rparr> = Some (st, left) \<and>
    st_inputs st = inputs @ (if left then [InDisconnected cid iid now] else []) \<and>
    (\<forall>inp \<in> set inputs. input_source inp = (cid, iid) \<and> \<not> is_disconnected inp)"
  using sfu_stream_run_inputs [OF assms, of U cid iid "\<lparr>st_inputs = [], st_wire = []\<rparr>"] by auto

theorem sfu_stream_disconnects_once_witness:
  "\<exists>st left inputs now. sfu_stream_run uuid16_api 1 ''w'' [(5, True, True, StreamEnd)]
      \<lparr>st_inputs = [], st_wire = []\<rparr> = Some (st, left) \<and>
    st_inputs st = inputs @ (if left then [InDisconnected 1 ''w'' now] else []) \<and>
    (\<forall>inp \<in> set inputs. input_source inp = (1, ''w'') \<and> \<not> is_disconnected inp)"
  by (rule sfu_stream_disconnects_once) simp

end
