(* ===== verification/Protocol.thy ===== *)
theory Protocol
  imports Sfu_Session Grpc_Service
begin

text \<open>
  The SFU protocol end to end: what the signaling service encodes is what the worker of
  \<open>Sfu_Worker\<close>, \<open>Sfu_Shards\<close> and \<open>Sfu_Session\<close> acts on, and what the worker sends is what the service
  decodes (\<open>decode_sfu_input\<close>, \<open>open_sfu_session\<close>). The channel between them is reliable and ordered,
  as gRPC streams are.
\<close>

section \<open>A command and its answer\<close>

fun kind_room :: "'r command_kind \<Rightarrow> 'r" where
  "kind_room (KSyncRoom s) = sy_room s"
| "kind_room (KJoin m) = mb_room m"
| "kind_room (KLeave m) = mb_room m"
| "kind_room (KSignal m) = mb_room m"

text \<open>The answer that confirms a command: it names the member, the room and the epoch of the command.\<close>

fun confirmation :: "'r command_kind \<Rightarrow> 'r command_ok" where
  "confirmation (KSyncRoom s) = OkRoomSynced (sy_room s) (sy_epoch s)"
| "confirmation (KJoin m) = OkMemberJoined \<lparr>mb_room = mb_room m, mb_client = mb_client m,
     mb_lifecycle = mb_lifecycle m, mb_epoch = mb_epoch m\<rparr>"
| "confirmation (KLeave m) = OkMemberLeft \<lparr>mb_room = mb_room m, mb_client = mb_client m,
     mb_lifecycle = mb_lifecycle m, mb_epoch = mb_epoch m, lv_reason = ReasonUser\<rparr>"
| "confirmation (KSignal m) = OkAcknowledged"

lemma command_room_encode:
  "command_room (encode_command_kind U k) = Some (room_id_to_bytes U (kind_room k))"
  by (cases k) (simp_all add: encode_signal_def)

lemma apply_command_payload:
  assumes "apply_command A e p cmd = (res, e', p')" and "cmd_command cmd = Some c"
    and "res_result res = Some (ResOk ok)" and "c \<noteq> DrainCmd"
  shows "\<exists>payload. ok = Some payload \<and>
    (case c of
       JoinCmd m \<Rightarrow> payload = MemberJoined \<lparr>mb_room = mb_room m, mb_client = mb_client m,
         mb_lifecycle = mb_lifecycle m, mb_epoch = mb_epoch m\<rparr>
     | LeaveCmd m \<Rightarrow> payload = MemberLeft \<lparr>mb_room = mb_room m, mb_client = mb_client m,
         mb_lifecycle = mb_lifecycle m, mb_epoch = mb_epoch m\<rparr>
     | SyncRoom s \<Rightarrow> payload = RoomSynced (sy_room s) (sy_epoch s)
     | SignalCmd m \<Rightarrow> payload = Acknowledged
     | DrainCmd \<Rightarrow> True) \<and>
    Option.bind (command_room c) (room_id_from_bytes A) \<noteq> None"
  using assms
  by (cases c)
     (auto simp: apply_command_unfold command_result_defs apply_join_def apply_leave_def
        apply_signal_cmd_def sync_room_def and_then_Ok_iff split: command_splits)

text \<open>
  C2. A command the state machine issues for a valid room, encoded by the service and applied by a
  worker in any state, is answered under its own identifier in a form the service accepts. If the
  answer is positive, it is exactly the confirmation of that command, and the worker's roster has
  changed as the command says.
\<close>

theorem command_answered:
  assumes "uuid_laws A" and "is_room_uuid A (kind_room (dc_command dcmd))" and "dc_request_id dcmd \<noteq> 0"
    and "encode_sfu_output A (OutCommand cid dcmd) = Some (CommandMsg cmd)"
    and "apply_command A e p cmd = (res, e', p')"
  shows "\<exists>answer. decode_sfu_input A now cid iid (Some (CommandResultMsg res)) =
      Inr (InCommandResult cid iid (dc_request_id dcmd) answer now) \<and>
    (\<forall>ok. answer = Inr ok \<longrightarrow> ok = confirmation (dc_command dcmd) \<and>
       map_of p' = roster_step (kind_room (dc_command dcmd))
         (encode_command_kind A (dc_command dcmd)) (map_of p))"
proof -
  let ?k = "dc_command dcmd" and ?c = "encode_command_kind A (dc_command dcmd)"
  have cmd: "cmd_request_id cmd = dc_request_id dcmd" "cmd_command cmd = Some ?c"
    using assms(4) by auto
  have id: "res_request_id res = dc_request_id dcmd"
    using apply_command_request_id [of A e p cmd] assms(5) cmd(1) by simp
  have room: "Option.bind (command_room ?c) (room_id_from_bytes A) = Some (kind_room ?k)"
    using room_id_from_to_bytes [OF assms(1)] assms(2) by (simp add: command_room_encode)
  have drain: "?c \<noteq> DrainCmd" by (cases ?k) simp_all
  obtain rr where rr: "res_result res = Some rr"
    using assms(5) by (auto simp: apply_command_unfold command_result_defs split: command_splits command.splits)
  show ?thesis
  proof (cases rr)
    case (ResError err)
    with rr id assms(3) show ?thesis by simp
  next
    case (ResOk ok)
    obtain payload where pay: "ok = Some payload"
      and spec: "case ?c of
         JoinCmd m \<Rightarrow> payload = MemberJoined \<lparr>mb_room = mb_room m, mb_client = mb_client m,
           mb_lifecycle = mb_lifecycle m, mb_epoch = mb_epoch m\<rparr>
       | LeaveCmd m \<Rightarrow> payload = MemberLeft \<lparr>mb_room = mb_room m, mb_client = mb_client m,
           mb_lifecycle = mb_lifecycle m, mb_epoch = mb_epoch m\<rparr>
       | SyncRoom s \<Rightarrow> payload = RoomSynced (sy_room s) (sy_epoch s)
       | SignalCmd m \<Rightarrow> payload = Acknowledged
       | DrainCmd \<Rightarrow> True"
      using apply_command_payload [OF assms(5) cmd(2)] rr ResOk drain by blast
    have "decode_payload A ok = Inr (confirmation ?k)"
      using spec pay room parse_wire_room_id_Ok [OF assms(1,2)] by (cases ?k) simp_all
    moreover obtain r where "Option.bind (command_room ?c) (room_id_from_bytes A) = Some r"
      "map_of p' = roster_step r ?c (map_of p)"
      using apply_command_roster [OF assms(5) _ cmd(2) drain] rr ResOk pay by blast
    ultimately show ?thesis using rr ResOk id assms(3) room by simp
  qed
qed

definition sample_domain_join :: "uuid16 domain_command" where
  "sample_domain_join = \<lparr>dc_request_id = 1, dc_command = KJoin
     \<lparr>mb_room = sample_room, mb_client = 7, mb_lifecycle = 1, mb_epoch = 1\<rparr>\<rparr>"

lemma sample_api_laws: "uuid_laws sample_api" "is_room_uuid sample_api sample_room"
  using uuid16_laws room_id_from_bytes_Some(2) [OF uuid16_laws sample_room_decodes]
  by (simp_all add: uuid_laws_def sample_api_def)

theorem command_answered_witness:
  "\<exists>answer. decode_sfu_input sample_api 3 2 ''w'' (Some (CommandResultMsg
      \<lparr>res_request_id = 1, res_result = Some (ResOk (Some (MemberJoined (sample_member 7 1 1))))\<rparr>)) =
      Inr (InCommandResult 2 ''w'' (dc_request_id sample_domain_join) answer 3) \<and>
    (\<forall>ok. answer = Inr ok \<longrightarrow> ok = confirmation (dc_command sample_domain_join) \<and>
       map_of [((sample_room, 7), (1, 1))] = roster_step (kind_room (dc_command sample_domain_join))
         (encode_command_kind sample_api (dc_command sample_domain_join)) (map_of []))"
  by (rule command_answered [OF sample_api_laws(1) _ _ _ sample_join_runs])
     (simp_all add: sample_domain_join_def sample_api_laws sample_join_def sample_member_def
        room_id_to_bytes_def, simp add: sample_api_def uuid16_api_def)

section \<open>Everything a worker sends is accepted\<close>

definition accepted :: "('r, 'z) uuid_api_scheme \<Rightarrow> sfu_to_signaling \<Rightarrow> bool" where
  "accepted U msg \<longleftrightarrow> (\<forall>now cid iid. is_ok (decode_sfu_input U now cid iid (Some msg)))"

lemma accepted_error: "q \<noteq> 0 \<Longrightarrow> accepted U (CommandResultMsg (command_error q code reason))"
  by (simp add: accepted_def command_error_def)

lemma accepted_result:
  assumes "cmd_request_id cmd \<noteq> 0" and "apply_command A e p cmd = (res, e', p')"
  shows "accepted A (CommandResultMsg res)"
proof -
  have id: "res_request_id res \<noteq> 0"
    using apply_command_request_id [of A e p cmd] assms by simp
  obtain rr where rr: "res_result res = Some rr"
    using assms(2) by (auto simp: apply_command_unfold command_result_defs split: command_splits command.splits)
  show ?thesis
  proof (cases rr)
    case (ResError err)
    with rr id show ?thesis by (simp add: accepted_def)
  next
    case (ResOk ok)
    show ?thesis
    proof (cases "cmd_command cmd = None \<or> cmd_command cmd = Some DrainCmd")
      case True
      then have "ok = Some Acknowledged"
        using assms rr ResOk by (auto simp: apply_command_unfold command_result_defs)
      with rr ResOk id show ?thesis by (simp add: accepted_def)
    next
      case False
      then obtain c where c: "cmd_command cmd = Some c" "c \<noteq> DrainCmd" by auto
      from apply_command_payload [OF assms(2) c(1) _ c(2)] rr ResOk id show ?thesis
        by (cases c) (auto simp: accepted_def parse_wire_room_id_def)
    qed
  qed
qed

definition results_accepted :: "('r, 'e, 'sdp, 'z) sfu_api_scheme \<Rightarrow> ('r, 'e) shard list \<Rightarrow> bool" where
  "results_accepted A media \<longleftrightarrow> (\<forall>s \<in> set media. \<forall>q res. hm_get (sh_cache s) q = Some res \<longrightarrow>
     q \<noteq> 0 \<longrightarrow> accepted A (CommandResultMsg res))"

lemma shard_command_accepted:
  assumes "shard_cache_inv s" and "cmd_request_id cmd \<noteq> 0"
    and "\<And>q res. hm_get (sh_cache s) q = Some res \<Longrightarrow> q \<noteq> 0 \<Longrightarrow> accepted A (CommandResultMsg res)"
    and "shard_command A cmd (s, mt) = (result, s', mt')"
  shows "accepted A (CommandResultMsg result) \<and> shard_cache_inv s' \<and>
    (\<forall>q res. hm_get (sh_cache s') q = Some res \<longrightarrow> q \<noteq> 0 \<longrightarrow> accepted A (CommandResultMsg res))"
proof (cases "hm_get (sh_cache s) (cmd_request_id cmd)")
  case (Some cached)
  with assms show ?thesis by (auto simp: shard_command_def)
next
  case None
  obtain e p where ap: "apply_command A (sh_engine s) (sh_projection s) cmd = (result, e, p)"
    using assms(4) None by (auto simp: shard_command_def split: prod.splits)
  have acc: "accepted A (CommandResultMsg result)" by (rule accepted_result [OF assms(2) ap])
  have ins: "Some (cache_insert COMMAND_CACHE_CAPACITY (sh_cache s, sh_order s)
      (res_request_id result) result) = Some (sh_cache s', sh_order s')"
    using assms(4) None by (auto simp: shard_command_def cache_command_def split: prod.splits)
  have inv: "cache_inv COMMAND_CACHE_CAPACITY (sh_cache s, sh_order s)"
    using assms(1) by (simp add: shard_cache_inv_def)
  have "hm_get (sh_cache s') q = Some res \<Longrightarrow> q \<noteq> 0 \<Longrightarrow> accepted A (CommandResultMsg res)" for q res
    using cmd_cache.ins_get [OF inv ins] acc assms(3) [of q res]
    by (auto simp: restrict_map_def split: if_splits)
  with acc shard_command_caches(1) [OF assms(1,4)] show ?thesis by blast
qed

definition worker_accepted :: "('r, 'e, 'sdp, 'z) sfu_api_scheme \<Rightarrow> ('r, 'e) shard list \<Rightarrow> bool" where
  "worker_accepted A media \<longleftrightarrow> (\<forall>s \<in> set media. shard_cache_inv s) \<and> results_accepted A media"

lemma dispatch_accepted:
  assumes "worker_accepted A media" and "cmd_request_id cmd \<noteq> 0"
    and "dispatch_command A cmd (media, mt) = (result, media', mt')"
  shows "accepted A (CommandResultMsg result) \<and> worker_accepted A media'"
proof (cases "\<exists>r. command_room_id A cmd = Some r \<and> shard_index A r (length media) < length media \<and>
    sh_running (media ! shard_index A r (length media))")
  case False
  with assms show ?thesis
    by (auto simp: dispatch_command_def Let_def accepted_error split: option.splits if_splits prod.splits)
next
  case True
  then obtain i s where i: "i < length media"
    "shard_command A cmd (media ! i, mt) = (result, s, mt')" "media' = media[i := s]"
    using assms(3) by (auto simp: dispatch_command_def Let_def split: prod.splits)
  have m: "media ! i \<in> set media" using i(1) by simp
  have "accepted A (CommandResultMsg result) \<and> shard_cache_inv s \<and>
      (\<forall>q res. hm_get (sh_cache s) q = Some res \<longrightarrow> q \<noteq> 0 \<longrightarrow> accepted A (CommandResultMsg res))"
    using assms(1) m by (intro shard_command_accepted [OF _ assms(2) _ i(2)])
      (auto simp: worker_accepted_def results_accepted_def)
  with assms(1) i show ?thesis
    by (auto simp: worker_accepted_def results_accepted_def dest!: set_update_subset_insert [THEN subsetD])
qed

section \<open>A whole session is accepted\<close>

definition pending_accepted :: "('r, 'z) uuid_api_scheme \<Rightarrow> (u64, sfu_event_msg) hashmap \<Rightarrow> bool" where
  "pending_accepted U pending \<longleftrightarrow> (\<forall>ev \<in> snd ` set pending. accepted U (EventMsg ev))"

definition session_accepted :: "('r, 'z) uuid_api_scheme \<Rightarrow> session \<Rightarrow> bool" where
  "session_accepted U s \<longleftrightarrow> pending_accepted U (ss_pending s) \<and>
     (\<exists>register msgs. ss_outgoing s = RegisterMsg register # msgs \<and> (\<forall>m \<in> set msgs. accepted U m))"

text \<open>What the signaling service and the media shards hand to the session.\<close>

fun input_accepted :: "('r, 'z) uuid_api_scheme \<Rightarrow> session_input \<Rightarrow> bool" where
  "input_accepted U (MediaEvent (Some ev)) \<longleftrightarrow> accepted U (EventMsg ev)"
| "input_accepted U (Incoming (Inr (Some (Some (CommandMsg cmd))))) \<longleftrightarrow> cmd_request_id cmd \<noteq> 0"
| "input_accepted U _ \<longleftrightarrow> True"

lemma pending_accepted_insert:
  "pending_accepted U m \<Longrightarrow> accepted U (EventMsg ev) \<Longrightarrow> pending_accepted U (hm_insert k ev m)"
  by (induction m) (auto simp: pending_accepted_def)

lemma pending_accepted_remove: "pending_accepted U m \<Longrightarrow> pending_accepted U (hm_remove k m)"
  by (induction m) (auto simp: pending_accepted_def)

lemma send_out_accepted:
  assumes "session_accepted U s" and "accepted U m"
  shows "session_accepted U (snd (send_out m s))"
  using assms by (auto simp: session_accepted_def send_out_def)

lemma session_accepted_pending:
  assumes "session_accepted U s" and "pending_accepted U m"
  shows "session_accepted U (s\<lparr>ss_pending := m\<rparr>)"
  using assms by (simp add: session_accepted_def)

lemma health_accepted:
  "accepted U (EventMsg \<lparr>ev_request_id = fst (next_nonzero c), ev_event = Some (HealthEv
     \<lparr>hl_state = Known StateReady, hl_capacity = Some cap, hl_current_rooms = r, hl_current_clients = n\<rparr>)\<rparr>)"
  using ids.draw_nonzero [of c] by (simp add: accepted_def)

lemma queue_health_accepted:
  assumes "session_accepted U s"
  shows "session_accepted U (snd (snd (queue_health config mt c s)))"
proof -
  define ev where "ev = \<lparr>ev_request_id = fst (next_nonzero c), ev_event = Some (HealthEv
     \<lparr>hl_state = Known StateReady, hl_capacity = Some (capacity config),
      hl_current_rooms = mt_rooms mt, hl_current_clients = mt_clients mt\<rparr>)\<rparr>"
  have "snd (snd (queue_health config mt c s)) =
      snd (send_out (EventMsg ev) (s\<lparr>ss_pending := hm_insert (fst (next_nonzero c)) ev (ss_pending s)\<rparr>))"
    by (simp add: queue_health_def ev_def Let_def split_beta)
  moreover have "accepted U (EventMsg ev)" unfolding ev_def by (rule health_accepted)
  moreover have "session_accepted U (s\<lparr>ss_pending := hm_insert (fst (next_nonzero c)) ev (ss_pending s)\<rparr>)"
    using assms \<open>accepted U (EventMsg ev)\<close>
    by (intro session_accepted_pending pending_accepted_insert) (simp_all add: session_accepted_def)
  ultimately show ?thesis by (simp add: send_out_accepted)
qed

lemma finish_send_eq:
  "finish_send rs wk = (fin, s', wk') \<Longrightarrow> s' = snd rs \<and> wk' = wk"
  by (auto simp: finish_send_def split: prod.splits sum.splits)

lemma session_step_accepted:
  assumes "session_accepted A s" and "worker_accepted A (fst wk)" and "input_accepted A inp"
    and "session_step A config inp s wk = (fin, s', wk')"
  shows "session_accepted A s' \<and> worker_accepted A (fst wk')"
proof -
  have pend: "pending_accepted A (ss_pending s)" using assms(1) by (simp add: session_accepted_def)
  have incoming: ?thesis if inp: "inp = Incoming (Inr (Some (Some m)))" for m
  proof (cases m)
    case (CommandMsg cmd)
    obtain media mt where wk: "wk = (media, mt)" by (cases wk)
    obtain result media' mt' where d: "dispatch_command A cmd (media, mt) = (result, media', mt')"
      by (rule prod_cases3)
    have "accepted A (CommandResultMsg result) \<and> worker_accepted A media'"
      using dispatch_accepted [OF _ _ d] assms(2,3) CommandMsg inp wk by simp
    with assms(1,4) d CommandMsg inp wk show ?thesis
      by (auto dest!: finish_send_eq simp: send_out_accepted)
  next
    case (EventAckMsg q)
    with assms inp pend show ?thesis
      by (auto intro: session_accepted_pending pending_accepted_remove)
  qed (use assms inp in auto)
  show ?thesis
  proof (cases inp)
    case (HealthTick c)
    with assms show ?thesis
      using queue_health_accepted [OF assms(1), of config "snd wk" c]
      by (auto dest!: finish_send_eq split: prod.splits)
  next
    case (MediaEvent o_ev)
    with assms pend show ?thesis
      by (cases o_ev)
         (auto dest!: finish_send_eq
               intro!: send_out_accepted session_accepted_pending pending_accepted_insert)
  next
    case (Incoming r)
    show ?thesis
    proof (cases r)
      case (Inr o_m)
      consider "o_m = None" | "o_m = Some None" | m where "o_m = Some (Some m)" by (cases o_m) auto
      then show ?thesis by cases (use Inr Incoming assms incoming in auto)
    qed (use Incoming assms in auto)
  qed (use assms in auto)
qed

lemma session_run_accepted:
  assumes "session_accepted A s" and "worker_accepted A (fst wk)"
    and "\<forall>inp \<in> set inputs. input_accepted A inp"
    and "session_run A config inputs s wk = (fin, s', wk')"
  shows "session_accepted A s'"
  using assms
proof (induction inputs arbitrary: s wk)
  case (Cons inp inputs)
  obtain f1 s1 wk1 where st: "session_step A config inp s wk = (f1, s1, wk1)" by (rule prod_cases3)
  have ok: "session_accepted A s1" "worker_accepted A (fst wk1)"
    using session_step_accepted [OF Cons.prems(1,2) _ st] Cons.prems(3) by simp_all
  with Cons st show ?case by (cases f1) auto
qed simp

lemma send_events_accepted:
  assumes "session_accepted U s" and "\<forall>ev \<in> set evs. accepted U (EventMsg ev)" and "ss_out_open s"
  shows "session_accepted U (snd (send_events evs s))"
  using assms by (auto simp: send_events_open session_accepted_def)

lemma session_start_accepted:
  assumes "pending_accepted U pending"
    and "session_start config mt c incoming pending = (Inr reg, c', s)"
  shows "session_accepted U s"
proof -
  define s0 where "s0 = \<lparr>ss_pending = pending, ss_outgoing = [RegisterMsg
      \<lparr>rg_context = Some \<lparr>ctx_app_id = Known AppId_Sfu, ctx_instance_id = cf_instance_id config,
         ctx_request_id = fst (next_nonzero c)\<rparr>,
       rg_capacity = Some (capacity config)\<rparr>], ss_out_open = True\<rparr>"
  have "session_accepted U s0" using assms(1) by (simp add: session_accepted_def s0_def)
  moreover have "\<forall>ev \<in> set (map snd pending). accepted U (EventMsg ev)"
    using assms(1) by (simp add: pending_accepted_def)
  ultimately have "session_accepted U (snd (send_events (map snd pending) s0))"
    by (rule send_events_accepted) (simp add: s0_def)
  then have "session_accepted U (snd (snd (queue_health config mt (snd (next_nonzero c))
      (snd (send_events (map snd pending) s0)))))" by (rule queue_health_accepted)
  moreover have "s = snd (snd (queue_health config mt (snd (next_nonzero c))
      (snd (send_events (map snd pending) s0))))"
    using assms(2) unfolding session_start_def
    by (auto simp: Let_def s0_def split: prod.splits sum.splits option.splits)
  ultimately show ?thesis by simp
qed


definition sample_incoming :: "u64 \<Rightarrow> (string, signaling_to_sfu option option) result" where
  "sample_incoming q = Inr (Some (Some (RegisteredMsg
     \<lparr>rr_context = Some q, rr_result = Some (RegisteredOk 5 False)\<rparr>)))"

definition sample_session :: session where
  "sample_session = snd (snd (session_start sample_config sample_metrics 8 sample_incoming []))"

lemma sample_session_start:
  "session_start sample_config sample_metrics 8 sample_incoming [] = (Inr (5, False), 10, sample_session)"
  by (simp add: sample_session_def session_start_def next_nonzero_eq decode_registration_def
      send_out_def queue_health_def Let_def sample_incoming_def)

definition sample_inputs :: "session_input list" where
  "sample_inputs = [HealthTick 20, Incoming (Inr (Some (Some (CommandMsg sample_join))))]"


section \<open>Engine events reach the state machine\<close>

fun decoded_version :: "'r event_kind \<Rightarrow> ('r \<times> u64 \<times> u64) option" where
  "decoded_version (KEventSignal sg) = Some (mb_room sg, mb_client sg, mb_lifecycle sg)"
| "decoded_version (KFailure err (Some r) (Some c) (Some l) q) = Some (r, c, l)"
| "decoded_version _ = None"

lemma number_events_ids:
  "number_events ctr ks = (ms, ctr') \<Longrightarrow> m \<in> set ms \<Longrightarrow>
   ev_request_id m \<noteq> 0 \<and> (\<exists>k \<in> set ks. ev_event m = Some k)"
proof (induction ks arbitrary: ctr ms)
  case (Cons k ks)
  then show ?case using ids.draw_nonzero [of ctr] by (fastforce split: prod.splits)
qed simp

lemma map_filter_mem: "y \<in> set (List.map_filter f xs) \<longleftrightarrow> (\<exists>x \<in> set xs. f x = Some y)"
  by (induction xs) (auto simp: map_filter_simps split: option.splits)

lemma decode_engine_event:
  assumes "uuid_laws A" and "\<forall>r c. hm_get p (r, c) \<noteq> None \<longrightarrow> is_room_uuid A r"
    and "\<forall>v. json_to_string A v \<noteq> []" and "encode_engine_event A p ev = Some kind"
  shows "\<exists>dk r c l epoch. decode_event_kind A (Some kind) = Inr dk \<and>
    hm_get p (r, c) = Some (l, epoch) \<and> decoded_version dk = Some (r, c, l)"
proof -
  obtain r c l epoch where r: "event_room_id A ev = Some r" "event_client_id A ev = Some c"
    "hm_get p (r, c) = Some (l, epoch)"
    using assms(4) by (auto simp: encode_engine_event_def split: option.splits)
  then have "room_id_from_bytes A (room_id_to_bytes A r) = Some r"
    using assms(2) by (auto simp: room_id_from_to_bytes [OF assms(1)] simp del: not_None_eq)
  with r assms(3,4) show ?thesis
    by (auto simp: encode_engine_event_def decode_signal_def parse_wire_room_id_def
        split: engine_event.splits)
qed

text \<open>
  C22. Every event a worker's drain emits (for rooms it accepted, with a JSON printer that never
  prints nothing) is accepted by the service, and the state machine receives it for exactly the room,
  client and lifecycle under which the worker holds the member.
\<close>

theorem engine_events_received:
  assumes "uuid_laws A" and "polls_finite A reads writes pending"
    and "\<forall>r c. hm_get p (r, c) \<noteq> None \<longrightarrow> is_room_uuid A r"
    and "\<forall>v. json_to_string A v \<noteq> []"
    and "drain_engine A p True e ctr = Some (e', ctr', msgs, datagrams)" and "m \<in> set msgs"
  shows "\<exists>dk r c l epoch. decode_sfu_input A now cid iid (Some (EventMsg m)) =
      Inr (InEvent cid iid (ev_request_id m) dk) \<and>
    hm_get p (r, c) = Some (l, epoch) \<and> decoded_version dk = Some (r, c, l)"
proof -
  obtain evs where "number_events ctr (List.map_filter (encode_engine_event A p) evs) = (msgs, ctr')"
    using drain_engine_spec [OF assms(2), of e ctr p] assms(5) by auto
  from number_events_ids [OF this assms(6)] obtain ev kind where
    k: "ev_request_id m \<noteq> 0" "ev_event m = Some kind" "encode_engine_event A p ev = Some kind"
    by (auto simp: map_filter_mem)
  from decode_engine_event [OF assms(1,3,4) k(3)] k(1,2) show ?thesis by fastforce
qed

definition sample_offer :: sample_engine where
  "sample_offer = ([(sample_room, 7)], [ESessionDescription 5 sample_room 7 SdpOffer])"

definition sample_offer_event :: sfu_event_msg where
  "sample_offer_event = \<lparr>ev_request_id = 1, ev_event = Some (SignalEv \<lparr>mb_room = sample_bytes,
     mb_client = 7, mb_lifecycle = 3, mb_epoch = 4, sg_message_json = ''json'',
     sg_sdp_request_id = Some 5\<rparr>)\<rparr>"

lemma sample_offer_encoded:
  "encode_engine_event sample_api [((sample_room, 7), (3, 4))] (ESessionDescription 5 sample_room 7 SdpOffer)
   = ev_event sample_offer_event"
  by (simp add: encode_engine_event_def sample_offer_event_def room_id_to_bytes_def)
     (simp add: sample_api_def uuid16_api_def room_id_to_bytes_def)

lemma sample_offer_drained:
  "drain_engine sample_api [((sample_room, 7), (3, 4))] True sample_offer 1 =
   Some (([(sample_room, 7)], []), 2, [sample_offer_event], [])"
proof -
  have "polls sample_api sample_offer [ESessionDescription 5 sample_room 7 SdpOffer] ([(sample_room, 7)], [])"
    by (auto simp: sample_offer_def sample_api_def intro!: polls.intros)
  moreover have "number_events 1 (List.map_filter (encode_engine_event sample_api
      [((sample_room, 7), (3, 4))]) [ESessionDescription 5 sample_room 7 SdpOffer]) =
      ([sample_offer_event], 2)"
    unfolding map_filter_simps sample_offer_encoded
    by (simp add: sample_offer_event_def next_nonzero_eq)
  ultimately have "drain_events sample_api [((sample_room, 7), (3, 4))] True sample_offer 1 [] =
      Some (([(sample_room, 7)], []), 2, [] @ [sample_offer_event])" by (rule drain_events_polls)
  moreover have "drain_reads sample_api sample_offer = Some sample_offer"
    by (subst drain_reads.simps) (simp add: sample_api_def Let_def)
  moreover have "drain_writes sample_api sample_offer [] = Some (sample_offer, [])"
    by (subst drain_writes.simps) (simp add: sample_api_def Let_def)
  ultimately show ?thesis by (simp add: drain_engine_def)
qed

theorem engine_events_received_witness:
  "\<exists>dk r c l epoch. decode_sfu_input sample_api 0 1 ''w'' (Some (EventMsg sample_offer_event)) =
      Inr (InEvent 1 ''w'' (ev_request_id sample_offer_event) dk) \<and>
    hm_get [((sample_room, 7 :: u64), (3 :: u64, 4 :: u64))] (r, c) = Some (l, epoch) \<and>
    decoded_version dk = Some (r, c, l)"
proof (rule engine_events_received [OF sample_api_laws(1) sample_polls_finite _ _ sample_offer_drained])
  show "\<forall>v. json_to_string sample_api v \<noteq> []" by (simp add: sample_api_def)
qed (use sample_api_laws(2) in simp_all)

section \<open>Registration\<close>

text \<open>
  C23. The registration of a worker with a valid configuration and a nonempty instance id is accepted
  by the service, which registers it under a nonzero connection with its capacity and request id;
  and when the state machine confirms it, the worker accepts the encoded confirmation: its session
  starts, with a health interval of at least one millisecond.
\<close>

theorem registration_handshake:
  assumes "check_config config = Inr ()" and "cf_instance_id config \<noteq> []"
    and "\<And>q. incoming q = Inr (Some (encode_sfu_output A (OutRegistered cid q interval resumed)))"
  shows "\<exists>c' s register. session_start config mt c incoming pending =
      (Inr (max interval 1, resumed), c', s) \<and>
    hd (ss_outgoing s) = RegisterMsg register \<and>
    open_sfu_session True (ReadMessage (Some (RegisterMsg register))) counter =
      (Inr (max counter 1, cf_instance_id config,
         InRegister (max counter 1) (cf_instance_id config) (fst (next_nonzero c)) (capacity config)),
       counter + 1) \<and> max counter 1 \<noteq> 0"
proof -
  let ?q = "fst (next_nonzero c)"
  let ?register = "\<lparr>rg_context = Some \<lparr>ctx_app_id = Known AppId_Sfu,
    ctx_instance_id = cf_instance_id config, ctx_request_id = ?q\<rparr>, rg_capacity = Some (capacity config)\<rparr>"
  have "?q \<noteq> 0" by (rule ids.draw_nonzero)
  moreover have "max_rooms (capacity config) \<noteq> 0" "max_clients (capacity config) \<noteq> 0"
    using assms(1) by (auto simp: check_config_def capacity_def split: if_splits)
  ultimately have "open_sfu_session True (ReadMessage (Some (RegisterMsg ?register))) counter =
      (Inr (max counter 1, cf_instance_id config,
         InRegister (max counter 1) (cf_instance_id config) ?q (capacity config)), counter + 1)"
    using assms(2)
    by (simp add: open_sfu_session_def validate_registration_def sfu_context_def
        next_sfu_connection_id_def)
  moreover have "\<exists>c' s. session_start config mt c incoming pending =
      (Inr (max interval 1, resumed), c', s) \<and> hd (ss_outgoing s) = RegisterMsg ?register"
    using assms(3) [of ?q]
    by (auto simp: session_start_def decode_registration_def response_context_def send_events_open
        send_out_def queue_health_def Let_def split: prod.splits)
  moreover have "max counter 1 \<noteq> (0 :: u64)"
    by (metis max.cobounded2 word_le_0_iff zero_neq_one)
  ultimately show ?thesis by blast
qed

theorem registration_handshake_witness:
  "\<exists>c' s register. session_start sample_config sample_metrics 1
      (\<lambda>q. Inr (Some (encode_sfu_output sample_api (OutRegistered 1 q 0 True)))) [] =
      (Inr (max 0 1, True), c', s) \<and>
    hd (ss_outgoing s) = RegisterMsg register \<and>
    open_sfu_session True (ReadMessage (Some (RegisterMsg register))) 0 =
      (Inr (max 0 1, cf_instance_id sample_config,
         InRegister (max 0 1) (cf_instance_id sample_config) (fst (next_nonzero 1))
           (capacity sample_config)), 0 + 1) \<and> max 0 1 \<noteq> (0 :: u64)"
  by (rule registration_handshake) (simp_all add: check_config_def sample_config_def)

end
