(* ===== verification/Request_Cache.thy ===== *)
theory Request_Cache
  imports Grpc_Codec Fifo_Cache
begin

text \<open>
  Idempotent execution of AppRTC operations (\<open>RequestCache\<close> and \<open>execute\<close> of
  \<open>src/src/grpc_server.rs\<close>). Many calls of \<open>execute\<close> run concurrently; each is a small machine
  whose steps are the code between two suspension points, and \<open>exec_step\<close> interleaves them. The
  watch channel an in-flight request carries is named by the call that created it.
\<close>

section \<open>The cache of completed requests\<close>

record RequestKey =
  rk_instance_id :: string
  rk_request_id :: u64

record CachedResult =
  cr_fingerprint :: u64
  cr_result :: authority_result

definition REQUEST_CACHE_CAPACITY :: nat where
  "REQUEST_CACHE_CAPACITY = 4096"

text \<open>The loop of \<open>RequestCache::insert\<close>: with an empty queue and too many entries it never ends.\<close>

partial_function (option) evict_requests ::
  "nat \<Rightarrow> ('k, 'v) hashmap \<Rightarrow> 'k list \<Rightarrow> (('k, 'v) hashmap \<times> 'k list) option" where
  "evict_requests cap entries order =
     (if cap < length entries
      then (case order of
              [] \<Rightarrow> evict_requests cap entries []
            | oldest # rest \<Rightarrow> evict_requests cap (hm_remove oldest entries) rest)
      else Some (entries, order))"

definition request_cache_insert ::
  "nat \<Rightarrow> ('k, 'v) hashmap \<times> 'k list \<Rightarrow> 'k \<Rightarrow> 'v \<Rightarrow> (('k, 'v) hashmap \<times> 'k list) option" where
  "request_cache_insert cap eo k v =
     (case eo of (entries, order) \<Rightarrow>
        evict_requests cap (hm_insert k v entries)
          (if hm_get entries k = None then order @ [k] else order))"

lemma evict_requests_spec:
  assumes "hm_ok entries" and "distinct order" and "set order = set (hm_keys entries)"
  shows "\<exists>entries' order'. evict_requests cap entries order = Some (entries', order') \<and>
    order' = take_last cap order \<and> map_of entries' = map_of entries |` set order' \<and>
    cache_inv cap (entries', order')"
  using assms
proof (induction order arbitrary: entries)
  case Nil
  then show ?case
    by (subst evict_requests.simps) (simp add: cache_inv_def take_last_def)
next
  case (Cons oldest order)
  have len: "length entries = length (oldest # order)"
    using Cons.prems cache_inv_length [of "length (oldest # order)" entries "oldest # order"]
    by (simp add: cache_inv_def)
  show ?case
  proof (cases "cap < length (oldest # order)")
    case False
    then have "evict_requests cap entries (oldest # order) = Some (entries, oldest # order)"
      using len by (subst evict_requests.simps) simp
    with False Cons.prems show ?thesis
      by (simp add: cache_inv_def map_of_restrict_keys del: set_map list.set)
  next
    case True
    let ?e = "hm_remove oldest entries"
    have "hm_ok ?e" and "set order = set (hm_keys ?e)" and "distinct order"
      using Cons.prems by (auto simp: set_keys_remove hm_ok_remove)
    from Cons.IH [OF this(1,3,2)] obtain entries' order' where IH:
      "evict_requests cap ?e order = Some (entries', order')" "order' = take_last cap order"
      "map_of entries' = map_of ?e |` set order'" "cache_inv cap (entries', order')" by blast
    have "oldest \<notin> set order'"
      using IH(2) Cons.prems(2) set_take_last [of cap order] by auto
    then have "map_of entries' = map_of entries |` set order'"
      using IH(3) by (simp add: delete_conv' restrict_removed)
    moreover have "evict_requests cap entries (oldest # order) = Some (entries', order')"
      using True len IH(1) by (subst evict_requests.simps) simp
    ultimately show ?thesis using IH True by (simp add: take_last_Cons)
  qed
qed

lemma request_cache_insert_spec:
  assumes "cache_inv cap eo"
  shows "\<exists>eo'. request_cache_insert cap eo k v = Some eo' \<and>
    snd eo' = take_last cap (if k \<in> set (snd eo) then snd eo else snd eo @ [k]) \<and>
    map_of (fst eo') = ((map_of (fst eo))(k \<mapsto> v)) |` set (snd eo') \<and> cache_inv cap eo'"
proof -
  obtain entries order where eo: "eo = (entries, order)" by (cases eo)
  have order: "set order = set (hm_keys entries)" using assms eo by (simp add: cache_inv_def)
  define o' where "o' = (if hm_get entries k = None then order @ [k] else order)"
  have o: "o' = (if k \<in> set (snd eo) then snd eo else snd eo @ [k])"
    using order by (simp add: o'_def eo map_of_eq_None_iff)
  have "hm_ok (hm_insert k v entries)" and "distinct o'"
    and "set o' = set (hm_keys (hm_insert k v entries))"
    using assms eo order by (auto simp: cache_inv_def hm_ok_insert set_keys_insert o)
  from evict_requests_spec [OF this, of cap] obtain e1 o1 where
    "request_cache_insert cap eo k v = Some (e1, o1)" "o1 = take_last cap o'"
    "map_of e1 = map_of (hm_insert k v entries) |` set o1" "cache_inv cap (e1, o1)"
    by (auto simp: request_cache_insert_def eo o'_def)
  then show ?thesis unfolding o [symmetric] by (intro exI [of _ "(e1, o1)"]) (simp add: eo update_conv')
qed

lemma request_cache_insert_Some:
  assumes "cache_inv cap eo" and "request_cache_insert cap eo k v = Some eo'"
  shows "snd eo' = take_last cap (if k \<in> set (snd eo) then snd eo else snd eo @ [k])"
    and "map_of (fst eo') = ((map_of (fst eo))(k \<mapsto> v)) |` set (snd eo')"
    and "cache_inv cap eo'"
proof -
  obtain x where "request_cache_insert cap eo k v = Some x"
    "snd x = take_last cap (if k \<in> set (snd eo) then snd eo else snd eo @ [k])"
    "map_of (fst x) = ((map_of (fst eo))(k \<mapsto> v)) |` set (snd x)" "cache_inv cap x"
    using request_cache_insert_spec [OF assms(1)] by blast
  with assms(2) show "snd eo' = take_last cap (if k \<in> set (snd eo) then snd eo else snd eo @ [k])"
    and "map_of (fst eo') = ((map_of (fst eo))(k \<mapsto> v)) |` set (snd eo')"
    and "cache_inv cap eo'" by simp_all
qed

interpretation req_cache: fifo_cache REQUEST_CACHE_CAPACITY
  "request_cache_insert REQUEST_CACHE_CAPACITY" "\<lambda>eo. map_of (fst eo)" snd
  "cache_inv REQUEST_CACHE_CAPACITY"
proof (unfold_locales, goal_cases)
  case 1
  show ?case by (simp add: REQUEST_CACHE_CAPACITY_def)
next
  case (2 c)
  then show ?case by (cases c) (simp add: cache_inv_def)
next
  case (3 c)
  then show ?case by (cases c) (simp add: cache_inv_def dom_map_of_conv_image_fst)
next
  case (4 c)
  then show ?case by (cases c) (simp add: cache_inv_def)
next
  case (5 c k v)
  then show ?case using request_cache_insert_spec [of _ c k v] by blast
next
  case (6 c k v c')
  then show ?case by (rule request_cache_insert_Some(3))
next
  case (7 c k v c')
  then show ?case by (rule request_cache_insert_Some(1))
next
  case (8 c k v c')
  then show ?case by (rule request_cache_insert_Some(2))
qed

text \<open>
  The eviction loop of \<open>RequestCache::insert\<close> always ends on the caches the service builds, and
  after any number of insertions under distinct keys the cache holds exactly the last 4096 of them,
  each with the value stored for it.
\<close>

lemma request_cache_recent:
  assumes "distinct (map fst kvs)"
  shows "\<exists>entries order.
    insert_all (request_cache_insert REQUEST_CACHE_CAPACITY) ([], []) kvs = Some (entries, order) \<and>
    order = take_last REQUEST_CACHE_CAPACITY (map fst kvs) \<and>
    map_of entries = map_of kvs |` set order"
proof -
  have "cache_inv REQUEST_CACHE_CAPACITY ([] :: ('k \<times> 'v) list, [])" by (simp add: cache_inv_def)
  from req_cache.insert_all_recent [OF this assms] show ?thesis by auto
qed

end
