(* ===== verification/Execute.thy ===== *)
theory Execute
  imports Request_Cache
begin

text \<open>
  Concurrent calls of \<open>GrpcSignalingService::execute\<close> (\<open>src/src/grpc_server.rs\<close>). A call looks its
  key up under the cache lock, waits for another call or owns the request, draws an identifier, sends
  the operation to the signaling event loop (waiting while the channel is full), and publishes the outcome under the lock. \<open>Cancel\<close> is the drop of a
  call's future at a suspension point, which happens when its client goes away.

  \<open>sv_sent\<close> is the command channel; \<open>sv_answered\<close> is a history variable: the requests for which a
  call has received an authority result.
\<close>

section \<open>The code between suspension points\<close>

datatype lookup_outcome =
    Replay authority_result
  | Conflict string
  | WaitOn nat
  | Own

definition execute_lookup ::
  "(RequestKey, CachedResult) hashmap \<Rightarrow> (RequestKey, u64 \<times> nat) hashmap \<Rightarrow> RequestKey \<Rightarrow> u64 \<Rightarrow>
   lookup_outcome" where
  "execute_lookup entries in_flight key fingerprint =
     (case hm_get entries key of
        Some cached \<Rightarrow>
          if cr_fingerprint cached \<noteq> fingerprint
          then Conflict ''request_id was already used for a different operation''
          else Replay (cr_result cached)
      | None \<Rightarrow>
          (case hm_get in_flight key of
             Some (in_flight_fingerprint, completed) \<Rightarrow>
               if in_flight_fingerprint \<noteq> fingerprint
               then Conflict ''request_id is in use for a different operation''
               else WaitOn completed
           | None \<Rightarrow> Own))"

definition next_authority_request_id :: "u64 \<Rightarrow> u64 \<times> u64" where
  "next_authority_request_id counter = (max counter 1, counter + 1)"

datatype driver_reply =
    Reply u64 authority_result
  | ReplyTimeout
  | ReplyDropped

fun execute_outcome :: "u64 \<Rightarrow> driver_reply \<Rightarrow> (grpc_status, authority_result) result" where
  "execute_outcome authority_request_id (Reply request_id result) =
     (if request_id \<noteq> authority_request_id
      then Inl (GrpcInternal, ''authority response correlation failed'')
      else Inr result)"
| "execute_outcome authority_request_id ReplyTimeout =
     Inl (DeadlineExceeded, ''signaling authority timed out'')"
| "execute_outcome authority_request_id ReplyDropped =
     Inl (Unavailable, ''signaling authority stopped'')"

text \<open>The last section under the lock; it also returns the channel to signal.\<close>

definition execute_finish ::
  "RequestKey \<Rightarrow> u64 \<Rightarrow> (grpc_status, authority_result) result \<Rightarrow>
   (RequestKey, CachedResult) hashmap \<times> RequestKey list \<Rightarrow> (RequestKey, u64 \<times> nat) hashmap \<Rightarrow>
   (((RequestKey, CachedResult) hashmap \<times> RequestKey list) \<times> (RequestKey, u64 \<times> nat) hashmap \<times>
    nat option) option" where
  "execute_finish key fingerprint result eo in_flight =
     map_option (\<lambda>eo'. (eo', hm_remove key in_flight, map_option snd (hm_get in_flight key)))
       (case result of
          Inr r \<Rightarrow> request_cache_insert REQUEST_CACHE_CAPACITY eo key
                    \<lparr>cr_fingerprint = fingerprint, cr_result = r\<rparr>
        | Inl _ \<Rightarrow> Some eo)"

section \<open>Interleaved calls\<close>

datatype call_pc =
    Looking
  | Waiting nat
  | Owner
  | Drawn u64
  | Sent u64
  | Finishing "(grpc_status, authority_result) result"
  | Returned "(grpc_status, authority_result) result"
  | Dropped

record 'r call =
  cl_key :: RequestKey
  cl_operation :: "'r authority_operation"
  cl_pc :: call_pc

record 'r service =
  sv_cache :: "(RequestKey, CachedResult) hashmap \<times> RequestKey list"
  sv_in_flight :: "(RequestKey, u64 \<times> nat) hashmap"
  sv_completed :: "nat list"
  sv_next_authority :: u64
  sv_sent :: "(u64 \<times> 'r authority_operation) list"
  sv_calls :: "nat \<rightharpoonup> 'r call"
  sv_answered :: "(RequestKey \<times> CachedResult) list"

definition new_service :: "'r service" where
  "new_service = \<lparr>sv_cache = ([], []), sv_in_flight = [], sv_completed = [],
     sv_next_authority = 1, sv_sent = [], sv_calls = Map.empty, sv_answered = []\<rparr>"

definition set_pc :: "nat \<Rightarrow> call_pc \<Rightarrow> 'r service \<Rightarrow> 'r service" where
  "set_pc i pc s = s\<lparr>sv_calls := (sv_calls s)(i := map_option (\<lambda>c. c\<lparr>cl_pc := pc\<rparr>) (sv_calls s i))\<rparr>"

datatype 'r exec_label =
    StartCall nat RequestKey "'r authority_operation"
  | Lookup nat
  | Wake nat
  | Draw nat
  | Issue nat bool
  | Respond nat driver_reply
  | Finish nat
  | Cancel nat

definition call_pc_of :: "'r service \<Rightarrow> nat \<Rightarrow> call_pc option" where
  "call_pc_of s i = map_option cl_pc (sv_calls s i)"

fun call_step ::
  "('r hash_item list \<Rightarrow> u64) \<Rightarrow> nat \<Rightarrow> 'r call \<Rightarrow> 'r exec_label \<Rightarrow> call_pc \<Rightarrow> 'r service \<Rightarrow>
   'r service option" where
  "call_step H i c (Lookup _) Looking s =
     (let fingerprint = operation_fingerprint H (cl_operation c)
      in case execute_lookup (fst (sv_cache s)) (sv_in_flight s) (cl_key c) fingerprint of
           Replay r \<Rightarrow> Some (set_pc i (Returned (Inr r)) s)
         | Conflict msg \<Rightarrow> Some (set_pc i (Returned (Inl (AlreadyExists, msg))) s)
         | WaitOn ch \<Rightarrow> Some (set_pc i (Waiting ch) s)
         | Own \<Rightarrow> Some (set_pc i Owner
             (s\<lparr>sv_in_flight := hm_insert (cl_key c) (fingerprint, i) (sv_in_flight s)\<rparr>)))"
| "call_step H i c (Wake _) (Waiting ch) s =
     (if ch \<in> set (sv_completed s) then Some (set_pc i Looking s) else None)"
| "call_step H i c (Draw _) Owner s =
     (let (authority_request_id, counter) = next_authority_request_id (sv_next_authority s)
      in Some (set_pc i (Drawn authority_request_id) (s\<lparr>sv_next_authority := counter\<rparr>)))"
| "call_step H i c (Issue _ channel_open) (Drawn authority_request_id) s =
     (if channel_open
      then Some (set_pc i (Sent authority_request_id)
             (s\<lparr>sv_sent := sv_sent s @ [(authority_request_id, cl_operation c)]\<rparr>))
      else Some (set_pc i (Finishing (Inl (Unavailable, ''signaling authority stopped''))) s))"
| "call_step H i c (Respond _ reply) (Sent authority_request_id) s =
     (let result = execute_outcome authority_request_id reply
      in Some (set_pc i (Finishing result)
           (case result of
              Inl _ \<Rightarrow> s
            | Inr r \<Rightarrow> s\<lparr>sv_answered := sv_answered s @ [(cl_key c,
                \<lparr>cr_fingerprint = operation_fingerprint H (cl_operation c), cr_result = r\<rparr>)]\<rparr>)))"
| "call_step H i c (Finish _) (Finishing result) s =
     (case execute_finish (cl_key c) (operation_fingerprint H (cl_operation c)) result
             (sv_cache s) (sv_in_flight s) of
        None \<Rightarrow> None
      | Some (eo, in_flight, ch) \<Rightarrow>
          Some (set_pc i (Returned result)
            (s\<lparr>sv_cache := eo, sv_in_flight := in_flight,
               sv_completed := (case ch of None \<Rightarrow> sv_completed s | Some c \<Rightarrow> c # sv_completed s)\<rparr>)))"
| "call_step H i c (Cancel _) (Returned result) s = None"
| "call_step H i c (Cancel _) Dropped s = None"
| "call_step H i c (Cancel _) pc s = Some (set_pc i Dropped s)"
| "call_step H i c _ pc s = None"

fun label_call :: "'r exec_label \<Rightarrow> nat" where
  "label_call (StartCall i _ _) = i"
| "label_call (Lookup i) = i"
| "label_call (Wake i) = i"
| "label_call (Draw i) = i"
| "label_call (Issue i _) = i"
| "label_call (Respond i _) = i"
| "label_call (Finish i) = i"
| "label_call (Cancel i) = i"

definition exec_step ::
  "('r hash_item list \<Rightarrow> u64) \<Rightarrow> 'r exec_label \<Rightarrow> 'r service \<Rightarrow> 'r service option" where
  "exec_step H l s =
     (case l of
        StartCall i key operation \<Rightarrow>
          (if sv_calls s i = None
           then Some (s\<lparr>sv_calls := (sv_calls s)(i \<mapsto>
                  \<lparr>cl_key = key, cl_operation = operation, cl_pc = Looking\<rparr>)\<rparr>)
           else None)
      | _ \<Rightarrow>
          (case sv_calls s (label_call l) of
             None \<Rightarrow> None
           | Some c \<Rightarrow> call_step H (label_call l) c l (cl_pc c) s))"

text \<open>The states a service can reach by labels of a given kind.\<close>

inductive exec_reach ::
  "('r hash_item list \<Rightarrow> u64) \<Rightarrow> ('r exec_label \<Rightarrow> bool) \<Rightarrow> 'r service \<Rightarrow> bool" for H allowed where
  reach_new: "exec_reach H allowed new_service"
| reach_step: "exec_reach H allowed s \<Longrightarrow> allowed l \<Longrightarrow> exec_step H l s = Some s' \<Longrightarrow>
    exec_reach H allowed s'"

section \<open>Ownership\<close>

fun owning :: "call_pc \<Rightarrow> bool" where
  "owning Owner = True"
| "owning (Drawn _) = True"
| "owning (Sent _) = True"
| "owning (Finishing _) = True"
| "owning _ = False"

abbreviation call_fp :: "('r hash_item list \<Rightarrow> u64) \<Rightarrow> 'r call \<Rightarrow> u64" where
  "call_fp H c \<equiv> operation_fingerprint H (cl_operation c)"

definition exec_inv :: "('r hash_item list \<Rightarrow> u64) \<Rightarrow> 'r service \<Rightarrow> bool" where
  "exec_inv H s \<longleftrightarrow>
     cache_inv REQUEST_CACHE_CAPACITY (sv_cache s) \<and>
     dom (map_of (fst (sv_cache s))) \<inter> dom (map_of (sv_in_flight s)) = {} \<and>
     (\<forall>i c. sv_calls s i = Some c \<and> owning (cl_pc c) \<longrightarrow>
        hm_get (sv_in_flight s) (cl_key c) = Some (call_fp H c, i)) \<and>
     (\<forall>k f i. hm_get (sv_in_flight s) k = Some (f, i) \<longrightarrow>
        (\<exists>c. sv_calls s i = Some c \<and> cl_key c = k \<and> f = call_fp H c \<and>
             (owning (cl_pc c) \<or> cl_pc c = Dropped))) \<and>
     (\<forall>i c ch. sv_calls s i = Some c \<and> cl_pc c = Waiting ch \<longrightarrow>
        ch \<in> set (sv_completed s) \<or> hm_get (sv_in_flight s) (cl_key c) = Some (call_fp H c, ch))"

lemma exec_invD:
  assumes "exec_inv H s"
  shows "cache_inv REQUEST_CACHE_CAPACITY (sv_cache s)"
    and "hm_get (fst (sv_cache s)) k \<noteq> None \<Longrightarrow> hm_get (sv_in_flight s) k = None"
    and "sv_calls s i = Some c \<Longrightarrow> owning (cl_pc c) \<Longrightarrow>
           hm_get (sv_in_flight s) (cl_key c) = Some (call_fp H c, i)"
    and "hm_get (sv_in_flight s) k = Some (f, i) \<Longrightarrow>
           \<exists>c. sv_calls s i = Some c \<and> cl_key c = k \<and> f = call_fp H c \<and>
               (owning (cl_pc c) \<or> cl_pc c = Dropped)"
    and "sv_calls s i = Some c \<Longrightarrow> cl_pc c = Waiting ch \<Longrightarrow>
           ch \<in> set (sv_completed s) \<or> hm_get (sv_in_flight s) (cl_key c) = Some (call_fp H c, ch)"
  using assms unfolding exec_inv_def by (blast, blast, blast, blast, blast)

lemma exec_inv_not_cached:
  assumes "exec_inv H s" and "hm_get (sv_in_flight s) k = Some x"
  shows "hm_get (fst (sv_cache s)) k = None"
  using exec_invD(2) [OF assms(1), of k] assms(2) by (cases "hm_get (fst (sv_cache s)) k") auto

lemma set_pc_simps [simp]:
  "sv_cache (set_pc i pc s) = sv_cache s" "sv_in_flight (set_pc i pc s) = sv_in_flight s"
  "sv_completed (set_pc i pc s) = sv_completed s" "sv_answered (set_pc i pc s) = sv_answered s"
  "sv_calls (set_pc i pc s) =
     (sv_calls s)(i := map_option (\<lambda>c. c\<lparr>cl_pc := pc\<rparr>) (sv_calls s i))"
  by (simp_all add: set_pc_def)

text \<open>The transitions of a service, one rule for each way a step can go.\<close>

lemma exec_step_elim:
  assumes "exec_step H l s = Some s'"
  obtains
    (start) i k op where "l = StartCall i k op" "sv_calls s i = None"
      "s' = s\<lparr>sv_calls := (sv_calls s)(i \<mapsto> \<lparr>cl_key = k, cl_operation = op, cl_pc = Looking\<rparr>)\<rparr>"
  | (replay) i c r where "l = Lookup i" "sv_calls s i = Some c" "cl_pc c = Looking"
      "hm_get (fst (sv_cache s)) (cl_key c) = Some \<lparr>cr_fingerprint = call_fp H c, cr_result = r\<rparr>"
      "s' = set_pc i (Returned (Inr r)) s"
  | (conflict) i c msg where "l = Lookup i" "sv_calls s i = Some c" "cl_pc c = Looking"
      "s' = set_pc i (Returned (Inl (AlreadyExists, msg))) s"
  | (wait) i c ch where "l = Lookup i" "sv_calls s i = Some c" "cl_pc c = Looking"
      "hm_get (sv_in_flight s) (cl_key c) = Some (call_fp H c, ch)" "s' = set_pc i (Waiting ch) s"
  | (own) i c where "l = Lookup i" "sv_calls s i = Some c" "cl_pc c = Looking"
      "hm_get (fst (sv_cache s)) (cl_key c) = None" "hm_get (sv_in_flight s) (cl_key c) = None"
      "s' = set_pc i Owner
         (s\<lparr>sv_in_flight := hm_insert (cl_key c) (call_fp H c, i) (sv_in_flight s)\<rparr>)"
  | (wake) i c ch where "l = Wake i" "sv_calls s i = Some c" "cl_pc c = Waiting ch"
      "ch \<in> set (sv_completed s)" "s' = set_pc i Looking s"
  | (draw) i c q ctr where "l = Draw i" "sv_calls s i = Some c" "cl_pc c = Owner"
      "(q, ctr) = next_authority_request_id (sv_next_authority s)"
      "s' = set_pc i (Drawn q) (s\<lparr>sv_next_authority := ctr\<rparr>)"
  | (issue) i c q where "l = Issue i True" "sv_calls s i = Some c" "cl_pc c = Drawn q"
      "s' = set_pc i (Sent q) (s\<lparr>sv_sent := sv_sent s @ [(q, cl_operation c)]\<rparr>)"
  | (refused) i c q where "l = Issue i False" "sv_calls s i = Some c" "cl_pc c = Drawn q"
      "s' = set_pc i (Finishing (Inl (Unavailable, ''signaling authority stopped''))) s"
  | (answer) i reply c q r where "l = Respond i reply" "sv_calls s i = Some c" "cl_pc c = Sent q"
      "s' = set_pc i (Finishing (Inr r)) (s\<lparr>sv_answered := sv_answered s @
         [(cl_key c, \<lparr>cr_fingerprint = call_fp H c, cr_result = r\<rparr>)]\<rparr>)"
  | (fail) i reply c q e where "l = Respond i reply" "sv_calls s i = Some c" "cl_pc c = Sent q"
      "s' = set_pc i (Finishing (Inl e)) s"
  | (finish) i c res eo in_flight ch where "l = Finish i" "sv_calls s i = Some c"
      "cl_pc c = Finishing res"
      "execute_finish (cl_key c) (call_fp H c) res (sv_cache s) (sv_in_flight s)
         = Some (eo, in_flight, ch)"
      "s' = set_pc i (Returned res) (s\<lparr>sv_cache := eo, sv_in_flight := in_flight,
         sv_completed := (case ch of None \<Rightarrow> sv_completed s | Some c \<Rightarrow> c # sv_completed s)\<rparr>)"
  | (cancel) i c where "l = Cancel i" "sv_calls s i = Some c" "\<nexists>r. cl_pc c = Returned r"
      "cl_pc c \<noteq> Dropped" "s' = set_pc i Dropped s"
proof (cases l)
  case (StartCall i k op)
  with assms show thesis by (auto simp: exec_step_def split: if_splits intro: start)
next
  case (Lookup i)
  then obtain c where c: "sv_calls s i = Some c" "cl_pc c = Looking"
    using assms by (auto simp: exec_step_def split: option.splits elim: call_step.elims)
  show thesis
  proof (cases "execute_lookup (fst (sv_cache s)) (sv_in_flight s) (cl_key c) (call_fp H c)")
    case (Replay r)
    then obtain cached where "hm_get (fst (sv_cache s)) (cl_key c) = Some cached"
      "cr_fingerprint cached = call_fp H c" "cr_result cached = r"
      by (auto simp: execute_lookup_def split: option.splits prod.splits if_splits)
    with Lookup c Replay assms show thesis
      by (intro replay [of i c r]) (auto simp: exec_step_def Let_def)
  next
    case (Conflict msg)
    with Lookup c assms show thesis
      by (intro conflict [of i c msg]) (auto simp: exec_step_def Let_def)
  next
    case (WaitOn ch)
    then have "hm_get (sv_in_flight s) (cl_key c) = Some (call_fp H c, ch)"
      by (auto simp: execute_lookup_def split: option.splits prod.splits if_splits)
    with Lookup c WaitOn assms show thesis
      by (intro wait [of i c ch]) (auto simp: exec_step_def Let_def)
  next
    case Own
    then have "hm_get (fst (sv_cache s)) (cl_key c) = None" "hm_get (sv_in_flight s) (cl_key c) = None"
      by (auto simp: execute_lookup_def split: option.splits prod.splits if_splits)
    with Lookup c Own assms show thesis
      by (intro own [of i c]) (auto simp: exec_step_def Let_def)
  qed
next
  case (Wake i)
  then obtain c ch where "sv_calls s i = Some c" "cl_pc c = Waiting ch"
    using assms by (auto simp: exec_step_def split: option.splits elim: call_step.elims)
  with Wake assms show thesis
    by (intro wake [of i c ch]) (auto simp: exec_step_def split: if_splits)
next
  case (Draw i)
  then obtain c where "sv_calls s i = Some c" "cl_pc c = Owner"
    using assms by (auto simp: exec_step_def split: option.splits elim: call_step.elims)
  with Draw assms show thesis
    by (intro draw [of i c "fst (next_authority_request_id (sv_next_authority s))"
          "snd (next_authority_request_id (sv_next_authority s))"])
       (simp_all add: exec_step_def Let_def split_def)
next
  case (Issue i ok)
  then obtain c q where "sv_calls s i = Some c" "cl_pc c = Drawn q"
    using assms by (auto simp: exec_step_def split: option.splits elim: call_step.elims)
  with Issue assms show thesis
    by (cases ok) (auto simp: exec_step_def intro: issue refused)
next
  case (Respond i reply)
  then obtain c q where c: "sv_calls s i = Some c" "cl_pc c = Sent q"
    using assms by (auto simp: exec_step_def split: option.splits elim: call_step.elims)
  with Respond assms show thesis
    by (cases "execute_outcome q reply")
       (auto simp: exec_step_def Let_def intro: answer fail)
next
  case (Finish i)
  then obtain c res where "sv_calls s i = Some c" "cl_pc c = Finishing res"
    using assms by (auto simp: exec_step_def split: option.splits elim: call_step.elims)
  with Finish assms show thesis
    by (auto simp: exec_step_def split: option.splits prod.splits intro: finish)
next
  case (Cancel i)
  then obtain c where "sv_calls s i = Some c"
    using assms by (auto simp: exec_step_def split: option.splits)
  with Cancel assms show thesis
    by (intro cancel [of i c]) (cases "cl_pc c"; auto simp: exec_step_def)+
qed

lemma execute_finish_Some:
  assumes "execute_finish k f res eo fl = Some (eo', fl', ch)" and "cache_inv REQUEST_CACHE_CAPACITY eo"
  shows "cache_inv REQUEST_CACHE_CAPACITY eo'" and "map_of fl' = (map_of fl)(k := None)"
    and "ch = map_option snd (hm_get fl k)"
    and "hm_get (fst eo') k' \<noteq> None \<Longrightarrow> k' = k \<or> hm_get (fst eo) k' \<noteq> None"
    and "\<exists>e. res = Inl e \<Longrightarrow> eo' = eo"
proof -
  have "fl' = hm_remove k fl" and ch: "ch = map_option snd (hm_get fl k)"
    using assms(1) by (auto simp: execute_finish_def)
  then show "map_of fl' = (map_of fl)(k := None)" and "ch = map_option snd (hm_get fl k)"
    by (simp_all add: delete_conv')
  show "\<exists>e. res = Inl e \<Longrightarrow> eo' = eo" using assms(1) by (auto simp: execute_finish_def)
  show "cache_inv REQUEST_CACHE_CAPACITY eo'"
    and "hm_get (fst eo') k' \<noteq> None \<Longrightarrow> k' = k \<or> hm_get (fst eo) k' \<noteq> None"
    using assms request_cache_insert_Some(2,3) [OF assms(2)]
    by (auto simp: execute_finish_def restrict_map_def split: sum.splits if_splits)
qed

lemma exec_inv_new: "exec_inv H new_service"
  by (simp add: exec_inv_def new_service_def cache_inv_def)

lemma exec_inv_frame [simp]:
  "exec_inv H (s\<lparr>sv_next_authority := ctr\<rparr>) = exec_inv H s"
  "exec_inv H (s\<lparr>sv_sent := sent\<rparr>) = exec_inv H s"
  "exec_inv H (s\<lparr>sv_answered := ans\<rparr>) = exec_inv H s"
  by (simp_all add: exec_inv_def)

lemma exec_inv_set_pc:
  assumes "exec_inv H s" and "sv_calls s i = Some c"
    and "owning pc \<Longrightarrow> owning (cl_pc c)" and "owning (cl_pc c) \<Longrightarrow> owning pc \<or> pc = Dropped"
    and "cl_pc c \<noteq> Dropped"
    and "\<And>ch. pc = Waiting ch \<Longrightarrow> hm_get (sv_in_flight s) (cl_key c) = Some (call_fp H c, ch)"
  shows "exec_inv H (set_pc i pc s)"
  unfolding exec_inv_def
proof (intro conjI allI impI, goal_cases)
  case 1
  show ?case using exec_invD(1) [OF assms(1)] by simp
next
  case 2
  show ?case using assms(1) by (simp add: exec_inv_def)
next
  case (3 j d)
  then show ?case using exec_invD(3) [OF assms(1)] assms(2,3) by (auto split: if_splits)
next
  case (4 k f j)
  then obtain d where "sv_calls s j = Some d" "cl_key d = k" "f = call_fp H d"
    "owning (cl_pc d) \<or> cl_pc d = Dropped"
    using exec_invD(4) [OF assms(1), of k f j] by auto
  with assms(2,4,5) show ?case by (cases "j = i") auto
next
  case (5 j d ch)
  then show ?case using exec_invD(5) [OF assms(1)] assms(2,6) by (auto split: if_splits)
qed

lemma exec_inv_start:
  assumes "exec_inv H s" and "sv_calls s i = None"
  shows "exec_inv H (s\<lparr>sv_calls := (sv_calls s)(i \<mapsto> \<lparr>cl_key = k, cl_operation = op, cl_pc = Looking\<rparr>)\<rparr>)"
  unfolding exec_inv_def
proof (intro conjI allI impI, goal_cases)
  case 1
  show ?case using exec_invD(1) [OF assms(1)] by simp
next
  case 2
  show ?case using assms(1) by (simp add: exec_inv_def)
next
  case (3 j d)
  then show ?case using exec_invD(3) [OF assms(1)] by (auto split: if_splits)
next
  case (4 k f j)
  with exec_invD(4) [OF assms(1), of k f j] obtain d where "sv_calls s j = Some d" "cl_key d = k"
    "f = call_fp H d" "owning (cl_pc d) \<or> cl_pc d = Dropped" by auto
  with assms(2) show ?case by (cases "j = i") auto
next
  case (5 j d ch)
  then show ?case using exec_invD(5) [OF assms(1)] by (auto split: if_splits)
qed

lemma exec_inv_own:
  assumes "exec_inv H s" and "sv_calls s i = Some c" and "cl_pc c = Looking"
    and "hm_get (fst (sv_cache s)) (cl_key c) = None" and "hm_get (sv_in_flight s) (cl_key c) = None"
  shows "exec_inv H (set_pc i Owner
    (s\<lparr>sv_in_flight := hm_insert (cl_key c) (call_fp H c, i) (sv_in_flight s)\<rparr>))"
  unfolding exec_inv_def
proof (intro conjI allI impI, goal_cases)
  case 1
  show ?case using exec_invD(1) [OF assms(1)] by simp
next
  case 2
  show ?case using assms(1,4) by (auto simp: exec_inv_def update_conv')
next
  case (3 j d)
  then show ?case using exec_invD(3) [OF assms(1), of j d] assms(2,5) by (auto simp: hm_simps split: if_splits)
next
  case (4 k f j)
  show ?case
  proof (cases "k = cl_key c")
    case True
    with 4 assms(2) show ?thesis by (auto simp: hm_simps)
  next
    case False
    with 4 exec_invD(4) [OF assms(1), of k f j] obtain d where "sv_calls s j = Some d" "cl_key d = k"
      "f = call_fp H d" "owning (cl_pc d) \<or> cl_pc d = Dropped" by (auto simp: hm_simps)
    with False assms(2) show ?thesis by (cases "j = i") auto
  qed
next
  case (5 j d ch)
  then show ?case using exec_invD(5) [OF assms(1), of j d ch] assms(2,5)
    by (auto simp: hm_simps split: if_splits)
qed

lemma exec_inv_finish:
  assumes "exec_inv H s" and "sv_calls s i = Some c" and "cl_pc c = Finishing res"
    and "execute_finish (cl_key c) (call_fp H c) res (sv_cache s) (sv_in_flight s)
           = Some (eo, in_flight, ch)"
  shows "exec_inv H (set_pc i (Returned res) (s\<lparr>sv_cache := eo, sv_in_flight := in_flight,
    sv_completed := (case ch of None \<Rightarrow> sv_completed s | Some c \<Rightarrow> c # sv_completed s)\<rparr>))"
proof -
  note fin = execute_finish_Some [OF assms(4) exec_invD(1) [OF assms(1)]]
  have fl: "hm_get (sv_in_flight s) (cl_key c) = Some (call_fp H c, i)"
    using exec_invD(3) [OF assms(1,2)] assms(3) by simp
  then have ch: "ch = Some i" using fin(3) by simp
  have inj: "j = i" if "sv_calls s j = Some d" "owning (cl_pc d)" "cl_key d = cl_key c" for j d
    using exec_invD(3) [OF assms(1) that(1,2)] that(3) fl by simp
  show ?thesis
    unfolding exec_inv_def
  proof (intro conjI allI impI, goal_cases)
    case 1
    show ?case using fin(1) by simp
  next
    case 2
    have "hm_get in_flight k = None" if "hm_get (fst eo) k \<noteq> None" for k
      using fin(4) [OF that] exec_invD(2) [OF assms(1), of k] by (auto simp: fin(2))
    then show ?case by (auto simp: dom_def)
  next
    case (3 j d)
    then have ji: "j \<noteq> i" using assms(2) by auto
    with 3 have d: "sv_calls s j = Some d" "owning (cl_pc d)" by auto
    with inj ji have "cl_key d \<noteq> cl_key c" by blast
    with exec_invD(3) [OF assms(1) d] show ?case by (simp add: fin(2))
  next
    case (4 k f j)
    then have k: "k \<noteq> cl_key c" "hm_get (sv_in_flight s) k = Some (f, j)"
      using fin(2) by (auto split: if_splits)
    with exec_invD(4) [OF assms(1)] obtain d where "sv_calls s j = Some d" "cl_key d = k"
      "f = call_fp H d" "owning (cl_pc d) \<or> cl_pc d = Dropped" by blast
    with k assms(2) show ?case by (cases "j = i") auto
  next
    case (5 j d chan)
    then have "j \<noteq> i" using assms(2) by auto
    with 5 have d: "sv_calls s j = Some d" "cl_pc d = Waiting chan" by auto
    from exec_invD(5) [OF assms(1) d] fl show ?case by (auto simp: fin(2) ch)
  qed
qed

lemma exec_inv_step:
  assumes "exec_inv H s" and "exec_step H l s = Some s'"
  shows "exec_inv H s'"
  using assms(2)
proof (cases rule: exec_step_elim)
  case (start i k op)
  then show ?thesis using exec_inv_start [OF assms(1)] by simp
next
  case (own i c)
  then show ?thesis using exec_inv_own [OF assms(1)] by simp
next
  case (finish i c res eo in_flight ch)
  then show ?thesis using exec_inv_finish [OF assms(1)] by simp
qed (auto intro!: exec_inv_set_pc simp: assms(1))

lemma exec_inv_reach: "exec_reach H allowed s \<Longrightarrow> exec_inv H s"
  by (induction rule: exec_reach.induct) (auto intro: exec_inv_new exec_inv_step)

end
