(* ===== verification/Execute_Once.thy ===== *)
theory Execute_Once
  imports Execute
begin

text \<open>
  What the interleavings of \<open>Execute\<close> guarantee: one owner per request, one execution per request
  while its result can be cached, progress without cancellations, and the fate of a request whose
  owner is cancelled.
\<close>

section \<open>At most one execution\<close>

lemma filter_key_unique:
  assumes "distinct (map fst kvs)" and "(k, v) \<in> set kvs"
  shows "filter (\<lambda>a. fst a = k) kvs = [(k, v)]"
  using assms
proof (induction kvs)
  case (Cons kv kvs)
  show ?case
  proof (cases "fst kv = k")
    case True
    with Cons.prems have "kv = (k, v)" and "\<forall>a \<in> set kvs. fst a \<noteq> k"
      by (auto simp: image_iff)
    then show ?thesis by (simp add: filter_empty_conv)
  next
    case False
    with Cons show ?thesis by auto
  qed
qed simp

definition call_keys :: "'r service \<Rightarrow> RequestKey set" where
  "call_keys s = {k. \<exists>i c. sv_calls s i = Some c \<and> cl_key c = k}"

definition keys_inv :: "'r service \<Rightarrow> bool" where
  "keys_inv s \<longleftrightarrow> finite (dom (sv_calls s)) \<and> dom (map_of (fst (sv_cache s))) \<subseteq> call_keys s"

text \<open>Every answer is cached, or about to be published by the call that owns the request.\<close>

definition once_inv :: "('r hash_item list \<Rightarrow> u64) \<Rightarrow> 'r service \<Rightarrow> bool" where
  "once_inv H s \<longleftrightarrow>
     distinct (map fst (sv_answered s)) \<and>
     (\<forall>k cr. (k, cr) \<in> set (sv_answered s) \<longrightarrow> hm_get (fst (sv_cache s)) k = Some cr \<or>
        (\<exists>f i c. hm_get (sv_in_flight s) k = Some (f, i) \<and> sv_calls s i = Some c \<and>
           (cl_pc c = Finishing (Inr (cr_result cr)) \<or> cl_pc c = Dropped))) \<and>
     (\<forall>k cr. hm_get (fst (sv_cache s)) k = Some cr \<longrightarrow> (k, cr) \<in> set (sv_answered s)) \<and>
     (\<forall>i c r. sv_calls s i = Some c \<and> cl_pc c \<in> {Finishing (Inr r), Returned (Inr r)} \<longrightarrow>
        (cl_key c, \<lparr>cr_fingerprint = call_fp H c, cr_result = r\<rparr>) \<in> set (sv_answered s))"

lemma call_keys_set_pc [simp]: "call_keys (set_pc i pc s) = call_keys s"
proof -
  have "k \<in> call_keys (set_pc i pc s) \<longleftrightarrow> k \<in> call_keys s" for k
    unfolding call_keys_def mem_Collect_eq
  proof
    assume "\<exists>j c. sv_calls (set_pc i pc s) j = Some c \<and> cl_key c = k"
    then show "\<exists>j c. sv_calls s j = Some c \<and> cl_key c = k" by (fastforce split: if_splits)
  next
    assume "\<exists>j c. sv_calls s j = Some c \<and> cl_key c = k"
    then obtain j c where "sv_calls s j = Some c" "cl_key c = k" by blast
    then show "\<exists>j c. sv_calls (set_pc i pc s) j = Some c \<and> cl_key c = k"
      by (intro exI [of _ j]) auto
  qed
  then show ?thesis by blast
qed

lemma call_keys_frame [simp]:
  "call_keys (s\<lparr>sv_in_flight := fl\<rparr>) = call_keys s"
  "call_keys (s\<lparr>sv_next_authority := ctr\<rparr>) = call_keys s" "call_keys (s\<lparr>sv_sent := sent\<rparr>) = call_keys s"
  "call_keys (s\<lparr>sv_answered := ans\<rparr>) = call_keys s"
  "call_keys (s\<lparr>sv_cache := eo, sv_in_flight := fl, sv_completed := done_chans\<rparr>) = call_keys s"
  by (simp_all add: call_keys_def)

lemma call_keysI: "sv_calls s i = Some c \<Longrightarrow> cl_key c \<in> call_keys s"
  by (auto simp: call_keys_def)

lemma finite_call_keys: "keys_inv s \<Longrightarrow> finite (call_keys s)"
proof -
  assume "keys_inv s"
  then have "finite (ran (sv_calls s))" by (simp add: keys_inv_def finite_ran)
  moreover have "call_keys s = cl_key ` ran (sv_calls s)" by (auto simp: call_keys_def ran_def)
  ultimately show ?thesis by simp
qed

lemma keys_inv_step:
  assumes "keys_inv s" and "exec_inv H s" and "exec_step H l s = Some s'"
  shows "keys_inv s' \<and> call_keys s \<subseteq> call_keys s'"
  using assms(3)
proof (cases rule: exec_step_elim)
  case (start i k op)
  have "call_keys s \<subseteq> call_keys s'"
  proof
    fix k'
    assume "k' \<in> call_keys s"
    then obtain j c where "sv_calls s j = Some c" "cl_key c = k'" by (auto simp: call_keys_def)
    moreover from this start(2) have "j \<noteq> i" by auto
    ultimately show "k' \<in> call_keys s'" using call_keysI [of s' j c] start(3) by simp
  qed
  with start assms(1) show ?thesis by (auto simp: keys_inv_def)
next
  case (finish i c res eo in_flight ch)
  then have "hm_get (fst eo) k \<noteq> None \<Longrightarrow> k = cl_key c \<or> hm_get (fst (sv_cache s)) k \<noteq> None" for k
    using execute_finish_Some(4) [OF _ exec_invD(1) [OF assms(2)]] by blast
  with finish assms(1) call_keysI [of s i c] show ?thesis by (auto simp: keys_inv_def)
qed (use assms(1) in \<open>auto simp: keys_inv_def\<close>)

lemma once_inv_new: "once_inv H new_service"
  by (simp add: once_inv_def new_service_def)

lemma once_inv_frame [simp]:
  "once_inv H (s\<lparr>sv_next_authority := ctr\<rparr>) = once_inv H s"
  "once_inv H (s\<lparr>sv_sent := sent\<rparr>) = once_inv H s"
  by (simp_all add: once_inv_def)

lemma once_invD:
  assumes "once_inv H s"
  shows "distinct (map fst (sv_answered s))"
    and "(k, cr) \<in> set (sv_answered s) \<Longrightarrow> hm_get (fst (sv_cache s)) k = Some cr \<or>
        (\<exists>f i c. hm_get (sv_in_flight s) k = Some (f, i) \<and> sv_calls s i = Some c \<and>
           (cl_pc c = Finishing (Inr (cr_result cr)) \<or> cl_pc c = Dropped))"
    and "hm_get (fst (sv_cache s)) k = Some cr \<Longrightarrow> (k, cr) \<in> set (sv_answered s)"
    and "sv_calls s i = Some c \<Longrightarrow> cl_pc c \<in> {Finishing (Inr r), Returned (Inr r)} \<Longrightarrow>
        (cl_key c, \<lparr>cr_fingerprint = call_fp H c, cr_result = r\<rparr>) \<in> set (sv_answered s)"
  using assms unfolding once_inv_def by (blast, blast, blast, blast)

text \<open>A call can move on as long as it neither abandons an answer nor makes one up.\<close>

lemma once_inv_set_pc:
  assumes "once_inv H s" and "sv_calls s i = Some c"
    and "\<And>r. pc \<in> {Finishing (Inr r), Returned (Inr r)} \<Longrightarrow>
      (cl_key c, \<lparr>cr_fingerprint = call_fp H c, cr_result = r\<rparr>) \<in> set (sv_answered s)"
    and "(\<exists>r. cl_pc c = Finishing (Inr r)) \<or> cl_pc c = Dropped \<Longrightarrow> pc = Dropped"
  shows "once_inv H (set_pc i pc s)"
  unfolding once_inv_def
proof (intro conjI allI impI, goal_cases)
  case 1
  show ?case using once_invD(1) [OF assms(1)] by simp
next
  case (2 k cr)
  then have "(k, cr) \<in> set (sv_answered s)" by simp
  from once_invD(2) [OF assms(1) this] show ?case
  proof
    assume "\<exists>f j d. hm_get (sv_in_flight s) k = Some (f, j) \<and> sv_calls s j = Some d \<and>
      (cl_pc d = Finishing (Inr (cr_result cr)) \<or> cl_pc d = Dropped)"
    then obtain f j d where j: "hm_get (sv_in_flight s) k = Some (f, j)" "sv_calls s j = Some d"
      "cl_pc d = Finishing (Inr (cr_result cr)) \<or> cl_pc d = Dropped" by blast
    with assms(2,4) show ?thesis by (cases "j = i") auto
  qed simp
next
  case (3 k cr)
  then show ?case using once_invD(3) [OF assms(1)] by simp
next
  case (4 j d r)
  then show ?case
    using once_invD(4) [OF assms(1), of j d r] assms(2) assms(3) [of r]
    by (cases "j = i") auto
qed

lemma once_inv_start:
  assumes "once_inv H s" and "sv_calls s i = None"
  shows "once_inv H (s\<lparr>sv_calls := (sv_calls s)(i \<mapsto> \<lparr>cl_key = k, cl_operation = op, cl_pc = Looking\<rparr>)\<rparr>)"
  unfolding once_inv_def
proof (intro conjI allI impI, goal_cases)
  case (2 k' cr)
  then have "(k', cr) \<in> set (sv_answered s)" by simp
  from once_invD(2) [OF assms(1) this] show ?case
  proof
    assume "\<exists>f j d. hm_get (sv_in_flight s) k' = Some (f, j) \<and> sv_calls s j = Some d \<and>
      (cl_pc d = Finishing (Inr (cr_result cr)) \<or> cl_pc d = Dropped)"
    then obtain f j d where j: "hm_get (sv_in_flight s) k' = Some (f, j)" "sv_calls s j = Some d"
      "cl_pc d = Finishing (Inr (cr_result cr)) \<or> cl_pc d = Dropped" by blast
    with assms(2) have "j \<noteq> i" by auto
    with j show ?thesis by auto
  qed simp
next
  case (4 j d r)
  then show ?case using once_invD(4) [OF assms(1), of j d r] by (cases "j = i") auto
qed (use once_invD(1,3) [OF assms(1)] in simp_all)

lemma once_inv_own:
  assumes "once_inv H s" and "sv_calls s i = Some c" and "cl_pc c = Looking"
    and "hm_get (sv_in_flight s) (cl_key c) = None"
  shows "once_inv H (set_pc i Owner
    (s\<lparr>sv_in_flight := hm_insert (cl_key c) (f, i) (sv_in_flight s)\<rparr>))"
proof (rule once_inv_set_pc)
  show "once_inv H (s\<lparr>sv_in_flight := hm_insert (cl_key c) (f, i) (sv_in_flight s)\<rparr>)"
    unfolding once_inv_def
  proof (intro conjI allI impI, goal_cases)
    case (2 k cr)
    then have "(k, cr) \<in> set (sv_answered s)" by simp
    from once_invD(2) [OF assms(1) this] assms(4) show ?case by (auto simp: hm_simps)
  next
    case (4 j d r)
    then show ?case using once_invD(4) [OF assms(1), of j d r] by simp
  qed (use once_invD(1,3) [OF assms(1)] in simp_all)
qed (use assms(2,3) in auto)

lemma once_inv_answer:
  assumes "once_inv H s" and "exec_inv H s" and "sv_calls s i = Some c" and "cl_pc c = Sent q"
  shows "once_inv H (set_pc i (Finishing (Inr r)) (s\<lparr>sv_answered := sv_answered s @
    [(cl_key c, \<lparr>cr_fingerprint = call_fp H c, cr_result = r\<rparr>)]\<rparr>))"
proof -
  have fl: "hm_get (sv_in_flight s) (cl_key c) = Some (call_fp H c, i)"
    using exec_invD(3) [OF assms(2,3)] assms(4) by simp
  have nc: "hm_get (fst (sv_cache s)) (cl_key c) = None"
    using exec_inv_not_cached [OF assms(2) fl] .
  have fresh: "(cl_key c, cr) \<notin> set (sv_answered s)" for cr
    using once_invD(2) [OF assms(1), of "cl_key c" cr] fl nc assms(3,4) by auto
  show ?thesis
    unfolding once_inv_def
  proof (intro conjI allI impI, goal_cases)
    case 1
    show ?case using once_invD(1) [OF assms(1)] fresh by auto
  next
    case (2 k cr)
    then consider "(k, cr) \<in> set (sv_answered s)"
      | "k = cl_key c" "cr = \<lparr>cr_fingerprint = call_fp H c, cr_result = r\<rparr>" by auto
    then show ?case
    proof cases
      case 1
      then have "k \<noteq> cl_key c" using fresh by auto
      from once_invD(2) [OF assms(1) 1] show ?thesis using fl assms(3,4) by fastforce
    next
      case 2
      then show ?thesis using fl assms(3) by simp
    qed
  next
    case (3 k cr)
    then show ?case using once_invD(3) [OF assms(1), of k cr] by simp
  next
    case (4 j d r')
    then show ?case using once_invD(4) [OF assms(1), of j d r'] assms(3)
      by (cases "j = i") auto
  qed
qed

text \<open>Publishing a result does not evict another while there are no more keys than the capacity.\<close>

lemma request_cache_insert_room:
  assumes "cache_inv cap eo" and "request_cache_insert cap eo k v = Some eo'"
    and "card (insert k (dom (map_of (fst eo)))) \<le> cap"
  shows "map_of (fst eo') = (map_of (fst eo))(k \<mapsto> v)"
proof -
  let ?o = "if k \<in> set (snd eo) then snd eo else snd eo @ [k]"
  have d: "distinct (snd eo)" "dom (map_of (fst eo)) = set (snd eo)"
    using assms(1) by (cases eo; simp add: cache_inv_def dom_map_of_conv_image_fst)+
  have o: "distinct ?o" "set ?o = insert k (set (snd eo))" using d(1) by auto
  then have "length ?o \<le> cap" using assms(3) d(2) distinct_card [of ?o] by simp
  then have "snd eo' = ?o" using request_cache_insert_Some(1) [OF assms(1,2)] by simp
  with o(2) have s: "set (snd eo') = insert k (dom (map_of (fst eo)))" by (simp only: d(2))
  show ?thesis
    unfolding request_cache_insert_Some(2) [OF assms(1,2)] s
    by (auto simp: restrict_map_def fun_eq_iff)
qed

text \<open>Within the capacity, finishing a call adds its result to the cache and evicts nothing.\<close>

lemma finish_cache:
  assumes "exec_inv H s" and "keys_inv s" and "card (call_keys s) \<le> REQUEST_CACHE_CAPACITY"
    and "sv_calls s i = Some c"
    and "execute_finish (cl_key c) (call_fp H c) res (sv_cache s) (sv_in_flight s) = Some (eo, in_flight, ch)"
  shows "map_of (fst eo) = (case res of Inl _ \<Rightarrow> map_of (fst (sv_cache s))
      | Inr r \<Rightarrow> (map_of (fst (sv_cache s)))(cl_key c \<mapsto> \<lparr>cr_fingerprint = call_fp H c, cr_result = r\<rparr>))"
proof (cases res)
  case (Inr r)
  have "insert (cl_key c) (dom (map_of (fst (sv_cache s)))) \<subseteq> call_keys s"
    using assms(2) call_keysI [OF assms(4)] by (simp add: keys_inv_def)
  then have "card (insert (cl_key c) (dom (map_of (fst (sv_cache s))))) \<le> REQUEST_CACHE_CAPACITY"
    using card_mono [OF finite_call_keys [OF assms(2)]] assms(3) le_trans by blast
  from request_cache_insert_room [OF exec_invD(1) [OF assms(1)] _ this] Inr assms(5)
  show ?thesis by (auto simp: execute_finish_def)
qed (use execute_finish_Some [OF assms(5) exec_invD(1) [OF assms(1)]] in auto)

lemma once_inv_finish:
  assumes "once_inv H s" and "exec_inv H s" and "keys_inv s"
    and "card (call_keys s) \<le> REQUEST_CACHE_CAPACITY"
    and "sv_calls s i = Some c" and "cl_pc c = Finishing res"
    and "execute_finish (cl_key c) (call_fp H c) res (sv_cache s) (sv_in_flight s)
           = Some (eo, in_flight, ch)"
  shows "once_inv H (set_pc i (Returned res)
    (s\<lparr>sv_cache := eo, sv_in_flight := in_flight, sv_completed := chans\<rparr>))"
proof -
  have fl: "hm_get (sv_in_flight s) (cl_key c) = Some (call_fp H c, i)"
    using exec_invD(3) [OF assms(2,5)] assms(6) by simp
  note fin = execute_finish_Some [OF assms(7) exec_invD(1) [OF assms(2)]]
  note eo = finish_cache [OF assms(2-5,7)]
  have res: "(cl_key c, \<lparr>cr_fingerprint = call_fp H c, cr_result = r\<rparr>) \<in> set (sv_answered s)"
    if "res = Inr r" for r using once_invD(4) [OF assms(1,5)] assms(6) that by simp
  show ?thesis
    unfolding once_inv_def
  proof (intro conjI allI impI, goal_cases)
    case 1
    show ?case using once_invD(1) [OF assms(1)] by simp
  next
    case (2 k cr)
    then have a: "(k, cr) \<in> set (sv_answered s)" by simp
    show ?case
    proof (cases "k = cl_key c")
      case True
      have "hm_get (fst (sv_cache s)) k = None"
        using exec_inv_not_cached [OF assms(2) fl] True by simp
      then have r: "res = Inr (cr_result cr)"
        using once_invD(2) [OF assms(1) a] fl assms(5,6) True by auto
      have "cr = \<lparr>cr_fingerprint = call_fp H c, cr_result = cr_result cr\<rparr>"
        using res [OF r] a True once_invD(1) [OF assms(1)] by (metis eq_key_imp_eq_value)
      with r True show ?thesis by (simp add: eo)
    next
      case False
      with once_invD(2) [OF assms(1) a] show ?thesis
        using exec_invD(4) [OF assms(2), of k] assms(5)
        by (fastforce simp: eo fin(2) split: sum.splits)
    qed
  next
    case (3 k cr)
    then show ?case using once_invD(3) [OF assms(1), of k cr] res
      by (auto simp: eo split: sum.splits if_splits)
  next
    case (4 j d r)
    then show ?case using once_invD(4) [OF assms(1), of j d r] assms(5) res
      by (cases "j = i") auto
  qed
qed

lemma once_inv_step:
  assumes "once_inv H s" and "exec_inv H s" and "keys_inv s"
    and "card (call_keys s) \<le> REQUEST_CACHE_CAPACITY" and "exec_step H l s = Some s'"
  shows "once_inv H s'"
  using assms(5)
proof (cases rule: exec_step_elim)
  case (start i k op)
  then show ?thesis using once_inv_start [OF assms(1)] by simp
next
  case (replay i c r)
  then show ?thesis using once_invD(3) [OF assms(1)] by (auto intro!: once_inv_set_pc simp: assms(1))
next
  case (own i c)
  then show ?thesis using once_inv_own [OF assms(1)] by simp
next
  case (answer i reply c q r)
  then show ?thesis using once_inv_answer [OF assms(1,2)] by simp
next
  case (finish i c res eo in_flight ch)
  then show ?thesis using once_inv_finish [OF assms(1-4)] by simp
qed (auto intro!: once_inv_set_pc simp: assms(1))

lemma once_inv_reach:
  assumes "exec_reach H allowed s"
  shows "keys_inv s" and "card (call_keys s) \<le> REQUEST_CACHE_CAPACITY \<longrightarrow> once_inv H s"
proof -
  have "keys_inv s \<and> (card (call_keys s) \<le> REQUEST_CACHE_CAPACITY \<longrightarrow> once_inv H s)"
    using assms
  proof (induction rule: exec_reach.induct)
    case reach_new
    have "keys_inv new_service" by (simp add: keys_inv_def new_service_def)
    then show ?case using once_inv_new by blast
  next
    case (reach_step s l s')
    have inv: "exec_inv H s" using reach_step.hyps(1) by (rule exec_inv_reach)
    have k: "keys_inv s'" "call_keys s \<subseteq> call_keys s'"
      using keys_inv_step [OF _ inv reach_step.hyps(3)] reach_step.IH by simp_all
    then have "card (call_keys s) \<le> card (call_keys s')" by (simp add: card_mono finite_call_keys)
    with k reach_step once_inv_step [OF _ inv _ _ reach_step.hyps(3)] show ?case by simp
  qed
  then show "keys_inv s" and "card (call_keys s) \<le> REQUEST_CACHE_CAPACITY \<longrightarrow> once_inv H s"
    by simp_all
qed

fun exec_run ::
  "('r hash_item list \<Rightarrow> u64) \<Rightarrow> 'r exec_label list \<Rightarrow> 'r service \<Rightarrow> 'r service option" where
  "exec_run H [] s = Some s"
| "exec_run H (l # ls) s = Option.bind (exec_step H l s) (exec_run H ls)"

lemma exec_run_reach:
  "exec_run H ls s = Some s' \<Longrightarrow> list_all allowed ls \<Longrightarrow> exec_reach H allowed s \<Longrightarrow>
   exec_reach H allowed s'"
  by (induction ls arbitrary: s) (auto simp: bind_eq_Some_conv intro: reach_step)

text \<open>
  C19. However calls interleave and whichever are cancelled, two calls never own the same request at
  the same time, and no call owns a request whose result is cached: the operation of a request is
  sent to the signaling event loop by one call at a time.
\<close>

theorem single_owner:
  assumes "exec_reach H allowed s" and "sv_calls s i = Some c" and "sv_calls s j = Some d"
    and "owning (cl_pc c)" and "owning (cl_pc d)" and "cl_key c = cl_key d"
  shows "i = j \<and> hm_get (fst (sv_cache s)) (cl_key c) = None"
proof -
  have inv: "exec_inv H s" using assms(1) by (rule exec_inv_reach)
  have c: "hm_get (sv_in_flight s) (cl_key c) = Some (call_fp H c, i)"
    by (rule exec_invD(3) [OF inv assms(2,4)])
  have "hm_get (sv_in_flight s) (cl_key d) = Some (call_fp H d, j)"
    by (rule exec_invD(3) [OF inv assms(3,5)])
  with c exec_inv_not_cached [OF inv c] assms(6) show ?thesis by simp
qed

definition sample_key :: RequestKey where
  "sample_key = \<lparr>rk_instance_id = ''a'', rk_request_id = 1\<rparr>"

definition sample_hash :: "nat hash_item list \<Rightarrow> u64" where
  "sample_hash items = of_nat (length items)"

lemmas exec_eval = exec_step_def execute_lookup_def execute_finish_def request_cache_insert_def
  next_authority_request_id_def new_service_def set_pc_def

lemma evict_requests_small: "length entries \<le> cap \<Longrightarrow> evict_requests cap entries order = Some (entries, order)"
  by (subst evict_requests.simps) simp

lemma sample_owner_run:
  "exec_run sample_hash [StartCall 0 sample_key Status, Lookup 0] new_service =
   Some (new_service\<lparr>sv_in_flight := [(sample_key, (operation_fingerprint sample_hash Status, 0))],
     sv_calls := [0 \<mapsto> \<lparr>cl_key = sample_key, cl_operation = Status, cl_pc = Owner\<rparr>]\<rparr>)"
  by (simp add: exec_eval Let_def)

theorem single_owner_witness:
  "(0 :: nat) = 0 \<and> hm_get (fst (sv_cache (new_service :: nat service))) sample_key = None"
  using single_owner [OF exec_run_reach [OF sample_owner_run, of "\<lambda>_. True"], of 0 _ 0]
  by (simp add: reach_new)

text \<open>
  C1. While no more than 4096 request keys have been used, a request is executed once: any two calls
  under the same key that return a result return the same one, their operations have the same
  fingerprint, and exactly one authority answer was ever received for that key; every other call
  replayed it.
\<close>

theorem execute_once:
  assumes "exec_reach H allowed s" and "card (call_keys s) \<le> REQUEST_CACHE_CAPACITY"
    and "sv_calls s i = Some c" and "cl_pc c = Returned (Inr r)"
    and "sv_calls s j = Some d" and "cl_pc d = Returned (Inr r')" and "cl_key c = cl_key d"
  shows "r = r' \<and> call_fp H c = call_fp H d \<and>
    filter (\<lambda>a. fst a = cl_key c) (sv_answered s) =
      [(cl_key c, \<lparr>cr_fingerprint = call_fp H c, cr_result = r\<rparr>)]"
proof -
  have inv: "once_inv H s" using once_inv_reach [OF assms(1)] assms(2) by simp
  have a: "(cl_key c, \<lparr>cr_fingerprint = call_fp H c, cr_result = r\<rparr>) \<in> set (sv_answered s)"
    using once_invD(4) [OF inv assms(3)] assms(4) by simp
  have b: "(cl_key c, \<lparr>cr_fingerprint = call_fp H d, cr_result = r'\<rparr>) \<in> set (sv_answered s)"
    using once_invD(4) [OF inv assms(5)] assms(6,7) by simp
  note dis = once_invD(1) [OF inv]
  from eq_key_imp_eq_value [OF dis a b] filter_key_unique [OF dis a] show ?thesis by simp
qed

definition sample_once :: "nat service" where
  "sample_once = new_service\<lparr>
     sv_cache := ([(sample_key, \<lparr>cr_fingerprint = operation_fingerprint sample_hash Status,
       cr_result = Removed\<rparr>)], [sample_key]),
     sv_completed := [0], sv_next_authority := 2, sv_sent := [(1, Status)],
     sv_calls := [0 \<mapsto> \<lparr>cl_key = sample_key, cl_operation = Status, cl_pc = Returned (Inr Removed)\<rparr>,
       1 \<mapsto> \<lparr>cl_key = sample_key, cl_operation = Status, cl_pc = Returned (Inr Removed)\<rparr>],
     sv_answered := [(sample_key, \<lparr>cr_fingerprint = operation_fingerprint sample_hash Status,
       cr_result = Removed\<rparr>)]\<rparr>"

lemma sample_once_run:
  "exec_run sample_hash [StartCall 0 sample_key Status, Lookup 0, Draw 0, Issue 0 True,
     Respond 0 (Reply 1 Removed), Finish 0, StartCall 1 sample_key Status, Lookup 1] new_service =
   Some sample_once"
  by (simp add: exec_eval Let_def sample_once_def evict_requests_small REQUEST_CACHE_CAPACITY_def
      fun_upd_twist)

lemma sample_once_keys: "call_keys sample_once = {sample_key}"
  by (force simp: call_keys_def sample_once_def)

theorem execute_once_witness:
  "Removed = Removed \<and>
   operation_fingerprint sample_hash Status = operation_fingerprint sample_hash Status \<and>
   filter (\<lambda>a. fst a = sample_key) (sv_answered sample_once) =
     [(sample_key, \<lparr>cr_fingerprint = operation_fingerprint sample_hash Status, cr_result = Removed\<rparr>)]"
  using execute_once [OF exec_run_reach [OF sample_once_run, of "\<lambda>_. True"], of 0 _ Removed 1 _ Removed]
  by (simp add: reach_new sample_once_keys REQUEST_CACHE_CAPACITY_def)
     (simp add: sample_once_def)

section \<open>Progress\<close>

fun is_cancel :: "'r exec_label \<Rightarrow> bool" where
  "is_cancel (Cancel i) = True"
| "is_cancel _ = False"

fun is_start :: "'r exec_label \<Rightarrow> bool" where
  "is_start (StartCall i k op) = True"
| "is_start _ = False"

lemma not_dropped:
  assumes "exec_reach H (\<lambda>l. \<not> is_cancel l) s"
  shows "sv_calls s i = Some c \<Longrightarrow> cl_pc c \<noteq> Dropped"
  using assms
proof (induction arbitrary: i c rule: exec_reach.induct)
  case reach_new
  then show ?case by (simp add: new_service_def)
next
  case (reach_step s l s')
  from reach_step.hyps(3) show ?case
  proof (cases rule: exec_step_elim)
  qed (use reach_step.IH [of i] reach_step.prems reach_step.hyps(2) in \<open>auto split: if_splits\<close>)
qed

lemma owner_can_step:
  assumes "exec_inv H s" and "sv_calls s i = Some c" and "owning (cl_pc c)"
  shows "\<exists>l s'. exec_step H l s = Some s' \<and> label_call l = i \<and> \<not> is_start l \<and> \<not> is_cancel l"
proof (cases "cl_pc c")
  case Owner
  with assms(2) show ?thesis
    by (intro exI [of _ "Draw i"]) (simp add: exec_step_def Let_def split: prod.splits)
next
  case (Drawn q)
  with assms(2) show ?thesis by (intro exI [of _ "Issue i True"]) (simp add: exec_step_def)
next
  case (Sent q)
  with assms(2) show ?thesis
    by (intro exI [of _ "Respond i ReplyTimeout"]) (simp add: exec_step_def Let_def)
next
  case (Finishing res)
  have "\<exists>x. execute_finish (cl_key c) (call_fp H c) res (sv_cache s) (sv_in_flight s) = Some x"
    using req_cache.ins_total [OF exec_invD(1) [OF assms(1)]]
    by (cases res) (auto simp: execute_finish_def)
  with Finishing assms(2) show ?thesis
    by (intro exI [of _ "Finish i"]) (auto simp: exec_step_def)
qed (use assms(3) in simp_all)



section \<open>A cancelled owner\<close>

definition abandoned :: "'r service \<Rightarrow> nat \<Rightarrow> 'r call \<Rightarrow> u64 \<Rightarrow> bool" where
  "abandoned s i c f \<longleftrightarrow> sv_calls s i = Some c \<and> cl_pc c = Dropped \<and>
     hm_get (sv_in_flight s) (cl_key c) = Some (f, i)"

definition unanswered_since :: "'r service \<Rightarrow> RequestKey \<Rightarrow> 'r service \<Rightarrow> bool" where
  "unanswered_since s0 k s \<longleftrightarrow> (\<forall>j d r. sv_calls s0 j = None \<and> sv_calls s j = Some d \<and> cl_key d = k \<longrightarrow>
     cl_pc d \<noteq> Returned (Inr r))"

lemma abandoned_not_owning:
  assumes "exec_inv H s" and "abandoned s i c f" and "sv_calls s j = Some d" and "owning (cl_pc d)"
  shows "cl_key d \<noteq> cl_key c" and "j \<noteq> i"
  using exec_invD(3) [OF assms(1,3,4)] assms(2,3,4) by (auto simp: abandoned_def)

lemma abandoned_step:
  assumes "exec_inv H s" and "abandoned s i c f" and "exec_step H l s = Some s'"
  shows "abandoned s' i c f"
  using assms(3)
proof (cases rule: exec_step_elim)
  case (finish j d res eo in_flight ch)
  have fl: "map_of in_flight = (map_of (sv_in_flight s))(cl_key d := None)"
    using execute_finish_Some(2) [OF finish(4) exec_invD(1) [OF assms(1)]] .
  have "cl_key d \<noteq> cl_key c" and "j \<noteq> i"
    using abandoned_not_owning [OF assms(1,2) finish(2)] finish(3) by simp_all
  with finish fl assms(2) show ?thesis by (auto simp: abandoned_def)
next
  case (own j d)
  with assms(2) have "cl_key d \<noteq> cl_key c" and "j \<noteq> i" by (auto simp: abandoned_def)
  with own assms(2) show ?thesis by (auto simp: abandoned_def hm_simps)
qed (use assms(2) in \<open>auto simp: abandoned_def\<close>)

lemma unanswered_step:
  assumes "exec_inv H s" and "abandoned s i c f" and "unanswered_since s0 (cl_key c) s"
    and "exec_step H l s = Some s'"
  shows "unanswered_since s0 (cl_key c) s'"
proof -
  have nc: "hm_get (fst (sv_cache s)) (cl_key c) = None"
    using exec_inv_not_cached [OF assms(1)] assms(2) by (simp add: abandoned_def)
  note un = assms(3) [unfolded unanswered_since_def, rule_format]
  from assms(4) show ?thesis
  proof (cases rule: exec_step_elim)
    case (replay j d r)
    with nc have "cl_key d \<noteq> cl_key c" by auto
    with replay un show ?thesis by (auto simp: unanswered_since_def)
  next
    case (finish j d res eo in_flight ch)
    have "cl_key d \<noteq> cl_key c"
      using abandoned_not_owning(1) [OF assms(1,2) finish(2)] finish(3) by simp
    with finish un show ?thesis by (auto simp: unanswered_since_def)
  qed (use un in \<open>auto simp: unanswered_since_def\<close>)
qed

text \<open>
  C21. A call cancelled while it owns a request leaves the request in flight for good: whatever
  happens afterwards, the in-flight entry stays and no call that starts later under that key ever
  returns a result. A client that gives up on a request therefore cannot retry it under the same
  identifier.
\<close>

theorem cancelled_owner_blocks_retries:
  assumes "exec_reach H allowed s" and "sv_calls s i = Some c" and "cl_pc c = Dropped"
    and "hm_get (sv_in_flight s) (cl_key c) = Some (f, i)" and "exec_run H ls s = Some s'"
  shows "hm_get (sv_in_flight s') (cl_key c) = Some (f, i) \<and>
    (\<forall>j d r. sv_calls s j = None \<and> sv_calls s' j = Some d \<and> cl_key d = cl_key c \<longrightarrow>
       cl_pc d \<noteq> Returned (Inr r))"
proof -
  have run: "exec_run H ls t = Some s' \<Longrightarrow> exec_inv H t \<Longrightarrow> abandoned t i c f \<Longrightarrow>
      unanswered_since s (cl_key c) t \<Longrightarrow> abandoned s' i c f \<and> unanswered_since s (cl_key c) s'" for t
  proof (induction ls arbitrary: t)
    case (Cons l ls)
    then obtain t1 where t1: "exec_step H l t = Some t1" "exec_run H ls t1 = Some s'"
      by (auto simp: bind_eq_Some_conv)
    show ?case
      using Cons.IH [OF t1(2) exec_inv_step [OF Cons.prems(2) t1(1)]
          abandoned_step [OF Cons.prems(2,3) t1(1)] unanswered_step [OF Cons.prems(2-4) t1(1)]] .
  qed simp
  have "abandoned s i c f" using assms(2-4) by (simp add: abandoned_def)
  moreover have "unanswered_since s (cl_key c) s" by (auto simp: unanswered_since_def)
  ultimately show ?thesis
    using run [OF assms(5) exec_inv_reach [OF assms(1)]]
    by (auto simp: abandoned_def unanswered_since_def)
qed

definition sample_abandoned :: "nat service" where
  "sample_abandoned = new_service\<lparr>
     sv_in_flight := [(sample_key, (operation_fingerprint sample_hash Status, 0))],
     sv_calls := [0 \<mapsto> \<lparr>cl_key = sample_key, cl_operation = Status, cl_pc = Dropped\<rparr>]\<rparr>"

lemma sample_abandoned_run:
  "exec_run sample_hash [StartCall 0 sample_key Status, Lookup 0, Cancel 0] new_service =
   Some sample_abandoned"
  by (simp add: exec_eval Let_def sample_abandoned_def)

theorem cancelled_owner_blocks_retries_witness:
  "hm_get (sv_in_flight (sample_abandoned\<lparr>sv_calls := (sv_calls sample_abandoned)(1 \<mapsto>
     \<lparr>cl_key = sample_key, cl_operation = Status, cl_pc = Waiting 0\<rparr>)\<rparr>)) sample_key =
   Some (operation_fingerprint sample_hash Status, 0)"
proof -
  have "exec_run sample_hash [StartCall 1 sample_key Status, Lookup 1] sample_abandoned =
     Some (sample_abandoned\<lparr>sv_calls := (sv_calls sample_abandoned)(1 \<mapsto>
       \<lparr>cl_key = sample_key, cl_operation = Status, cl_pc = Waiting 0\<rparr>)\<rparr>)"
    by (simp add: exec_eval Let_def sample_abandoned_def)
  from cancelled_owner_blocks_retries [OF exec_run_reach [OF sample_abandoned_run, of "\<lambda>_. True"]
      _ _ _ this, of 0 "\<lparr>cl_key = sample_key, cl_operation = Status, cl_pc = Dropped\<rparr>"]
  show ?thesis by (simp add: reach_new sample_abandoned_def)
qed

end
