(* ===== verification/Params.thy ===== *)
theory Params
  imports Json "HOL-Library.Sublist"
begin

text \<open>
  The edge's configuration (\<open>src/src/config.rs\<close>) and the parameters it gives to pages and joins
  (\<open>src/src/params.rs\<close>). The \<open>url\<close> crate and the text \<open>serde_json\<close> prints are parameters: the fields
  of \<open>url_api\<close>, and a function \<open>to_string\<close> that returns \<open>None\<close> where \<open>serde_json::to_string\<close> fails.
  The derived \<open>Serialize\<close> implementations, which the attributes in the source define, are modelled.
\<close>

section \<open>Strings of the standard library\<close>

definition trim_end_matches :: "char \<Rightarrow> string \<Rightarrow> string" where
  "trim_end_matches c s = rev (dropWhile (\<lambda>x. x = c) (rev s))"

text \<open>\<open>replacen(pat, to, 1)\<close> for a non-empty pattern.\<close>

fun replace_first :: "string \<Rightarrow> string \<Rightarrow> string \<Rightarrow> string" where
  "replace_first pat to [] = []"
| "replace_first pat to (c # cs) =
     (if prefix pat (c # cs) then to @ drop (length pat) (c # cs) else c # replace_first pat to cs)"

fun split_on :: "char \<Rightarrow> string \<Rightarrow> string list" where
  "split_on c [] = [[]]"
| "split_on c (x # xs) =
     (if x = c then [] # split_on c xs
      else case split_on c xs of [] \<Rightarrow> [[x]] | w # ws \<Rightarrow> (x # w) # ws)"

section \<open>Configuration\<close>

definition LOOPBACK_CLIENT_ID :: string where
  "LOOPBACK_CLIENT_ID = ''LOOPBACK_CLIENT_ID''"

record IceServer =
  ice_urls :: "string list"
  ice_username :: string
  ice_credential :: string

record Config =
  cf_web_root :: string
  cf_host :: string
  cf_force_tls :: bool
  cf_signaling_ws_url :: string
  cf_ice_server_override :: "IceServer list"
  cf_ice_server_urls :: "string list"
  cf_ice_server_base_url :: string
  cf_ice_server_api_key :: string
  cf_header_message :: string
  cf_bypass_join_confirmation :: bool

definition default_config :: Config where
  "default_config = \<lparr>cf_web_root = [], cf_host = [], cf_force_tls = False, cf_signaling_ws_url = [],
     cf_ice_server_override = [], cf_ice_server_urls = [], cf_ice_server_base_url = [],
     cf_ice_server_api_key = [], cf_header_message = [], cf_bypass_join_confirmation = False\<rparr>"

text \<open>\<open>skip_serializing_if = "String::is_empty"\<close>\<close>

definition field_unless_empty :: "string \<Rightarrow> string \<Rightarrow> (string \<times> json) list" where
  "field_unless_empty name s = (if s = [] then [] else [(name, JString s)])"

definition ice_server_value :: "IceServer \<Rightarrow> json" where
  "ice_server_value server = JObject
     ([(''urls'', JArray (map JString (ice_urls server)))] @
      field_unless_empty ''username'' (ice_username server) @
      field_unless_empty ''credential'' (ice_credential server))"

section \<open>Room parameters\<close>

record RoomParameters =
  rp_signaling_version :: u8
  rp_client_id :: string
  rp_room_id :: string
  rp_room_link :: string
  rp_wss_url :: string
  rp_wss_post_url :: string
  rp_ice_server_url :: string
  rp_ice_server_transports :: string
  rp_header_message :: string
  rp_is_initiator :: string
  rp_is_loopback :: string
  rp_pc_config :: string
  rp_pc_constraints :: string
  rp_offer_options :: string
  rp_media_constraints :: string
  rp_bypass_join_confirmation :: string
  rp_version_info :: string
  rp_include_loopback_js :: string
  rp_messages :: "string list"
  rp_error_messages :: "string list"
  rp_warning_messages :: "string list"

definition default_room_parameters :: RoomParameters where
  "default_room_parameters = \<lparr>rp_signaling_version = 0, rp_client_id = [], rp_room_id = [],
     rp_room_link = [], rp_wss_url = [], rp_wss_post_url = [], rp_ice_server_url = [],
     rp_ice_server_transports = [], rp_header_message = [], rp_is_initiator = [],
     rp_is_loopback = [], rp_pc_config = [], rp_pc_constraints = [], rp_offer_options = [],
     rp_media_constraints = [], rp_bypass_join_confirmation = [], rp_version_info = [],
     rp_include_loopback_js = [], rp_messages = [], rp_error_messages = [],
     rp_warning_messages = []\<rparr>"

definition room_parameters_value :: "RoomParameters \<Rightarrow> json" where
  "room_parameters_value p = JObject
     (field_unless_empty ''client_id'' (rp_client_id p) @
      field_unless_empty ''room_id'' (rp_room_id p) @
      field_unless_empty ''room_link'' (rp_room_link p) @
      [(''wss_url'', JString (rp_wss_url p))] @
      field_unless_empty ''wss_post_url'' (rp_wss_post_url p) @
      [(''ice_server_url'', JString (rp_ice_server_url p)),
       (''ice_server_transports'', JString (rp_ice_server_transports p)),
       (''header_message'', JString (rp_header_message p))] @
      field_unless_empty ''is_initiator'' (rp_is_initiator p) @
      [(''is_loopback'', JString (rp_is_loopback p)),
       (''pc_config'', JString (rp_pc_config p)),
       (''pc_constraints'', JString (rp_pc_constraints p)),
       (''offer_options'', JString (rp_offer_options p)),
       (''media_constraints'', JString (rp_media_constraints p)),
       (''bypass_join_confirmation'', JString (rp_bypass_join_confirmation p)),
       (''version_info'', JString (rp_version_info p)),
       (''include_loopback_js'', JString (rp_include_loopback_js p))] @
      (if rp_messages p = [] then [] else [(''messages'', JArray (map JString (rp_messages p)))]) @
      [(''error_messages'', JArray (map JString (rp_error_messages p))),
       (''warning_messages'', JArray (map JString (rp_warning_messages p)))])"

record 'u url_api =
  query_pairs :: "'u \<Rightarrow> (string \<times> string) list"
  url_query :: "'u \<Rightarrow> string option"

definition must_json :: "(json \<Rightarrow> string option) \<Rightarrow> json \<Rightarrow> string" where
  "must_json to_string v = (case to_string v of None \<Rightarrow> ''null'' | Some s \<Rightarrow> s)"

text \<open>The generator is the argument: \<open>rng i\<close> is its draw number \<open>i\<close> from \<open>0..10\<close>.\<close>

definition generate_random :: "nat \<Rightarrow> (nat \<Rightarrow> nat) \<Rightarrow> string" where
  "generate_random len rng = map (\<lambda>i. ''0123456789'' ! rng i) [0..<len]"

definition query_get :: "('u, 'z) url_api_scheme \<Rightarrow> 'u \<Rightarrow> string \<Rightarrow> string" where
  "query_get U url key =
     (case find (\<lambda>(k, _). k = key) (query_pairs U url) of None \<Rightarrow> [] | Some (_, v) \<Rightarrow> v)"

definition bool_str :: "bool \<Rightarrow> string" where
  "bool_str b = (if b then ''true'' else ''false'')"

definition self_origin :: "Config \<Rightarrow> string \<Rightarrow> string \<times> string \<times> string" where
  "self_origin config req_host =
     (let host = (if cf_host config = [] then req_host else cf_host config)
      in if cf_force_tls config then (''https'', ''wss'', host) else (''http'', ''ws'', host))"

definition build_pc_config :: "Config \<Rightarrow> string \<Rightarrow> json" where
  "build_pc_config config ice_transports =
     (let servers = (if cf_ice_server_override config = [] then []
                     else map ice_server_value (cf_ice_server_override config));
          fields = [(''iceServers'', JArray servers), (''bundlePolicy'', JString ''max-bundle''),
                    (''rtcpMuxPolicy'', JString ''require'')]
      in JObject (if ice_transports = [] then fields
                  else hm_insert ''iceTransports'' (JString ice_transports) fields))"

definition build_room_link :: "string \<Rightarrow> string \<Rightarrow> string \<Rightarrow> string option \<Rightarrow> string" where
  "build_room_link http_scheme host room_id query =
     http_scheme @ ''://'' @ host @ ''/r/'' @ room_id @
     (case query of None \<Rightarrow> [] | Some q \<Rightarrow> if q = [] then [] else ''?'' @ q)"

definition build_room_parameters ::
  "(json \<Rightarrow> string option) \<Rightarrow> ('u, 'z) url_api_scheme \<Rightarrow> Config \<Rightarrow> string \<Rightarrow> 'u \<Rightarrow> string \<Rightarrow> string \<Rightarrow>
   bool option \<Rightarrow> RoomParameters" where
  "build_room_parameters to_string U config req_host url room_id client_id is_initiator =
     (let (http_scheme, ws_scheme, host) = self_origin config req_host;
          wss_url = (if cf_signaling_ws_url config = [] then ws_scheme @ ''://'' @ host @ ''/ws''
                     else trim_end_matches CHR ''/'' (cf_signaling_ws_url config));
          wss_post_url = http_scheme @ ''://'' @ host;
          pc_config = build_pc_config config (query_get U url ''it'');
          base0 = query_get U url ''ts'';
          base1 = (if base0 = [] then cf_ice_server_base_url config else base0);
          base = (if base1 = [] then http_scheme @ ''://'' @ host else base1);
          ice_server_url = (if base = [] then []
                            else base @ ''/v1alpha/iceconfig?key='' @ cf_ice_server_api_key config);
          is_loopback = (query_get U url ''debug'' = ''loopback'');
          params = default_room_parameters\<lparr>
            rp_signaling_version := 1, rp_wss_url := wss_url, rp_wss_post_url := wss_post_url,
            rp_ice_server_url := ice_server_url, rp_ice_server_transports := query_get U url ''tt'',
            rp_header_message := cf_header_message config,
            rp_is_loopback := must_json to_string (JBool is_loopback),
            rp_pc_config := must_json to_string pc_config,
            rp_pc_constraints := must_json to_string (JObject [(''optional'', JArray [])]),
            rp_offer_options := ''{}'',
            rp_media_constraints := must_json to_string
              (JObject [(''audio'', JBool True), (''video'', JBool True)]),
            rp_bypass_join_confirmation := must_json to_string (JBool (cf_bypass_join_confirmation config)),
            rp_version_info := ''null'',
            rp_include_loopback_js :=
              (if is_loopback then ''<script src=\"/js/loopback.js\"></script>'' else [])\<rparr>;
          params = (if room_id = [] then params
                    else params\<lparr>rp_room_id := room_id,
                           rp_room_link := build_room_link http_scheme host room_id (url_query U url)\<rparr>);
          params = (if client_id = [] then params else params\<lparr>rp_client_id := client_id\<rparr>)
      in case is_initiator of
           None \<Rightarrow> params
         | Some b \<Rightarrow> params\<lparr>rp_is_initiator := bool_str b\<rparr>)"

definition build_v2_room_parameters ::
  "(json \<Rightarrow> string option) \<Rightarrow> ('u, 'z) url_api_scheme \<Rightarrow> Config \<Rightarrow> string \<Rightarrow> 'u \<Rightarrow> string \<Rightarrow>
   RoomParameters" where
  "build_v2_room_parameters to_string U config req_host url room_id =
     (let params = (build_room_parameters to_string U config req_host url room_id [] None)\<lparr>
            rp_signaling_version := 2, rp_wss_post_url := [], rp_is_loopback := ''false'',
            rp_include_loopback_js := []\<rparr>
      in if room_id = [] then params
         else params\<lparr>rp_room_link := replace_first ''/r/'' ''/v2/r/'' (rp_room_link params)\<rparr>)"

definition ice_config :: "Config \<Rightarrow> json" where
  "ice_config config =
     (if cf_ice_server_override config \<noteq> []
      then JObject [(''iceServers'', JArray (map ice_server_value (cf_ice_server_override config)))]
      else JObject [(''iceServers'', JArray
             (if cf_ice_server_urls config = [] then []
              else [JObject [(''urls'', JArray (map JString (cf_ice_server_urls config)))]]))])"

definition trim_collider_path :: "string \<Rightarrow> string list" where
  "trim_collider_path p = filter (\<lambda>s. s \<noteq> []) (split_on CHR ''/'' p)"

section \<open>Room links\<close>

lemma replace_first_skip:
  assumes "CHR ''/'' \<notin> set u"
  shows "replace_first (CHR ''/'' # p) t (u @ v) = u @ replace_first (CHR ''/'' # p) t v"
  using assms by (induction u) auto

text \<open>
  The first occurrence of \<open>/r/\<close> in a room link is the one after the host, unless the host is the
  single letter \<open>r\<close>.
\<close>

lemma replace_first_room_link:
  assumes "CHR ''/'' \<notin> set scheme" and "CHR ''/'' \<notin> set host" and "host \<noteq> ''r''"
  shows "replace_first ''/r/'' t (scheme @ ''://'' @ host @ ''/r/'' @ rest) =
    scheme @ ''://'' @ host @ t @ rest"
proof -
  have no: "\<not> prefix ''/r/'' (CHR ''/'' # host @ ''/r/'' @ rest)"
    using assms(2,3) by (cases host; cases "tl host") auto
  have "replace_first ''/r/'' t (CHR ''/'' # host @ ''/r/'' @ rest) =
      CHR ''/'' # replace_first ''/r/'' t (host @ ''/r/'' @ rest)"
    using no by (simp only: replace_first.simps if_False)
  also have "\<dots> = CHR ''/'' # host @ replace_first ''/r/'' t (''/r/'' @ rest)"
    using replace_first_skip [OF assms(2)] by simp
  finally have after: "replace_first ''/r/'' t (CHR ''/'' # host @ ''/r/'' @ rest) =
      CHR ''/'' # host @ t @ rest" by simp
  have "replace_first ''/r/'' t (scheme @ ''://'' @ host @ ''/r/'' @ rest) =
      scheme @ replace_first ''/r/'' t (''://'' @ host @ ''/r/'' @ rest)"
    by (rule replace_first_skip [OF assms(1)])
  then show ?thesis using after by simp
qed

lemma build_room_link_v1:
  "rp_room_link (build_room_parameters T U config h url room_id client_id ini) =
   (if room_id = [] then []
    else build_room_link (fst (self_origin config h)) (snd (snd (self_origin config h))) room_id
      (url_query U url))"
  by (simp add: build_room_parameters_def Let_def default_room_parameters_def
      split: prod.splits option.splits)

text \<open>
  The link of a V2 room page is the origin the server is reached at, then \<open>/v2/r/\<close>, the room and
  the query string of the request unchanged, for every configuration and request whose host has no
  slash and is not the single letter \<open>r\<close>. (For the host \<open>r\<close> the textual replacement hits the host.)
\<close>
lemma v2_room_link:
  assumes "room_id \<noteq> []" and "self_origin config req_host = (http_scheme, ws_scheme, host)"
    and "CHR ''/'' \<notin> set host" and "host \<noteq> ''r''"
  shows "rp_room_link (build_v2_room_parameters to_string U config req_host url room_id) =
    http_scheme @ ''://'' @ host @ ''/v2/r/'' @ room_id @
    (case url_query U url of None \<Rightarrow> [] | Some q \<Rightarrow> if q = [] then [] else ''?'' @ q)"
proof -
  have "CHR ''/'' \<notin> set http_scheme"
    using assms(2) by (auto simp: self_origin_def Let_def split: if_splits)
  note link = replace_first_room_link [OF this assms(3,4)]
  show ?thesis
    using assms(1,2) link [of "''/v2/r/''" "room_id @
      (case url_query U url of None \<Rightarrow> [] | Some q \<Rightarrow> if q = [] then [] else ''?'' @ q)"]
    by (simp add: build_v2_room_parameters_def Let_def build_room_link_v1 build_room_link_def
        del: replace_first.simps)
qed

definition sample_url_api :: "(string \<times> string) list url_api" where
  "sample_url_api = \<lparr>query_pairs = id,
     url_query = (\<lambda>pairs. if pairs = [] then None
                          else Some (concat (map (\<lambda>(k, v). k @ ''='' @ v) pairs)))\<rparr>"

text \<open>The hypothesis on the host is needed: with the host \<open>r\<close> the link leads to another host.\<close>

lemma v2_room_link_host_r:
  "rp_room_link (build_v2_room_parameters (\<lambda>_. None) sample_url_api default_config ''r'' [] ''42'') =
   ''http://v2/r/r/42''"
  by (simp add: build_v2_room_parameters_def Let_def build_room_link_v1 build_room_link_def
      self_origin_def default_config_def sample_url_api_def)

end
