(* ===== verification/Templates.thy ===== *)
theory Templates
  imports Params
begin

text \<open>
  The page templates (\<open>src/src/templates.rs\<close>): loading, escaping and the render context. The template
  engine is a parameter: whether a source parses, the error for a name that was not added, and what a
  parsed environment renders.
\<close>

section \<open>Loading\<close>

type_synonym template_env = "(string, string) hashmap"

datatype ctx_value = CtxText string | CtxNumber u8

type_synonym render_context = "(string \<times> ctx_value) list"

record minijinja_api =
  template_error :: "string \<Rightarrow> string \<Rightarrow> string option"
  missing_template :: "string \<Rightarrow> string"
  render :: "template_env \<Rightarrow> string \<Rightarrow> render_context \<Rightarrow> (string, string) result"

definition add_template :: "minijinja_api \<Rightarrow> string \<Rightarrow> string \<Rightarrow> template_env \<Rightarrow> (string, template_env) result" where
  "add_template J name source env =
     (case template_error J name source of
        Some e \<Rightarrow> Inl e | None \<Rightarrow> Inr (hm_insert name source env))"

definition from_sources_with_grid ::
  "minijinja_api \<Rightarrow> string \<Rightarrow> string \<Rightarrow> string \<Rightarrow> (string, template_env) result" where
  "from_sources_with_grid J index full grid =
     and_then (add_template J ''index'' index []) (\<lambda>env.
     and_then (add_template J ''full'' full env) (add_template J ''grid'' grid))"

definition load_templates ::
  "minijinja_api \<Rightarrow> (string \<Rightarrow> (string, string) result) \<Rightarrow> (string \<Rightarrow> string \<Rightarrow> string) \<Rightarrow> string \<Rightarrow>
   (string, template_env) result" where
  "load_templates J read_to_string join web_root =
     (let dir = join web_root ''html''
      in and_then (read_to_string (join dir ''index_template.html'')) (\<lambda>index.
         and_then (read_to_string (join dir ''full_template.html'')) (\<lambda>full.
         and_then (read_to_string (join dir ''grid_template.html'')) (\<lambda>grid.
           from_sources_with_grid J index full grid))))"

section \<open>Escaping and the render context\<close>

definition escape_char :: "char \<Rightarrow> string" where
  "escape_char c =
     (if c = CHR ''&'' then ''&amp;''
      else if c = CHR ''<'' then ''&lt;''
      else if c = CHR ''>'' then ''&gt;''
      else if c = CHR 0x22 then ''&#34;''
      else if c = CHR 0x27 then ''&#39;''
      else [c])"

definition escape :: "string \<Rightarrow> string" where
  "escape s = concat (map escape_char s)"

definition string_list_text :: "(json \<Rightarrow> string option) \<Rightarrow> string list \<Rightarrow> string" where
  "string_list_text to_string xs =
     (case to_string (JArray (map JString xs)) of None \<Rightarrow> ''null'' | Some s \<Rightarrow> s)"

definition context_for :: "(json \<Rightarrow> string option) \<Rightarrow> RoomParameters \<Rightarrow> render_context" where
  "context_for to_string p =
    [(''room_id'', CtxText (escape (rp_room_id p))),
     (''room_link'', CtxText (escape (rp_room_link p))),
     (''header_message'', CtxText (escape (rp_header_message p))),
     (''wss_url'', CtxText (escape (rp_wss_url p))),
     (''wss_post_url'', CtxText (escape (rp_wss_post_url p))),
     (''signaling_version'', CtxNumber (rp_signaling_version p)),
     (''ice_server_url'', CtxText (escape (rp_ice_server_url p))),
     (''ice_server_transports'', CtxText (escape (rp_ice_server_transports p))),
     (''error_messages'', CtxText (string_list_text to_string (rp_error_messages p))),
     (''warning_messages'', CtxText (string_list_text to_string (rp_warning_messages p))),
     (''is_loopback'', CtxText (rp_is_loopback p)),
     (''media_constraints'', CtxText (rp_media_constraints p)),
     (''offer_options'', CtxText (rp_offer_options p)),
     (''pc_config'', CtxText (rp_pc_config p)),
     (''pc_constraints'', CtxText (rp_pc_constraints p)),
     (''bypass_join_confirmation'', CtxText (rp_bypass_join_confirmation p)),
     (''version_info'', CtxText (rp_version_info p)),
     (''include_loopback_js'', CtxText (rp_include_loopback_js p))]"

definition render_named ::
  "minijinja_api \<Rightarrow> (json \<Rightarrow> string option) \<Rightarrow> string \<Rightarrow> template_env \<Rightarrow> RoomParameters \<Rightarrow>
   (string, string) result" where
  "render_named J to_string name env p =
     (case hm_get env name of
        None \<Rightarrow> Inl (missing_template J name)
      | Some _ \<Rightarrow> render J env name (context_for to_string p))"

definition render_index where "render_index J to_string env p = render_named J to_string ''index'' env p"
definition render_full where "render_full J to_string env p = render_named J to_string ''full'' env p"

text \<open>A loaded environment has the two templates the handlers ask for.\<close>

lemma load_templates_names:
  assumes "load_templates J rd join web_root = Inr env"
  shows "hm_get env ''index'' \<noteq> None \<and> hm_get env ''full'' \<noteq> None \<and> hm_get env ''grid'' \<noteq> None"
  using assms
  by (auto simp: load_templates_def Let_def from_sources_with_grid_def add_template_def
      and_then_Ok_iff hm_simps split: option.splits)

section \<open>What escaping guarantees\<close>

definition html_specials :: "char set" where
  "html_specials = {CHR ''<'', CHR ''>'', CHR 0x22, CHR 0x27}"

text \<open>The reading of the five character references, left to right.\<close>

definition entities :: "(string \<times> char) list" where
  "entities = [(''&amp;'', CHR ''&''), (''&lt;'', CHR ''<''), (''&gt;'', CHR ''>''),
     (''&#34;'', CHR 0x22), (''&#39;'', CHR 0x27)]"

function unescape :: "string \<Rightarrow> string" where
  "unescape [] = []"
| "unescape (c # cs) =
     (case find (\<lambda>(e, _). prefix e (c # cs)) entities of
        None \<Rightarrow> c # unescape cs
      | Some (e, x) \<Rightarrow> x # unescape (drop (length e - 1) cs))"
  by pat_completeness auto
termination by (relation "measure length") auto

lemma unescape_escape: "unescape (escape s) = s"
proof (induction s)
  case (Cons c s)
  have "unescape (escape_char c @ r) = c # unescape r" for r
    by (simp add: escape_char_def entities_def)
  with Cons show ?case by (simp add: escape_def)
qed (simp add: escape_def)

lemma escape_char_specials: "set (escape_char c) \<inter> html_specials = {}"
  by (simp add: escape_char_def html_specials_def)

lemma escape_specials: "set (escape s) \<inter> html_specials = {}"
  using escape_char_specials by (induction s) (auto simp: escape_def)

text \<open>
  C39. Whatever the request and the configuration hold, every plain field of the render context is free
  of angle brackets and quotes, and reads back as the original text when character references are
  decoded: no value breaks out of an attribute, and nothing is lost or escaped twice.
\<close>
theorem context_fields_escaped:
  "\<forall>(name, v) \<in> set [(''room_id'', rp_room_id p), (''room_link'', rp_room_link p),
       (''header_message'', rp_header_message p), (''wss_url'', rp_wss_url p),
       (''wss_post_url'', rp_wss_post_url p), (''ice_server_url'', rp_ice_server_url p),
       (''ice_server_transports'', rp_ice_server_transports p)].
     \<exists>w. map_of (context_for to_string p) name = Some (CtxText w) \<and>
         set w \<inter> html_specials = {} \<and> unescape w = v"
  by (simp add: context_for_def unescape_escape escape_specials)

text \<open>At a room named \<open><script>\<close> the page receives the escaped text.\<close>

theorem context_fields_escaped_witness:
  "map_of (context_for (\<lambda>_. None) (default_room_parameters\<lparr>rp_room_id := ''<script>''\<rparr>)) ''room_id'' =
   Some (CtxText ''&lt;script&gt;'') \<and>
   (\<exists>w. map_of (context_for (\<lambda>_. None) (default_room_parameters\<lparr>rp_room_id := ''<script>''\<rparr>))
      ''room_id'' = Some (CtxText w) \<and> unescape w = ''<script>'')"
  using context_fields_escaped [of "default_room_parameters\<lparr>rp_room_id := ''<script>''\<rparr>" "\<lambda>_. None"]
  by (simp add: context_for_def escape_def escape_char_def default_room_parameters_def)

section \<open>The raw fields\<close>

text \<open>
  What \<open>serde_json::to_string\<close> documents for the values used here: it does not fail on a \<open>Value\<close>,
  a string without quotes, backslashes and control characters is printed between quotes as it is, and
  the text of an object contains the text of its members.
\<close>

definition json_plain :: "string \<Rightarrow> bool" where
  "json_plain s \<longleftrightarrow> (\<forall>c \<in> set s. c \<noteq> CHR 0x22 \<and> c \<noteq> CHR 0x5C \<and> 32 \<le> (of_char c :: nat))"

definition json_text_laws :: "(json \<Rightarrow> string option) \<Rightarrow> bool" where
  "json_text_laws to_string \<longleftrightarrow>
     (\<forall>v. to_string v \<noteq> None) \<and>
     (\<forall>s. json_plain s \<longrightarrow> to_string (JString s) = Some (CHR 0x22 # s @ [CHR 0x22])) \<and>
     (\<forall>m k v t u. hm_ok m \<and> (k, v) \<in> set m \<and> to_string v = Some t \<and> to_string (JObject m) = Some u \<longrightarrow>
        sublist t u)"

lemma pc_config_contains:
  assumes "json_text_laws to_string" and "json_plain s" and "s \<noteq> []"
  shows "sublist s (must_json to_string (build_pc_config config s))"
proof -
  obtain m where m: "build_pc_config config s = JObject m" "hm_ok m" "(''iceTransports'', JString s) \<in> set m"
    using assms(3) by (auto simp: build_pc_config_def Let_def)
  from assms(1) obtain u where u: "to_string (JObject m) = Some u"
    unfolding json_text_laws_def by fastforce
  have "to_string (JString s) = Some (CHR 0x22 # s @ [CHR 0x22])"
    using assms(1,2) unfolding json_text_laws_def by blast
  with assms(1) m u have "sublist (CHR 0x22 # s @ [CHR 0x22]) u"
    unfolding json_text_laws_def by blast
  moreover have "sublist s (CHR 0x22 # s @ [CHR 0x22])"
    using sublist_appendI [of s "[CHR 0x22]" "[CHR 0x22]"] by simp
  ultimately show ?thesis
    using u m(1) by (auto simp: must_json_def intro: sublist_order.order.trans)
qed

text \<open>
  C40. The field \<open>pc_config\<close>, which the page injects raw into its script, contains the query parameter
  \<open>it\<close> of the request verbatim whenever that text has no quotes, backslashes or control characters;
  in particular a value with \<open></script>\<close> in it ends the script element of the page.
\<close>
theorem pc_config_injects_query:
  assumes "json_text_laws to_string" and "json_plain s" and "s \<noteq> []" and "query_get U url ''it'' = s"
  shows "\<exists>v. map_of (context_for to_string
      (build_room_parameters to_string U config host url room_id client_id ini)) ''pc_config'' =
    Some (CtxText v) \<and> sublist s v"
proof -
  have "rp_pc_config (build_room_parameters to_string U config host url room_id client_id ini) =
      must_json to_string (build_pc_config config s)"
    using assms(4)
    by (simp add: build_room_parameters_def Let_def split: prod.splits option.splits)
  with pc_config_contains [OF assms(1-3), of config] show ?thesis
    by (simp add: context_for_def)
qed

text \<open>A printer that satisfies the laws.\<close>

fun sample_text :: "json \<Rightarrow> string" where
  "sample_text JNull = ''null''"
| "sample_text (JBool b) = bool_str b"
| "sample_text (JInt n) = ''0''"
| "sample_text (JFloat s) = s"
| "sample_text (JString s) =
     CHR 0x22 # (if json_plain s then s else ''?'') @ [CHR 0x22]"
| "sample_text (JArray vs) = ''['' @ concat (map (\<lambda>v. sample_text v @ '','') vs) @ '']''"
| "sample_text (JObject m) =
     ''{'' @ concat (map (\<lambda>(k, v). k @ '':'' @ sample_text v @ '','') m) @ ''}''"

lemma sublist_concat_map: "x \<in> set xs \<Longrightarrow> sublist (f x) (concat (map f xs))"
  by (induction xs) (auto simp: sublist_append)

lemma sample_text_laws: "json_text_laws (Some \<circ> sample_text)"
proof -
  have "sublist (sample_text v) (sample_text (JObject m))" if "(k, v) \<in> set m" for k v m
  proof -
    have "sublist (sample_text v) (k @ '':'' @ sample_text v @ '','')"
      using sublist_appendI [of "sample_text v" "k @ '':''" "'',''"] by simp
    also have "sublist \<dots> (concat (map (\<lambda>(k, v). k @ '':'' @ sample_text v @ '','') m))"
      using sublist_concat_map [OF that, of "\<lambda>(k, v). k @ '':'' @ sample_text v @ '',''"] by simp
    also have "sublist \<dots> (sample_text (JObject m))"
      by (simp only: sample_text.simps sublist_appendI)
    finally show ?thesis .
  qed
  then show ?thesis by (auto simp: json_text_laws_def)
qed

theorem pc_config_injects_query_witness:
  "\<exists>v. map_of (context_for (Some \<circ> sample_text)
      (build_room_parameters (Some \<circ> sample_text) sample_url_api default_config ''host''
         [(''it'', ''</script><script>'')] ''42'' [] None)) ''pc_config'' = Some (CtxText v) \<and>
    sublist ''</script><script>'' v"
  by (rule pc_config_injects_query [OF sample_text_laws])
    (simp_all add: json_plain_def query_get_def sample_url_api_def)

end
