(* ===== verification/Dashboard.thy ===== *)
theory Dashboard
  imports Json
begin

text \<open>
  The counters and the report of the status page (\<open>src/src/dashboard.rs\<close>). Instants and durations are
  natural numbers; the conversion of a duration to a floating-point number of seconds and its text is
  the argument \<open>as_secs\<close>. A counter is a \<open>u64\<close>; its increment wraps around, as in a release build.
\<close>

record StatusReport =
  sr_up_time_sec :: string
  sr_open_ws :: u64
  sr_total_ws :: u64
  sr_ws_errs :: u64
  sr_http_errs :: u64

definition status_report_value :: "StatusReport \<Rightarrow> json" where
  "status_report_value r = JObject
     [(''upsec'', JFloat (sr_up_time_sec r)), (''openws'', JInt (uint (sr_open_ws r))),
      (''totalws'', JInt (uint (sr_total_ws r))), (''wserrors'', JInt (uint (sr_ws_errs r))),
      (''httperrors'', JInt (uint (sr_http_errs r)))]"

record Dashboard =
  db_start_time :: nat
  db_total_ws :: u64
  db_total_recv_msgs :: u64
  db_total_send_msgs :: u64
  db_ws_errs :: u64
  db_http_errs :: u64

definition new_dashboard :: "nat \<Rightarrow> Dashboard" where
  "new_dashboard now = \<lparr>db_start_time = now, db_total_ws = 0, db_total_recv_msgs = 0,
     db_total_send_msgs = 0, db_ws_errs = 0, db_http_errs = 0\<rparr>"

text \<open>\<open>duration_since\<close> is zero when the argument is later.\<close>

definition get_report :: "(nat \<Rightarrow> string) \<Rightarrow> Dashboard \<Rightarrow> nat \<Rightarrow> u64 \<Rightarrow> StatusReport" where
  "get_report as_secs d now open_ws =
     \<lparr>sr_up_time_sec = as_secs (now - db_start_time d), sr_open_ws = open_ws,
      sr_total_ws = db_total_ws d, sr_ws_errs = db_ws_errs d, sr_http_errs = db_http_errs d\<rparr>"

definition incr_ws :: "Dashboard \<Rightarrow> Dashboard" where
  "incr_ws d = d\<lparr>db_total_ws := db_total_ws d + 1\<rparr>"

definition on_ws_err :: "Dashboard \<Rightarrow> Dashboard" where
  "on_ws_err d = d\<lparr>db_ws_errs := db_ws_errs d + 1\<rparr>"

definition on_http_err :: "Dashboard \<Rightarrow> Dashboard" where
  "on_http_err d = d\<lparr>db_http_errs := db_http_errs d + 1\<rparr>"

section \<open>The report counts the calls\<close>

datatype dashboard_call = IncrWs | OnWsErr | OnHttpErr

fun dashboard_apply :: "dashboard_call \<Rightarrow> Dashboard \<Rightarrow> Dashboard" where
  "dashboard_apply IncrWs = incr_ws"
| "dashboard_apply OnWsErr = on_ws_err"
| "dashboard_apply OnHttpErr = on_http_err"

lemma dashboard_calls:
  "fold dashboard_apply calls d = d\<lparr>
     db_total_ws := db_total_ws d + of_nat (count_list calls IncrWs),
     db_ws_errs := db_ws_errs d + of_nat (count_list calls OnWsErr),
     db_http_errs := db_http_errs d + of_nat (count_list calls OnHttpErr)\<rparr>"
proof (induction calls arbitrary: d)
  case (Cons c calls)
  then show ?case
    by (cases c) (simp_all add: incr_ws_def on_ws_err_def on_http_err_def)
qed simp

lemma get_report_counts:
  "get_report as_secs (fold dashboard_apply calls (new_dashboard start)) now open_ws =
   \<lparr>sr_up_time_sec = as_secs (now - start), sr_open_ws = open_ws,
    sr_total_ws = of_nat (count_list calls IncrWs), sr_ws_errs = of_nat (count_list calls OnWsErr),
    sr_http_errs = of_nat (count_list calls OnHttpErr)\<rparr>"
  by (simp add: dashboard_calls get_report_def new_dashboard_def)

end
