(* ===== verification/Grpc_Client.thy ===== *)
theory Grpc_Client
  imports Grpc_Service Decimal
begin

text \<open>
  The edge's client of the signaling service (\<open>src/src/grpc_client.rs\<close>): \<open>GrpcAuthority\<close>, the
  remote implementation of \<open>RoomAuthority\<close>. The channel is an argument, a function from a request
  to the service's answer that threads the state behind it; the text of a transport error and the
  names of the generated error codes are the fields of \<open>client_api\<close>.
\<close>

record client_api =
  show_status :: "grpc_status \<Rightarrow> string"
  as_str_name :: "ErrorCode \<Rightarrow> string"

record Admission =
  adm_is_initiator :: bool
  adm_messages :: "string list"

record V2Admission =
  v2a_mode :: RoomMode
  v2a_signal_epoch :: u64
  v2a_admission_token :: string
  v2a_is_initiator :: "bool option"

record StatusSnapshot =
  sn_rooms :: u64
  sn_clients :: u64
  sn_websocket_connections :: u64
  sn_total_websocket_connections :: u64
  sn_websocket_errors :: u64

record grpc_authority =
  ga_instance_id :: string
  ga_next_request_id :: u64

section \<open>Requests and responses\<close>

definition grpc_context :: "grpc_authority \<Rightarrow> RequestContext \<times> grpc_authority" where
  "grpc_context g =
     (let (request_id, next_id) = next_nonzero (ga_next_request_id g)
      in (\<lparr>ctx_app_id = Known AppId_Apprtc, ctx_instance_id = ga_instance_id g,
           ctx_request_id = request_id\<rparr>, g\<lparr>ga_next_request_id := next_id\<rparr>))"

definition grpc_error :: "client_api \<Rightarrow> string \<Rightarrow> grpc_status \<Rightarrow> string" where
  "grpc_error C operation err = ''signaling '' @ operation @ '' failed: '' @ show_status C err"

definition response_request_id :: "u64 option \<Rightarrow> u64 \<Rightarrow> (string, unit) result" where
  "response_request_id context expected =
     and_then (ok_or context ''signaling response missing context'') (\<lambda>actual.
       if actual = expected then Inr ()
       else Inl (''signaling response request_id mismatch: expected '' @ u64_to_string expected @
                 '', received '' @ u64_to_string actual))"

definition client_domain_error :: "client_api \<Rightarrow> pb_error \<Rightarrow> string" where
  "client_domain_error C err =
     (if err_reason err = []
      then (case err_code err of
              Known code \<Rightarrow> as_str_name C code
            | Unknown _ \<Rightarrow> ''UNKNOWN_SIGNALING_ERROR'')
      else err_reason err)"

text \<open>
  The steps all eight calls share: draw a request id, call, check the echoed id, read the result.
\<close>

definition authority_call ::
  "client_api \<Rightarrow> string \<Rightarrow> string \<Rightarrow> (RequestContext \<Rightarrow> 'q) \<Rightarrow>
   ('q \<Rightarrow> 's \<Rightarrow> (grpc_status, 'a rpc_response) result \<times> 's) \<Rightarrow> ('a \<Rightarrow> (string, 'b) result) \<Rightarrow>
   grpc_authority \<Rightarrow> 's \<Rightarrow> (string, 'b) result \<times> grpc_authority \<times> 's" where
  "authority_call C operation missing build transport reading g s =
     (let (context, g') = grpc_context g;
          (outcome, s') = transport (build context) s
      in ((case outcome of
             Inl status \<Rightarrow> Inl (grpc_error C operation status)
           | Inr response \<Rightarrow>
               and_then (response_request_id (rs_context response) (ctx_request_id context)) (\<lambda>_.
                 case rs_result response of
                   Some (Inr payload) \<Rightarrow> reading payload
                 | Some (Inl err) \<Rightarrow> Inl (client_domain_error C err)
                 | None \<Rightarrow> Inl missing)), g', s'))"

definition operation_result_missing :: "string \<Rightarrow> string" where
  "operation_result_missing operation = ''signaling '' @ operation @ '' response missing result''"

section \<open>The eight calls\<close>

definition authority_admit where
  "authority_admit C transport roomid clientid is_loopback =
     authority_call C ''admit_v1'' ''signaling admission response missing result''
       (\<lambda>context. \<lparr>rq_context = Some context, rq_room = roomid, rq_client = clientid,
          rq_is_loopback = is_loopback\<rparr>) transport
       (\<lambda>admitted. Inr \<lparr>adm_is_initiator = ad_is_initiator admitted,
          adm_messages = ad_messages admitted\<rparr>)"

definition authority_remove where
  "authority_remove C transport roomid clientid =
     authority_call C ''remove_v1'' (operation_result_missing ''remove_v1'')
       (\<lambda>context. \<lparr>rq_context = Some context, rq_room = roomid, rq_client = clientid\<rparr>) transport
       (\<lambda>_ :: unit. Inr ())"

definition authority_occupancy where
  "authority_occupancy C transport roomid =
     authority_call C ''occupancy_v1'' ''signaling occupancy response missing result''
       (\<lambda>context. \<lparr>rq_context = Some context, rq_room = roomid\<rparr>) transport
       (\<lambda>occupancy. Inr (oc_member_count occupancy))"

definition authority_inject where
  "authority_inject C transport roomid clientid msg =
     authority_call C ''inject_v1'' (operation_result_missing ''inject_v1'')
       (\<lambda>context. \<lparr>rq_context = Some context, rq_room = roomid, rq_client = clientid,
          rq_message_json = msg\<rparr>) transport
       (\<lambda>_ :: unit. Inr ())"

definition read_v2_admission :: "v2_admission \<Rightarrow> (string, V2Admission) result" where
  "read_v2_admission admitted =
     (case av_mode admitted of
        Unknown _ \<Rightarrow> Inl ''UNSUPPORTED_ROOM_MODE''
      | Known mode \<Rightarrow>
          if \<not> (mode = ModeP2p \<or> mode = ModeSfu) then Inl ''ROOM_TRANSITION''
          else if mode = ModeP2p \<and> av_is_initiator admitted = None
          then Inl ''P2P admission missing is_initiator''
          else if av_admission_token admitted = [] then Inl ''V2 admission missing admission_token''
          else Inr \<lparr>v2a_mode = mode, v2a_signal_epoch = av_signal_epoch admitted,
                    v2a_admission_token = av_admission_token admitted,
                    v2a_is_initiator = av_is_initiator admitted\<rparr>)"

definition authority_admit_v2 where
  "authority_admit_v2 C U transport room_id client_id =
     authority_call C ''admit_v2'' ''signaling V2 admission response missing result''
       (\<lambda>context. \<lparr>rq_context = Some context, rq_room = room_id_to_bytes U room_id,
          rq_client = client_id\<rparr>) transport read_v2_admission"

definition authority_remove_v2 where
  "authority_remove_v2 C U transport room_id client_id admission_token =
     authority_call C ''remove_v2'' (operation_result_missing ''remove_v2'')
       (\<lambda>context. \<lparr>rq_context = Some context, rq_room = room_id_to_bytes U room_id,
          rq_client = client_id, rq_admission_token = admission_token\<rparr>) transport
       (\<lambda>_ :: unit. Inr ())"

definition authority_occupancy_v2 where
  "authority_occupancy_v2 C U transport room_id =
     authority_call C ''occupancy_v2'' ''signaling V2 occupancy response missing result''
       (\<lambda>context. \<lparr>rq_context = Some context, rq_room = room_id_to_bytes U room_id\<rparr>) transport
       (\<lambda>occupancy. if oc_mode occupancy \<noteq> Known ModeP2p then Inl ''UNSUPPORTED_ROOM_MODE''
          else Inr (oc_member_count occupancy))"

definition authority_status where
  "authority_status C transport =
     authority_call C ''get_status'' ''signaling status response missing result''
       (\<lambda>context. \<lparr>rq_context = Some context\<rparr>) transport
       (\<lambda>st. Inr \<lparr>sn_rooms = sm_v1_rooms st, sn_clients = sm_clients st,
          sn_websocket_connections = sm_browser_websocket_connections st,
          sn_total_websocket_connections = sm_total_browser_websocket_connections st,
          sn_websocket_errors = sm_browser_websocket_errors st\<rparr>)"

section \<open>Responses are checked\<close>

lemma response_request_id_Ok_iff: "response_request_id ctx q = Inr () \<longleftrightarrow> ctx = Some q"
  by (cases ctx) (auto simp: response_request_id_def)

text \<open>
  A call of the client succeeds only with a response that echoes the request id drawn for it;
  that id is nonzero, it is put into the request together with the client's instance and the AppRTC
  application id, and the next call draws its successor.
\<close>

lemma authority_call_correlated:
  assumes "authority_call C operation missing build transport reading g s = (Inr b, g', s')"
  shows "\<exists>q response payload. q \<noteq> 0 \<and> ga_next_request_id g' = q + 1 \<and>
    ga_instance_id g' = ga_instance_id g \<and>
    transport (build \<lparr>ctx_app_id = Known AppId_Apprtc, ctx_instance_id = ga_instance_id g,
      ctx_request_id = q\<rparr>) s = (Inr response, s') \<and>
    rs_context response = Some q \<and> rs_result response = Some (Inr payload) \<and>
    reading payload = Inr b"
proof -
  let ?q = "fst (next_nonzero (ga_next_request_id g))"
  have q: "?q \<noteq> 0" "snd (next_nonzero (ga_next_request_id g)) = ?q + 1"
    using ids.draw_nonzero ids.draw_next by simp_all
  from assms obtain response where r:
    "transport (build \<lparr>ctx_app_id = Known AppId_Apprtc, ctx_instance_id = ga_instance_id g,
      ctx_request_id = ?q\<rparr>) s = (Inr response, s')"
    "rs_context response = Some ?q" "\<exists>payload. rs_result response = Some (Inr payload) \<and>
       reading payload = Inr b" "g' = g\<lparr>ga_next_request_id := snd (next_nonzero (ga_next_request_id g))\<rparr>"
    by (auto simp: authority_call_def grpc_context_def Let_def and_then_Ok_iff response_request_id_Ok_iff
             split: prod.splits sum.splits option.splits)
  with q show ?thesis by auto
qed

definition sample_client_api :: client_api where
  "sample_client_api = \<lparr>show_status = snd, as_str_name = (\<lambda>_. ''ERROR'')\<rparr>"

definition sample_transport :: "RequestContext \<Rightarrow> unit \<Rightarrow> (grpc_status, unit rpc_response) result \<times> unit" where
  "sample_transport c s =
     (Inr \<lparr>rs_context = Some (ctx_request_id c), rs_result = Some (Inr ())\<rparr>, s)"

lemma sample_call:
  "authority_call sample_client_api ''op'' ''m'' id sample_transport Inr
     \<lparr>ga_instance_id = ''a'', ga_next_request_id = 5\<rparr> () =
   (Inr (), \<lparr>ga_instance_id = ''a'', ga_next_request_id = 6\<rparr>, ())"
  by (simp add: authority_call_def grpc_context_def next_nonzero_eq response_request_id_def
      sample_transport_def)

section \<open>The remote authority over the service\<close>

text \<open>
  How the outcome of an operation reaches the caller of the remote authority: a transport error is
  rendered, a domain error is its reason, and a result is read by the call.
\<close>

definition remote_outcome ::
  "client_api \<Rightarrow> string \<Rightarrow> (authority_result \<Rightarrow> (string, 'b) result option) \<Rightarrow>
   (grpc_status, authority_result) result \<Rightarrow> (string, 'b) result" where
  "remote_outcome C operation expected outcome =
     (case outcome of
        Inl status \<Rightarrow> Inl (grpc_error C operation status)
      | Inr (ErrorResult reason) \<Rightarrow>
          Inl (if reason = [] then as_str_name C InvalidRequest else reason)
      | Inr r \<Rightarrow>
          (case expected r of
             Some b \<Rightarrow> b
           | None \<Rightarrow> Inl (grpc_error C operation (GrpcInternal, ''unexpected authority response''))))"

lemma domain_error_empty: "err_code (domain_error []) = Known InvalidRequest"
  by (simp add: domain_error_def domain_error_code_def)

lemma client_domain_error_server:
  "client_domain_error C (domain_error reason) =
   (if reason = [] then as_str_name C InvalidRequest else reason)"
  using domain_error_empty by (simp add: client_domain_error_def) (simp add: domain_error_def)

lemma authority_call_handle_rpc:
  assumes "grpc_context g = (context, g')" and "prepared (build context) = Inr (context, operation)"
    and "\<And>r. respond context r =
      (case r of ErrorResult reason \<Rightarrow> respond_with context (Inl (domain_error reason))
       | _ \<Rightarrow> (case payload r of Some p \<Rightarrow> respond_with context (Inr p) | None \<Rightarrow> unexpected))"
    and "execute context operation s = (outcome, s')"
  shows "authority_call C name missing build
      (\<lambda>rq. handle_rpc execute (prepared rq) respond) reading g s =
    (remote_outcome C name (\<lambda>r. map_option reading (payload r)) outcome, g', s')"
proof -
  have id: "response_context (ctx_request_id context) = Some (ctx_request_id context)"
    by (simp add: response_context_def)
  have "(case and_then outcome (respond context) of
          Inl status \<Rightarrow> Inl (grpc_error C name status)
        | Inr response \<Rightarrow> and_then (response_request_id (rs_context response) (ctx_request_id context))
            (\<lambda>_. case rs_result response of Some (Inr p) \<Rightarrow> reading p
              | Some (Inl err) \<Rightarrow> Inl (client_domain_error C err) | None \<Rightarrow> Inl missing)) =
        remote_outcome C name (\<lambda>r. map_option reading (payload r)) outcome"
    unfolding remote_outcome_def
    by (auto simp: assms(3) respond_with_def id response_request_id_def unexpected_def
        client_domain_error_server split: sum.splits authority_result.splits option.splits)
  with assms(1,2,4) show ?thesis
    by (simp add: authority_call_def handle_rpc_def split: option.splits)
qed

definition remote_run ::
  "client_api \<Rightarrow> string \<Rightarrow> (authority_result \<Rightarrow> (string, 'b) result option) \<Rightarrow> grpc_authority \<Rightarrow>
   (grpc_status, authority_result) result \<times> 's \<Rightarrow> (string, 'b) result \<times> grpc_authority \<times> 's" where
  "remote_run C name expected g os = (remote_outcome C name expected (fst os), g, snd os)"

lemma authority_call_remote_run:
  assumes "grpc_context g = (context, g')" and "prepared (build context) = Inr (context, operation)"
    and "\<And>r. respond context r =
      (case r of ErrorResult reason \<Rightarrow> respond_with context (Inl (domain_error reason))
       | _ \<Rightarrow> (case payload r of Some p \<Rightarrow> respond_with context (Inr p) | None \<Rightarrow> unexpected))"
    and "\<And>r. map_option reading (payload r) = expected r"
  shows "authority_call C name missing build
      (\<lambda>rq. handle_rpc execute (prepared rq) respond) reading g s =
    remote_run C name expected g' (execute context operation s)"
proof -
  obtain outcome s' where ex: "execute context operation s = (outcome, s')"
    by (cases "execute context operation s")
  have "authority_call C name missing build (\<lambda>rq. handle_rpc execute (prepared rq) respond) reading g s =
      (remote_outcome C name (\<lambda>r. map_option reading (payload r)) outcome, g', s')"
    using assms(1-3) ex by (rule authority_call_handle_rpc)
  then show ?thesis using ex assms(4) by (simp add: remote_run_def)
qed

lemma grpc_context_valid:
  assumes "grpc_context g = (context, g')" and "ga_instance_id g \<noteq> []"
  shows "app_context (Some context) = Inr context"
  using assms ids.draw_nonzero [of "ga_next_request_id g"]
  by (auto simp: grpc_context_def app_context_Ok_iff split: prod.splits)

definition ok_unit :: "authority_result \<Rightarrow> unit option" where
  "ok_unit r = (if r \<in> {Removed, RemovedV2, Injected} then Some () else None)"

lemma operation_response_cases:
  "operation_response context r =
   (case r of ErrorResult reason \<Rightarrow> respond_with context (Inl (domain_error reason))
    | _ \<Rightarrow> (case ok_unit r of Some p \<Rightarrow> respond_with context (Inr p) | None \<Rightarrow> unexpected))"
  by (simp add: operation_response_def ok_unit_def split: authority_result.splits)

lemma remote_admit:
  assumes "grpc_context g = (context, g')" and "ga_instance_id g \<noteq> []"
    and "roomid \<noteq> []" and "clientid \<noteq> []"
  shows "authority_admit C (admit_v1 execute now) roomid clientid is_loopback g s =
    remote_run C ''admit_v1''
      (\<lambda>r. case r of Admitted i ms \<Rightarrow> Some (Inr \<lparr>adm_is_initiator = i, adm_messages = ms\<rparr>) | _ \<Rightarrow> None)
      g' (execute context (Admit roomid clientid is_loopback now) s)"
  unfolding authority_admit_def admit_v1_def
  by (rule authority_call_remote_run [OF assms(1), where payload =
        "\<lambda>r. case r of Admitted i ms \<Rightarrow> Some \<lparr>ad_is_initiator = i, ad_messages = ms\<rparr> | _ \<Rightarrow> None"])
     (simp_all add: grpc_context_valid [OF assms(1,2)] assms split: authority_result.splits)

lemma remote_remove:
  assumes "grpc_context g = (context, g')" and "ga_instance_id g \<noteq> []"
    and "roomid \<noteq> []" and "clientid \<noteq> []"
  shows "authority_remove C (remove_v1 execute) roomid clientid g s =
    remote_run C ''remove_v1'' (map_option Inr \<circ> ok_unit) g' (execute context (Remove roomid clientid) s)"
  unfolding authority_remove_def remove_v1_def
  by (rule authority_call_remote_run [OF assms(1), where payload = ok_unit])
     (simp_all add: grpc_context_valid [OF assms(1,2)] assms operation_response_cases)

lemma remote_occupancy:
  assumes "grpc_context g = (context, g')" and "ga_instance_id g \<noteq> []" and "roomid \<noteq> []"
  shows "authority_occupancy C (occupancy_v1 execute) roomid g s =
    remote_run C ''occupancy_v1'' (\<lambda>r. case r of OccupancyCount n \<Rightarrow> Some (Inr n) | _ \<Rightarrow> None) g'
      (execute context (Occupancy roomid) s)"
  unfolding authority_occupancy_def occupancy_v1_def
  by (rule authority_call_remote_run [OF assms(1), where payload =
        "\<lambda>r. case r of OccupancyCount n \<Rightarrow> Some \<lparr>oc_member_count = n, oc_mode = Known ModeP2p\<rparr> | _ \<Rightarrow> None"])
     (simp_all add: grpc_context_valid [OF assms(1,2)] assms split: authority_result.splits)

lemma remote_inject:
  assumes "grpc_context g = (context, g')" and "ga_instance_id g \<noteq> []"
    and "roomid \<noteq> []" and "clientid \<noteq> []" and "msg \<noteq> []"
  shows "authority_inject C (inject_v1 execute now) roomid clientid msg g s =
    remote_run C ''inject_v1'' (map_option Inr \<circ> ok_unit) g'
      (execute context (Inject roomid clientid msg now) s)"
  unfolding authority_inject_def inject_v1_def
  by (rule authority_call_remote_run [OF assms(1), where payload = ok_unit])
     (simp_all add: grpc_context_valid [OF assms(1,2)] assms operation_response_cases)


definition sample_execute :: "('r, nat) executor" where
  "sample_execute context operation s =
     ((case operation of Admit _ _ _ _ \<Rightarrow> Inr (Admitted True [''hello'']) | _ \<Rightarrow> Inr (ErrorResult ''FULL'')),
      s + 1)"


lemma remote_admit_v2:
  assumes "grpc_context g = (context, g')" and "ga_instance_id g \<noteq> []"
    and "uuid_laws U" and "is_room_uuid U room_id"
  shows "authority_admit_v2 C U (admit_v2 U execute bytes now) room_id client_id g s =
    remote_run C ''admit_v2''
      (\<lambda>r. case r of AdmittedV2 mode epoch token initiator \<Rightarrow> Some (read_v2_admission
          \<lparr>av_mode = Known (proto_room_mode mode), av_signal_epoch = epoch,
           av_admission_token = token, av_is_initiator = initiator\<rparr>) | _ \<Rightarrow> None)
      g' (execute context (AdmitV2 room_id client_id (new_admission_token bytes) now) s)"
  unfolding authority_admit_v2_def admit_v2_def
  by (rule authority_call_remote_run [OF assms(1), where payload =
        "\<lambda>r. case r of AdmittedV2 mode epoch token initiator \<Rightarrow> Some
          \<lparr>av_mode = Known (proto_room_mode mode), av_signal_epoch = epoch,
           av_admission_token = token, av_is_initiator = initiator\<rparr> | _ \<Rightarrow> None"])
     (simp_all add: grpc_context_valid [OF assms(1,2)] parse_wire_room_id_Ok [OF assms(3,4)]
        split: authority_result.splits)

lemma remote_remove_v2:
  assumes "grpc_context g = (context, g')" and "ga_instance_id g \<noteq> []"
    and "uuid_laws U" and "is_room_uuid U room_id" and "token \<noteq> []"
  shows "authority_remove_v2 C U (remove_v2 U execute) room_id client_id token g s =
    remote_run C ''remove_v2'' (map_option Inr \<circ> ok_unit) g'
      (execute context (RemoveV2 room_id client_id token) s)"
  unfolding authority_remove_v2_def remove_v2_def
  by (rule authority_call_remote_run [OF assms(1), where payload = ok_unit])
     (simp_all add: grpc_context_valid [OF assms(1,2)] parse_wire_room_id_Ok [OF assms(3,4)] assms(5)
        operation_response_cases)

lemma remote_occupancy_v2:
  assumes "grpc_context g = (context, g')" and "ga_instance_id g \<noteq> []"
    and "uuid_laws U" and "is_room_uuid U room_id"
  shows "authority_occupancy_v2 C U (occupancy_v2 U execute) room_id g s =
    remote_run C ''occupancy_v2''
      (\<lambda>r. case r of OccupancyV2Count n mode \<Rightarrow>
         Some (if mode = P2p then Inr n else Inl ''UNSUPPORTED_ROOM_MODE'') | _ \<Rightarrow> None)
      g' (execute context (OccupancyV2 room_id) s)"
proof -
  have mode: "proto_room_mode mode = ModeP2p \<longleftrightarrow> mode = P2p" for mode by (cases mode) auto
  show ?thesis
    unfolding authority_occupancy_v2_def occupancy_v2_def
    by (rule authority_call_remote_run [OF assms(1), where payload =
          "\<lambda>r. case r of OccupancyV2Count n mode \<Rightarrow> Some \<lparr>oc_member_count = n,
             oc_mode = Known (proto_room_mode mode)\<rparr> | _ \<Rightarrow> None"])
       (simp_all add: grpc_context_valid [OF assms(1,2)] parse_wire_room_id_Ok [OF assms(3,4)] mode
          split: authority_result.splits)
qed

lemma read_v2_admission_mode:
  "read_v2_admission \<lparr>av_mode = Known (proto_room_mode mode), av_signal_epoch = epoch,
     av_admission_token = token, av_is_initiator = initiator\<rparr> =
   (if mode = Upgrading \<or> mode = Failed then Inl ''ROOM_TRANSITION''
    else if mode = P2p \<and> initiator = None then Inl ''P2P admission missing is_initiator''
    else if token = [] then Inl ''V2 admission missing admission_token''
    else Inr \<lparr>v2a_mode = proto_room_mode mode, v2a_signal_epoch = epoch,
              v2a_admission_token = token, v2a_is_initiator = initiator\<rparr>)"
  by (cases mode) (simp_all add: read_v2_admission_def)



end
