(* ===== verification/Room_Server.thy ===== *)
theory Room_Server
  imports Templates Dashboard Grpc_Client
begin

text \<open>
  The edge's HTTP handlers (\<open>src/src/room_server.rs\<close>). A handler receives what axum extracts from the
  request (path parameters, headers, the request target, the body) and returns the response and the
  changed server. Parsing of URLs and header values, the room token codec of the signaling crate and
  the printing of JSON are the fields of \<open>edge_api\<close>; the room authority behind the handlers is the
  record \<open>room_authority\<close>, one field per method of the trait.
\<close>

section \<open>The server\<close>

record ('u, 'r) edge_api = "'u url_api" +
  url_parse :: "string \<Rightarrow> (string, 'u) result"
  header_to_str :: "string \<Rightarrow> string option"
  parse_room_token :: "string \<Rightarrow> 'r option"
  json_to_string :: "json \<Rightarrow> string option"
  templates_api :: minijinja_api

record ('r, 's) room_authority =
  au_admit :: "string \<Rightarrow> string \<Rightarrow> bool \<Rightarrow> 's \<Rightarrow> (string, Admission) result \<times> 's"
  au_remove :: "string \<Rightarrow> string \<Rightarrow> 's \<Rightarrow> (string, unit) result \<times> 's"
  au_occupancy :: "string \<Rightarrow> 's \<Rightarrow> (string, u64) result \<times> 's"
  au_inject :: "string \<Rightarrow> string \<Rightarrow> string \<Rightarrow> 's \<Rightarrow> (string, unit) result \<times> 's"
  au_admit_v2 :: "'r \<Rightarrow> u64 \<Rightarrow> 's \<Rightarrow> (string, V2Admission) result \<times> 's"
  au_remove_v2 :: "'r \<Rightarrow> u64 \<Rightarrow> string \<Rightarrow> 's \<Rightarrow> (string, unit) result \<times> 's"
  au_occupancy_v2 :: "'r \<Rightarrow> 's \<Rightarrow> (string, u64) result \<times> 's"
  au_status :: "'s \<Rightarrow> (string, StatusSnapshot) result \<times> 's"

definition MAX_ROOM_CAPACITY :: u64 where "MAX_ROOM_CAPACITY = 2"
definition CLIENT_ID_ATTEMPTS :: nat where "CLIENT_ID_ATTEMPTS = 8"

text \<open>
  \<open>Inner\<close>: the configuration and templates, fixed for the life of the server, then what changes: the
  error counter and the state behind the authority.
\<close>

record 's inner =
  in_config :: Config
  in_templates :: template_env
  in_http_errors :: u64
  in_authority :: 's

type_synonym header_map = "(string \<times> string) list"

datatype body = EmptyBody | TextBody string | HtmlBody string | JsonBody json

record response =
  re_status :: nat
  re_headers :: "(string, string) hashmap"
  re_body :: body

abbreviation ok_response :: "body \<Rightarrow> response" where
  "ok_response b \<equiv> \<lparr>re_status = 200, re_headers = [], re_body = b\<rparr>"

definition result_json :: "string \<Rightarrow> response" where
  "result_json r = ok_response (JsonBody (JObject [(''result'', JString r)]))"

section \<open>Responses\<close>

definition join_response_value :: "string \<Rightarrow> RoomParameters \<Rightarrow> json" where
  "join_response_value r params =
     JObject [(''result'', JString r), (''params'', room_parameters_value params)]"

record V2JoinParameters =
  vj_client_id :: string
  vj_room_id :: string
  vj_room_link :: string
  vj_mode :: string
  vj_epoch :: string
  vj_wss_url :: string
  vj_admission_token :: string
  vj_is_initiator :: "bool option"

definition v2_join_parameters_value :: "V2JoinParameters \<Rightarrow> json" where
  "v2_join_parameters_value p = JObject
     ([(''client_id'', JString (vj_client_id p)), (''room_id'', JString (vj_room_id p)),
       (''room_link'', JString (vj_room_link p)), (''mode'', JString (vj_mode p)),
       (''epoch'', JString (vj_epoch p)), (''wss_url'', JString (vj_wss_url p)),
       (''admission_token'', JString (vj_admission_token p))] @
      (case vj_is_initiator p of None \<Rightarrow> [] | Some b \<Rightarrow> [(''is_initiator'', JBool b)]))"

definition v2_join_response_value :: "string \<Rightarrow> V2JoinParameters option \<Rightarrow> json" where
  "v2_join_response_value r params = JObject
     ((''result'', JString r) #
      (case params of None \<Rightarrow> [] | Some p \<Rightarrow> [(''params'', v2_join_parameters_value p)]))"

definition http_error :: "string \<Rightarrow> 's inner \<Rightarrow> response \<times> 's inner" where
  "http_error msg sv =
     (\<lparr>re_status = 500, re_headers = [], re_body = TextBody (msg @ [CHR 0x0A])\<rparr>,
      sv\<lparr>in_http_errors := in_http_errors sv + 1\<rparr>)"

definition cors :: "response \<Rightarrow> string \<Rightarrow> response" where
  "cors r methods =
     r\<lparr>re_headers := hm_insert ''access-control-allow-methods'' methods
        (hm_insert ''access-control-allow-origin'' ''*'' (re_headers r))\<rparr>"

definition cors_text :: "string \<Rightarrow> response" where
  "cors_text b = cors \<lparr>re_status = 200,
     re_headers = [(''content-type'', ''text/plain; charset=utf-8'')], re_body = TextBody b\<rparr>
     ''POST, DELETE''"

section \<open>Reading requests\<close>

definition request_context ::
  "('u, 'r, 'z) edge_api_scheme \<Rightarrow> header_map \<Rightarrow> string \<Rightarrow> (string, string \<times> 'u) result" where
  "request_context A headers uri =
     (let host = (case Option.bind (map_of headers ''host'') (header_to_str A) of
                    None \<Rightarrow> ''localhost'' | Some h \<Rightarrow> h)
      in case url_parse A (''http://'' @ host @ uri) of
           Inl error \<Rightarrow> Inl (''Invalid request URL: '' @ error)
         | Inr url \<Rightarrow> Inr (host, url))"

definition canonical_u64 :: "string \<Rightarrow> u64 option" where
  "canonical_u64 value =
     (if value = ''0'' then Some 0
      else if value = [] \<or> prefix ''0'' value \<or> \<not> list_all is_digit value then None
      else parse_u64 value)"

definition bearer_token :: "('u, 'r, 'z) edge_api_scheme \<Rightarrow> header_map \<Rightarrow> string option" where
  "bearer_token A headers =
     Option.bind (map_of headers ''authorization'') (\<lambda>value.
     Option.bind (header_to_str A value) (\<lambda>str.
       if prefix ''Bearer '' str \<and> drop 7 str \<noteq> [] then Some (drop 7 str) else None))"

section \<open>Pages\<close>

definition html_page ::
  "string \<Rightarrow> (string, string) result \<Rightarrow> 's inner \<Rightarrow> response \<times> 's inner" where
  "html_page what rendered sv =
     (case rendered of
        Inr b \<Rightarrow> (ok_response (HtmlBody b), sv)
      | Inl error \<Rightarrow> http_error (what @ error) sv)"

text \<open>The early return every handler that needs the request's URL starts with.\<close>

definition with_context ::
  "('u, 'r, 'z) edge_api_scheme \<Rightarrow> header_map \<Rightarrow> string \<Rightarrow>
   (string \<Rightarrow> 'u \<Rightarrow> 's inner \<Rightarrow> response \<times> 's inner) \<Rightarrow> 's inner \<Rightarrow> response \<times> 's inner" where
  "with_context A headers uri k sv =
     (case request_context A headers uri of
        Inl error \<Rightarrow> http_error error sv
      | Inr (host, url) \<Rightarrow> k host url sv)"

definition main_page ::
  "('u, 'r, 'z) edge_api_scheme \<Rightarrow> header_map \<Rightarrow> string \<Rightarrow> 's inner \<Rightarrow> response \<times> 's inner" where
  "main_page A headers uri = with_context A headers uri (\<lambda>host url sv.
     let params = build_room_parameters (json_to_string A) A (in_config sv) host url [] [] None
     in html_page ''Failed to render index: ''
          (render_index (templates_api A) (json_to_string A) (in_templates sv) params) sv)"

definition room_page ::
  "('u, 'r, 'z) edge_api_scheme \<Rightarrow> ('r, 's) room_authority \<Rightarrow> string \<Rightarrow> header_map \<Rightarrow> string \<Rightarrow>
   's inner \<Rightarrow> response \<times> 's inner" where
  "room_page A Au roomid headers uri = with_context A headers uri (\<lambda>host url sv.
     let (occupancy, s) = au_occupancy Au roomid (in_authority sv); sv = sv\<lparr>in_authority := s\<rparr>
     in case occupancy of
          Inl error \<Rightarrow> http_error error sv
        | Inr n \<Rightarrow>
            let params = build_room_parameters (json_to_string A) A (in_config sv) host url roomid [] None;
                page = (if MAX_ROOM_CAPACITY \<le> n then render_full else render_index)
            in html_page ''Failed to render page: ''
                 (page (templates_api A) (json_to_string A) (in_templates sv) params) sv)"

definition v2_room_page ::
  "('u, 'r, 'z) edge_api_scheme \<Rightarrow> string \<Rightarrow> header_map \<Rightarrow> string \<Rightarrow> 's inner \<Rightarrow> response \<times> 's inner" where
  "v2_room_page A roomid headers uri sv =
     (if parse_room_token A roomid = None then (result_json ''INVALID_ROOM_ID'', sv)
      else with_context A headers uri (\<lambda>host url sv.
        let params = build_v2_room_parameters (json_to_string A) A (in_config sv) host url roomid
        in html_page ''Failed to render V2 page: ''
             (render_index (templates_api A) (json_to_string A) (in_templates sv) params) sv) sv)"

definition params_page ::
  "('u, 'r, 'z) edge_api_scheme \<Rightarrow> header_map \<Rightarrow> string \<Rightarrow> 's inner \<Rightarrow> response \<times> 's inner" where
  "params_page A headers uri = with_context A headers uri (\<lambda>host url sv.
     (ok_response (JsonBody (room_parameters_value
        (build_room_parameters (json_to_string A) A (in_config sv) host url [] [] None))), sv))"

definition v2_params ::
  "('u, 'r, 'z) edge_api_scheme \<Rightarrow> header_map \<Rightarrow> string \<Rightarrow> 's inner \<Rightarrow> response \<times> 's inner" where
  "v2_params A headers uri = with_context A headers uri (\<lambda>host url sv.
     (ok_response (JsonBody (room_parameters_value
        (build_v2_room_parameters (json_to_string A) A (in_config sv) host url []))), sv))"

definition ice_config_page :: "'s inner \<Rightarrow> response \<times> 's inner" where
  "ice_config_page sv = (ok_response (JsonBody (ice_config (in_config sv))), sv)"

section \<open>Joining and leaving\<close>

text \<open>\<open>draws\<close> are the random draws for the client id.\<close>

definition join ::
  "('u, 'r, 'z) edge_api_scheme \<Rightarrow> ('r, 's) room_authority \<Rightarrow> (nat \<Rightarrow> nat) \<Rightarrow> string \<Rightarrow> header_map \<Rightarrow>
   string \<Rightarrow> 's inner \<Rightarrow> response \<times> 's inner" where
  "join A Au draws roomid headers uri = with_context A headers uri (\<lambda>host url sv.
     let clientid = generate_random 8 draws;
         is_loopback = list_ex (\<lambda>(key, value). key = ''debug'' \<and> value = ''loopback'') (query_pairs A url);
         (admitted, s) = au_admit Au roomid clientid is_loopback (in_authority sv);
         sv = sv\<lparr>in_authority := s\<rparr>
     in case admitted of
          Inr admission \<Rightarrow>
            let params = (build_room_parameters (json_to_string A) A (in_config sv) host url roomid clientid
                  (Some (adm_is_initiator admission)))\<lparr>rp_messages := adm_messages admission\<rparr>
            in (ok_response (JsonBody (join_response_value ''SUCCESS'' params)), sv)
        | Inl r \<Rightarrow> (ok_response (JsonBody (join_response_value r default_room_parameters)), sv))"

datatype v2_join_outcome = Joined u64 V2Admission | Rejected string | Exhausted

text \<open>The loop over the attempts; \<open>draws\<close> gives the client id each one draws.\<close>

fun v2_join_loop ::
  "('r \<Rightarrow> u64 \<Rightarrow> 's \<Rightarrow> (string, V2Admission) result \<times> 's) \<Rightarrow> 'r \<Rightarrow> (nat \<Rightarrow> u64) \<Rightarrow> nat list \<Rightarrow> 's \<Rightarrow>
   v2_join_outcome \<times> 's" where
  "v2_join_loop admit room_id draws [] s = (Exhausted, s)"
| "v2_join_loop admit room_id draws (attempt # attempts) s =
     (case admit room_id (draws attempt) s of
        (Inr admission, s') \<Rightarrow> (Joined (draws attempt) admission, s')
      | (Inl error, s') \<Rightarrow>
          if error = ''DUPLICATE_CLIENT'' \<and> attempt < CLIENT_ID_ATTEMPTS
          then v2_join_loop admit room_id draws attempts s'
          else (Rejected error, s'))"

text \<open>The mode text; any other mode reaches the \<open>unreachable!\<close> of the source, a panic.\<close>

fun v2_join_mode :: "RoomMode \<Rightarrow> string option" where
  "v2_join_mode ModeP2p = Some ''p2p''"
| "v2_join_mode ModeSfu = Some ''sfu''"
| "v2_join_mode _ = None"

definition v2_join_parameters ::
  "RoomParameters \<Rightarrow> string \<Rightarrow> u64 \<Rightarrow> V2Admission \<Rightarrow> string \<Rightarrow> V2JoinParameters" where
  "v2_join_parameters params roomid client_id admission mode =
     \<lparr>vj_client_id = u64_to_string client_id, vj_room_id = roomid, vj_room_link = rp_room_link params,
      vj_mode = mode, vj_epoch = u64_to_string (v2a_signal_epoch admission),
      vj_wss_url = rp_wss_url params, vj_admission_token = v2a_admission_token admission,
      vj_is_initiator = v2a_is_initiator admission\<rparr>"

text \<open>\<open>None\<close> is the panic.\<close>

definition v2_join ::
  "('u, 'r, 'z) edge_api_scheme \<Rightarrow> ('r, 's) room_authority \<Rightarrow> (nat \<Rightarrow> u64) \<Rightarrow> string \<Rightarrow> header_map \<Rightarrow>
   string \<Rightarrow> 's inner \<Rightarrow> response option \<times> 's inner" where
  "v2_join A Au draws roomid headers uri sv =
     (case parse_room_token A roomid of
        None \<Rightarrow> (Some (ok_response (JsonBody (v2_join_response_value ''INVALID_ROOM_ID'' None))), sv)
      | Some room_id \<Rightarrow>
          (case request_context A headers uri of
             Inl error \<Rightarrow> apfst Some (http_error error sv)
           | Inr (host, url) \<Rightarrow>
               let (outcome, s) = v2_join_loop (au_admit_v2 Au) room_id draws [1..<Suc CLIENT_ID_ATTEMPTS]
                     (in_authority sv);
                   answer = (\<lambda>r p. Some (ok_response (JsonBody (v2_join_response_value r p))))
               in ((case outcome of
                      Joined client_id admission \<Rightarrow>
                        (case v2_join_mode (v2a_mode admission) of
                           None \<Rightarrow> None
                         | Some mode \<Rightarrow> answer ''SUCCESS'' (Some (v2_join_parameters
                             (build_v2_room_parameters (json_to_string A) A (in_config sv) host url roomid)
                             roomid client_id admission mode)))
                    | Rejected r \<Rightarrow> answer r None
                    | Exhausted \<Rightarrow> answer ''RESOURCE_EXHAUSTED'' None),
                   sv\<lparr>in_authority := s\<rparr>)))"

definition leave ::
  "('r, 's) room_authority \<Rightarrow> string \<Rightarrow> string \<Rightarrow> 's inner \<Rightarrow> response \<times> 's inner" where
  "leave Au roomid clientid sv =
     (let (removed, s) = au_remove Au roomid clientid (in_authority sv); sv = sv\<lparr>in_authority := s\<rparr>
      in case removed of
           Inr _ \<Rightarrow> (ok_response EmptyBody, sv)
         | Inl error \<Rightarrow> http_error error sv)"

definition result_of :: "(string, unit) result \<Rightarrow> response" where
  "result_of r = result_json (case r of Inr _ \<Rightarrow> ''SUCCESS'' | Inl reason \<Rightarrow> reason)"

definition v2_leave ::
  "('u, 'r, 'z) edge_api_scheme \<Rightarrow> ('r, 's) room_authority \<Rightarrow> string \<Rightarrow> string \<Rightarrow> header_map \<Rightarrow>
   's inner \<Rightarrow> response \<times> 's inner" where
  "v2_leave A Au roomid clientid headers sv =
     (case parse_room_token A roomid of
        None \<Rightarrow> (result_json ''INVALID_ROOM_ID'', sv)
      | Some room_id \<Rightarrow>
          (case canonical_u64 clientid of
             None \<Rightarrow> (result_json ''INVALID_CLIENT_ID'', sv)
           | Some client_id \<Rightarrow>
               (case bearer_token A headers of
                  None \<Rightarrow> (result_json ''UNAUTHORIZED'', sv)
                | Some admission_token \<Rightarrow>
                    let (removed, s) = au_remove_v2 Au room_id client_id admission_token (in_authority sv)
                    in (result_of removed, sv\<lparr>in_authority := s\<rparr>))))"

section \<open>Messages and status\<close>

definition post_message ::
  "('r, 's) room_authority \<Rightarrow> string \<Rightarrow> string \<Rightarrow> string \<Rightarrow> 's inner \<Rightarrow> response \<times> 's inner" where
  "post_message Au roomid clientid content sv =
     (let (sent, s) = au_inject Au roomid clientid content (in_authority sv)
      in (result_of sent, sv\<lparr>in_authority := s\<rparr>))"

definition bridge_post ::
  "('r, 's) room_authority \<Rightarrow> string \<Rightarrow> string \<Rightarrow> string \<Rightarrow> 's inner \<Rightarrow> response \<times> 's inner" where
  "bridge_post Au roomid clientid content sv =
     (if content = [] then apfst (\<lambda>r. cors r ''POST, DELETE'') (http_error ''Empty request body'' sv)
      else let (sent, s) = au_inject Au roomid clientid content (in_authority sv);
               sv = sv\<lparr>in_authority := s\<rparr>
           in case sent of
                Inr _ \<Rightarrow> (cors_text (''OK'' @ [CHR 0x0A]), sv)
              | Inl error \<Rightarrow> apfst (\<lambda>r. cors r ''POST, DELETE'')
                  (http_error (''Failed to send the message: '' @ error) sv))"

definition bridge_delete ::
  "('r, 's) room_authority \<Rightarrow> string \<Rightarrow> string \<Rightarrow> 's inner \<Rightarrow> response \<times> 's inner" where
  "bridge_delete Au roomid clientid sv =
     (let (removed, s) = au_remove Au roomid clientid (in_authority sv); sv = sv\<lparr>in_authority := s\<rparr>
      in case removed of
           Inr _ \<Rightarrow> (cors_text (''OK'' @ [CHR 0x0A]), sv)
         | Inl error \<Rightarrow> apfst (\<lambda>r. cors r ''POST, DELETE'') (http_error error sv))"

text \<open>The uptime is a floating-point number; its text is an input.\<close>

definition status_page :: "('r, 's) room_authority \<Rightarrow> string \<Rightarrow> 's inner \<Rightarrow> response \<times> 's inner" where
  "status_page Au up_time sv =
     (let (outcome, s) = au_status Au (in_authority sv); sv = sv\<lparr>in_authority := s\<rparr>
      in case outcome of
           Inr snapshot \<Rightarrow>
             (cors (ok_response (JsonBody (status_report_value
                \<lparr>sr_up_time_sec = up_time, sr_open_ws = sn_websocket_connections snapshot,
                 sr_total_ws = sn_total_websocket_connections snapshot,
                 sr_ws_errs = sn_websocket_errors snapshot, sr_http_errs = in_http_errors sv\<rparr>))) ''GET'', sv)
         | Inl error \<Rightarrow> http_error error sv)"

section \<open>The routes\<close>

text \<open>
  One constructor for each route of \<open>router\<close>, with what axum extracts for its handler; the random
  draws and the uptime text a handler reads are part of the request. Static files are served by
  \<open>tower_http\<close> and have no constructor.
\<close>

datatype request =
    GetMain header_map string
  | GetRoom string header_map string
  | GetV2Room string header_map string
  | PostJoin "nat \<Rightarrow> nat" string header_map string
  | PostV2Join "nat \<Rightarrow> u64" string header_map string
  | PostLeave string string
  | PostV2Leave string string header_map
  | PostMessage string string string
  | GetParams header_map string
  | GetV2Params header_map string
  | IceConfig
  | GetStatus string
  | BridgePost string string string
  | BridgeDelete string string

fun route ::
  "('u, 'r, 'z) edge_api_scheme \<Rightarrow> ('r, 's) room_authority \<Rightarrow> request \<Rightarrow> 's inner \<Rightarrow>
   response option \<times> 's inner" where
  "route A Au (GetMain headers uri) sv = apfst Some (main_page A headers uri sv)"
| "route A Au (GetRoom roomid headers uri) sv = apfst Some (room_page A Au roomid headers uri sv)"
| "route A Au (GetV2Room roomid headers uri) sv = apfst Some (v2_room_page A roomid headers uri sv)"
| "route A Au (PostJoin draws roomid headers uri) sv = apfst Some (join A Au draws roomid headers uri sv)"
| "route A Au (PostV2Join draws roomid headers uri) sv = v2_join A Au draws roomid headers uri sv"
| "route A Au (PostLeave roomid clientid) sv = apfst Some (leave Au roomid clientid sv)"
| "route A Au (PostV2Leave roomid clientid headers) sv =
     apfst Some (v2_leave A Au roomid clientid headers sv)"
| "route A Au (PostMessage roomid clientid content) sv =
     apfst Some (post_message Au roomid clientid content sv)"
| "route A Au (GetParams headers uri) sv = apfst Some (params_page A headers uri sv)"
| "route A Au (GetV2Params headers uri) sv = apfst Some (v2_params A headers uri sv)"
| "route A Au IceConfig sv = apfst Some (ice_config_page sv)"
| "route A Au (GetStatus up_time) sv = apfst Some (status_page Au up_time sv)"
| "route A Au (BridgePost roomid clientid content) sv =
     apfst Some (bridge_post Au roomid clientid content sv)"
| "route A Au (BridgeDelete roomid clientid) sv = apfst Some (bridge_delete Au roomid clientid sv)"

text \<open>Requests served one after another, with their responses; a panic ends only its own task.\<close>

fun serve ::
  "('u, 'r, 'z) edge_api_scheme \<Rightarrow> ('r, 's) room_authority \<Rightarrow> request list \<Rightarrow> 's inner \<Rightarrow>
   response option list \<times> 's inner" where
  "serve A Au [] sv = ([], sv)"
| "serve A Au (req # reqs) sv =
     (let (resp, sv1) = route A Au req sv; (resps, sv2) = serve A Au reqs sv1
      in (resp # resps, sv2))"

definition new_room_server ::
  "('u, 'r, 'z) edge_api_scheme \<Rightarrow> (string \<Rightarrow> (string, string) result) \<Rightarrow> (string \<Rightarrow> string \<Rightarrow> string) \<Rightarrow>
   Config \<Rightarrow> 's \<Rightarrow> (string, 's inner) result" where
  "new_room_server A read_to_string join_path config authority =
     and_then (load_templates (templates_api A) read_to_string join_path (cf_web_root config)) (\<lambda>templates.
       Inr \<lparr>in_config = config, in_templates = templates, in_http_errors = 0, in_authority = authority\<rparr>)"

end
