(* ===== verification/Edge.thy ===== *)
theory Edge
  imports Room_Server
begin

text \<open>
  What the edge's handlers guarantee: canonical client identifiers, the bounded retry of a V2 join
  that never panics over the gRPC authority, the agreement of a join with the leave that follows it,
  and the error counter of the status page.
\<close>

section \<open>The remote authority\<close>

text \<open>\<open>GrpcAuthority\<close> as the \<open>RoomAuthority\<close> of a server; the record is the generated client stub.\<close>

record 's app_client =
  tr_admit_v1 :: "admit_v1_request \<Rightarrow> 's \<Rightarrow> (grpc_status, v1_admission rpc_response) result \<times> 's"
  tr_remove_v1 :: "(string, string) client_request \<Rightarrow> 's \<Rightarrow> (grpc_status, unit rpc_response) result \<times> 's"
  tr_occupancy_v1 :: "string room_request \<Rightarrow> 's \<Rightarrow> (grpc_status, occupancy_msg rpc_response) result \<times> 's"
  tr_inject_v1 :: "inject_v1_request \<Rightarrow> 's \<Rightarrow> (grpc_status, unit rpc_response) result \<times> 's"
  tr_admit_v2 :: "(wire_room, u64) client_request \<Rightarrow> 's \<Rightarrow> (grpc_status, v2_admission rpc_response) result \<times> 's"
  tr_remove_v2 :: "remove_v2_request \<Rightarrow> 's \<Rightarrow> (grpc_status, unit rpc_response) result \<times> 's"
  tr_occupancy_v2 :: "wire_room room_request \<Rightarrow> 's \<Rightarrow> (grpc_status, occupancy_msg rpc_response) result \<times> 's"
  tr_get_status :: "status_request \<Rightarrow> 's \<Rightarrow> (grpc_status, status_msg rpc_response) result \<times> 's"

definition grpc_room_authority ::
  "client_api \<Rightarrow> ('r, 'z) uuid_api_scheme \<Rightarrow> 's app_client \<Rightarrow> ('r, grpc_authority \<times> 's) room_authority" where
  "grpc_room_authority C U T =
     \<lparr>au_admit = (\<lambda>room client loopback (g, s). authority_admit C (tr_admit_v1 T) room client loopback g s),
      au_remove = (\<lambda>room client (g, s). authority_remove C (tr_remove_v1 T) room client g s),
      au_occupancy = (\<lambda>room (g, s). authority_occupancy C (tr_occupancy_v1 T) room g s),
      au_inject = (\<lambda>room client msg (g, s). authority_inject C (tr_inject_v1 T) room client msg g s),
      au_admit_v2 = (\<lambda>room client (g, s). authority_admit_v2 C U (tr_admit_v2 T) room client g s),
      au_remove_v2 = (\<lambda>room client token (g, s). authority_remove_v2 C U (tr_remove_v2 T) room client token g s),
      au_occupancy_v2 = (\<lambda>room (g, s). authority_occupancy_v2 C U (tr_occupancy_v2 T) room g s),
      au_status = (\<lambda>(g, s). authority_status C (tr_get_status T) g s)\<rparr>"

section \<open>The contract of an admission\<close>

locale v2_authority =
  fixes admit :: "'r \<Rightarrow> u64 \<Rightarrow> 's \<Rightarrow> (string, V2Admission) result \<times> 's"
  assumes settled: "admit room c s = (Inr a, s') \<Longrightarrow> v2a_mode a = ModeP2p \<or> v2a_mode a = ModeSfu"
    and token: "admit room c s = (Inr a, s') \<Longrightarrow> v2a_admission_token a \<noteq> []"
begin

lemma mode_text: "admit room c s = (Inr a, s') \<Longrightarrow> \<exists>mode. v2_join_mode (v2a_mode a) = Some mode"
  using settled by fastforce

end

lemma authority_call_Inr:
  assumes "authority_call C op m build transport reading g s = (Inr b, gs)"
  shows "\<exists>payload. reading payload = Inr b"
  using assms
  by (auto simp: authority_call_def Let_def and_then_Ok_iff
      split: prod.splits sum.splits option.splits)

lemma grpc_admit_v2_checked:
  assumes "au_admit_v2 (grpc_room_authority C U T) room c s = (Inr a, s')"
  shows "(v2a_mode a = ModeP2p \<or> v2a_mode a = ModeSfu) \<and> v2a_admission_token a \<noteq> []"
proof -
  obtain g t where s: "s = (g, t)" by fastforce
  have "authority_admit_v2 C U (tr_admit_v2 T) room c g t = (Inr a, s')"
    using assms by (simp add: s grpc_room_authority_def)
  then obtain payload where "read_v2_admission payload = Inr a"
    unfolding authority_admit_v2_def by (blast dest: authority_call_Inr)
  then show ?thesis
    by (auto simp: read_v2_admission_def split: open_enum.splits if_splits)
qed

interpretation grpc_v2: v2_authority "au_admit_v2 (grpc_room_authority C U T)" for C U T
  by unfold_locales (blast dest: grpc_admit_v2_checked)+

section \<open>The retry loop\<close>

definition tried :: "('r \<Rightarrow> u64 \<Rightarrow> 's \<Rightarrow> 'a \<times> 's) \<Rightarrow> 'r \<Rightarrow> u64 list \<Rightarrow> 's \<Rightarrow> 's" where
  "tried admit room ids s = fold (\<lambda>c s. snd (admit room c s)) ids s"

fun join_outcome :: "u64 \<Rightarrow> (string, V2Admission) result \<Rightarrow> v2_join_outcome" where
  "join_outcome c (Inr a) = Joined c a"
| "join_outcome c (Inl e) = Rejected e"

text \<open>
  \<open>admitted_at\<close>: the attempts before \<open>k\<close> all met a duplicate client id, and attempt \<open>k\<close> was answered
  with \<open>res\<close>.
\<close>

definition answered_at ::
  "('r \<Rightarrow> u64 \<Rightarrow> 's \<Rightarrow> (string, V2Admission) result \<times> 's) \<Rightarrow> 'r \<Rightarrow> (nat \<Rightarrow> u64) \<Rightarrow> 's \<Rightarrow> nat \<Rightarrow> nat \<Rightarrow>
   (string, V2Admission) result \<Rightarrow> 's \<Rightarrow> bool" where
  "answered_at admit room draws s j k res s' \<longleftrightarrow>
     (\<forall>i. j < i \<and> i < k \<longrightarrow>
        fst (admit room (draws i) (tried admit room (map draws [Suc j..<i]) s)) = Inl ''DUPLICATE_CLIENT'') \<and>
     admit room (draws k) (tried admit room (map draws [Suc j..<k]) s) = (res, s')"

lemma answered_at_step:
  assumes "admit room (draws (Suc j)) s = (Inl ''DUPLICATE_CLIENT'', s1)"
    and "answered_at admit room draws s1 (Suc j) k res s'" and "Suc j < k"
  shows "answered_at admit room draws s j k res s'"
proof -
  have tried: "tried admit room (map draws [Suc j..<i]) s = tried admit room (map draws [Suc (Suc j)..<i]) s1"
    if "Suc j < i" for i
    using that assms(1) by (simp add: tried_def upt_conv_Cons)
  have "fst (admit room (draws i) (tried admit room (map draws [Suc j..<i]) s)) = Inl ''DUPLICATE_CLIENT''"
    if "j < i" "i < k" for i
    using that assms tried [of i] by (cases "i = Suc j") (auto simp: answered_at_def tried_def)
  with assms tried [OF assms(3)] show ?thesis by (simp add: answered_at_def)
qed

lemma v2_join_loop_answered:
  assumes "j < CLIENT_ID_ATTEMPTS"
  shows "\<exists>k res s'. j < k \<and> k \<le> CLIENT_ID_ATTEMPTS \<and> answered_at admit room draws s j k res s' \<and>
    v2_join_loop admit room draws [Suc j..<Suc CLIENT_ID_ATTEMPTS] s = (join_outcome (draws k) res, s')"
  using assms
proof (induction "CLIENT_ID_ATTEMPTS - j" arbitrary: j s)
  case (Suc n)
  obtain res s1 where ans: "admit room (draws (Suc j)) s = (res, s1)" by fastforce
  have split: "[Suc j..<Suc CLIENT_ID_ATTEMPTS] = Suc j # [Suc (Suc j)..<Suc CLIENT_ID_ATTEMPTS]"
    using Suc.prems by (simp add: upt_conv_Cons)
  show ?case
  proof (cases "res = Inl ''DUPLICATE_CLIENT'' \<and> Suc j < CLIENT_ID_ATTEMPTS")
    case True
    have "n = CLIENT_ID_ATTEMPTS - Suc j" using Suc.hyps(2) by simp
    from Suc.hyps(1) [OF this, of s1] True obtain k res' s' where k: "Suc j < k" "k \<le> CLIENT_ID_ATTEMPTS"
      "answered_at admit room draws s1 (Suc j) k res' s'"
      "v2_join_loop admit room draws [Suc (Suc j)..<Suc CLIENT_ID_ATTEMPTS] s1 = (join_outcome (draws k) res', s')"
      by blast
    then have "answered_at admit room draws s j k res' s'"
      using answered_at_step [OF _ k(3,1)] ans True by blast
    moreover have "v2_join_loop admit room draws [Suc j..<Suc CLIENT_ID_ATTEMPTS] s = (join_outcome (draws k) res', s')"
      unfolding split using k(4) ans True by simp
    ultimately show ?thesis using k(1,2) Suc_lessD by blast
  next
    case False
    with ans have "v2_join_loop admit room draws [Suc j..<Suc CLIENT_ID_ATTEMPTS] s =
        (join_outcome (draws (Suc j)) res, s1)"
      unfolding split by (cases res) auto
    moreover have "answered_at admit room draws s j (Suc j) res s1"
      using ans by (auto simp: answered_at_def tried_def)
    ultimately show ?thesis using Suc.prems by (intro exI [of _ "Suc j"]) auto
  qed
qed simp

text \<open>The response a settled attempt leads to.\<close>

fun join_answer :: "RoomParameters \<Rightarrow> string \<Rightarrow> u64 \<Rightarrow> (string, V2Admission) result \<Rightarrow> json" where
  "join_answer params roomid c (Inl e) = v2_join_response_value e None"
| "join_answer params roomid c (Inr a) = v2_join_response_value ''SUCCESS'' (Some
     (v2_join_parameters params roomid c a (if v2a_mode a = ModeP2p then ''p2p'' else ''sfu'')))"

lemma v2_join_answered:
  assumes "Au = grpc_room_authority C U T"
    and "parse_room_token A roomid = Some room" and "request_context A headers uri = Inr (host, url)"
  shows "\<exists>k res s'. 1 \<le> k \<and> k \<le> CLIENT_ID_ATTEMPTS \<and>
    answered_at (au_admit_v2 Au) room draws (in_authority sv) 0 k res s' \<and>
    v2_join A Au draws roomid headers uri sv =
      (Some (ok_response (JsonBody (join_answer
         (build_v2_room_parameters (json_to_string A) A (in_config sv) host url roomid) roomid (draws k) res))),
       sv\<lparr>in_authority := s'\<rparr>)"
proof -
  obtain k res s' where k: "0 < k" "k \<le> CLIENT_ID_ATTEMPTS"
    "answered_at (au_admit_v2 Au) room draws (in_authority sv) 0 k res s'"
    "v2_join_loop (au_admit_v2 Au) room draws [Suc 0..<Suc CLIENT_ID_ATTEMPTS] (in_authority sv) =
       (join_outcome (draws k) res, s')"
    using v2_join_loop_answered [of 0 "au_admit_v2 Au" room draws "in_authority sv"]
    by (auto simp: CLIENT_ID_ATTEMPTS_def)
  have last: "au_admit_v2 Au room (draws k)
      (tried (au_admit_v2 Au) room (map draws [Suc 0..<k]) (in_authority sv)) = (res, s')"
    using k(3) unfolding answered_at_def by blast
  have mode: "v2a_mode a = ModeP2p \<or> v2a_mode a = ModeSfu" if "res = Inr a" for a
    by (rule grpc_v2.settled [OF last [unfolded that assms(1)]])
  have "v2_join A Au draws roomid headers uri sv =
      (Some (ok_response (JsonBody (join_answer
         (build_v2_room_parameters (json_to_string A) A (in_config sv) host url roomid) roomid (draws k) res))),
       sv\<lparr>in_authority := s'\<rparr>)"
  proof (cases res)
    case (Inl e)
    with k(4) assms(2,3) show ?thesis by (simp add: v2_join_def Let_def)
  next
    case (Inr a)
    with mode [OF Inr] k(4) assms(2,3) show ?thesis
      by (elim disjE) (simp_all add: v2_join_def Let_def)
  qed
  with k show ?thesis by (metis One_nat_def Suc_leI)
qed


section \<open>Client identifiers\<close>

lemma u64_to_string_digits: "list_all is_digit (u64_to_string n)" "u64_to_string n \<noteq> []"
  by (simp_all add: u64_to_string_def show_nat_digits show_nat_nonempty)

lemma u64_to_string_0: "u64_to_string 0 = ''0''"
  by (simp add: u64_to_string_def show_nat.simps [of 0] digit_char_0)

lemma canonical_u64_to_string: "canonical_u64 (u64_to_string n) = Some n"
proof (cases "n = 0")
  case True
  then show ?thesis by (simp add: u64_to_string_0 canonical_u64_def)
next
  case False
  then have "hd (u64_to_string n) \<noteq> CHR ''0''"
    unfolding u64_to_string_def by (intro show_nat_hd) (simp add: unat_eq_zero)
  then have "\<not> prefix ''0'' (u64_to_string n)" and "u64_to_string n \<noteq> ''0''"
    by (cases "u64_to_string n", auto)+
  then show ?thesis by (simp add: canonical_u64_def u64_to_string_digits)
qed

text \<open>
  A path parameter is accepted as a V2 client id exactly when it is the decimal text a join hands
  out for that id: no sign, no leading zero, no second spelling, nothing above 64 bits.
\<close>
lemma canonical_u64_iff: "canonical_u64 value = Some n \<longleftrightarrow> value = u64_to_string n"
proof
  assume some: "canonical_u64 value = Some n"
  show "value = u64_to_string n"
  proof (cases "value = ''0''")
    case True
    with some show ?thesis by (simp add: canonical_u64_def u64_to_string_0)
  next
    case False
    with some have v: "value \<noteq> []" "\<not> prefix ''0'' value" "list_all is_digit value" "parse_u64 value = Some n"
      by (auto simp: canonical_u64_def split: if_splits)
    then have n: "read_nat value < 2 ^ 64" "n = of_nat (read_nat value)"
      by (auto simp: parse_u64_digits split: if_splits)
    have "hd value \<noteq> CHR ''0''" using v(1,2) by (cases "value") auto
    then have "show_nat (read_nat value) = value" using show_read_nat v by blast
    moreover have "unat n = read_nat value" using n by (simp add: unat_of_nat)
    ultimately show ?thesis by (simp add: u64_to_string_def)
  qed
qed (simp add: canonical_u64_to_string)

section \<open>A concrete edge\<close>

definition sample_edge :: "((string \<times> string) list, uuid16) edge_api" where
  "sample_edge = \<lparr>query_pairs = query_pairs sample_url_api, url_query = url_query sample_url_api,
     url_parse = (\<lambda>_. Inr []), header_to_str = Some,
     parse_room_token = (\<lambda>s. if s = ''42'' then Some sample_room else None),
     json_to_string = Some \<circ> sample_text,
     templates_api = \<lparr>template_error = (\<lambda>_ _. None), missing_template = (\<lambda>name. name), render = (\<lambda>_ _ _. Inr ''page'')\<rparr>\<rparr>"

definition reply :: "('z) status_request_scheme \<Rightarrow> (pb_error, 'a) result \<Rightarrow> 's \<Rightarrow>
  (grpc_status, 'a rpc_response) result \<times> 's" where
  "reply q r s = (Inr \<lparr>rs_context = map_option ctx_request_id (rq_context q), rs_result = Some r\<rparr>, s)"

text \<open>A service whose first V2 admission meets a duplicate client id.\<close>

definition sample_app_client :: "nat app_client" where
  "sample_app_client =
     \<lparr>tr_admit_v1 = (\<lambda>q s. reply q (Inr \<lparr>ad_is_initiator = True, ad_messages = []\<rparr>) s),
      tr_remove_v1 = (\<lambda>q s. reply q (Inr ()) s),
      tr_occupancy_v1 = (\<lambda>q s. reply q (Inr \<lparr>oc_member_count = 1, oc_mode = Known ModeP2p\<rparr>) s),
      tr_inject_v1 = (\<lambda>q s. reply q (Inl (domain_error ''ROOM_NOT_FOUND'')) s),
      tr_admit_v2 = (\<lambda>q s. reply q (if s = 0 then Inl (domain_error ''DUPLICATE_CLIENT'')
         else Inr \<lparr>av_mode = Known ModeSfu, av_signal_epoch = 5, av_admission_token = ''tok'',
                   av_is_initiator = None\<rparr>) (Suc s)),
      tr_remove_v2 = (\<lambda>q s. reply q (Inr ()) (Suc s)),
      tr_occupancy_v2 = (\<lambda>q s. reply q (Inr \<lparr>oc_member_count = 1, oc_mode = Known ModeP2p\<rparr>) s),
      tr_get_status = (\<lambda>q s. reply q (Inl (domain_error ''INTERNAL'')) s)\<rparr>"

definition sample_authority :: "(uuid16, grpc_authority \<times> nat) room_authority" where
  "sample_authority = grpc_room_authority sample_client_api uuid16_api sample_app_client"

definition sample_server :: "(grpc_authority \<times> nat) inner" where
  "sample_server = \<lparr>in_config = default_config, in_templates = [(''index'', []), (''full'', [])],
     in_http_errors = 0, in_authority = (\<lparr>ga_instance_id = ''a'', ga_next_request_id = 1\<rparr>, 0)\<rparr>"

lemma sample_request:
  "parse_room_token sample_edge ''42'' = Some sample_room"
  "request_context sample_edge [] ''/'' = Inr (''localhost'', [])"
  by (simp_all add: sample_edge_def request_context_def)


section \<open>Join, then leave\<close>

lemma v2_join_response_value_inject:
  assumes "v2_join_response_value r (Some p) = v2_join_response_value r' p'"
  shows "p' = Some p"
proof -
  from assms obtain q where q: "p' = Some q" "v2_join_parameters_value p = v2_join_parameters_value q"
    by (auto simp: v2_join_response_value_def split: option.splits)
  then have "p = q"
    by (cases p; cases q) (auto simp: v2_join_parameters_value_def split: option.splits)
  with q show ?thesis by simp
qed

lemma bearer_token_Bearer:
  assumes "map_of headers ''authorization'' = Some (''Bearer '' @ token)"
    and "header_to_str A (''Bearer '' @ token) = Some (''Bearer '' @ token)" and "token \<noteq> []"
  shows "bearer_token A headers = Some token"
  using assms by (simp add: bearer_token_def)

text \<open>
  C30. When a V2 join over the gRPC authority answers \<open>SUCCESS\<close> with parameters, the client can leave
  with exactly those: a leave for the room and client id of the response, with the token of the
  response as bearer token, asks the authority to remove the client it admitted under that token.
\<close>
theorem v2_join_then_leave:
  assumes "v2_join A (grpc_room_authority C U T) draws roomid headers uri sv =
      (Some (ok_response (JsonBody (v2_join_response_value ''SUCCESS'' (Some p)))), sv1)"
    and "map_of headers' ''authorization'' = Some (''Bearer '' @ vj_admission_token p)"
    and "header_to_str A (''Bearer '' @ vj_admission_token p) = Some (''Bearer '' @ vj_admission_token p)"
  shows "\<exists>room client admission s. parse_room_token A (vj_room_id p) = Some room \<and>
    vj_client_id p = u64_to_string client \<and> vj_admission_token p = v2a_admission_token admission \<and>
    au_admit_v2 (grpc_room_authority C U T) room client s = (Inr admission, in_authority sv1) \<and>
    v2_leave A (grpc_room_authority C U T) (vj_room_id p) (vj_client_id p) headers' sv2 =
      (let (removed, s') = au_remove_v2 (grpc_room_authority C U T) room client
             (v2a_admission_token admission) (in_authority sv2)
       in (result_of removed, sv2\<lparr>in_authority := s'\<rparr>))"
proof -
  from assms(1) obtain room where room: "parse_room_token A roomid = Some room"
    by (auto simp: v2_join_def v2_join_response_value_def split: option.splits)
  from assms(1) room obtain host url where ctx: "request_context A headers uri = Inr (host, url)"
    by (cases "request_context A headers uri") (auto simp: v2_join_def http_error_def)
  from v2_join_answered [OF refl room ctx] assms(1) obtain k res s' where ans:
    "answered_at (au_admit_v2 (grpc_room_authority C U T)) room draws (in_authority sv) 0 k res s'"
    "v2_join_response_value ''SUCCESS'' (Some p) = join_answer
      (build_v2_room_parameters (json_to_string A) A (in_config sv) host url roomid) roomid (draws k) res"
    "sv1 = sv\<lparr>in_authority := s'\<rparr>"
    by fastforce
  from ans(2) obtain admission mode where res: "res = Inr admission"
    "p = v2_join_parameters (build_v2_room_parameters (json_to_string A) A (in_config sv) host url roomid)
      roomid (draws k) admission mode"
    by (cases res) (auto dest!: v2_join_response_value_inject)
  then have p: "vj_room_id p = roomid" "vj_client_id p = u64_to_string (draws k)"
    "vj_admission_token p = v2a_admission_token admission"
    by (simp_all add: v2_join_parameters_def)
  have admitted: "au_admit_v2 (grpc_room_authority C U T) room (draws k)
      (tried (au_admit_v2 (grpc_room_authority C U T)) room (map draws [Suc 0..<k]) (in_authority sv)) =
      (Inr admission, s')"
    using ans(1) res(1) by (simp add: answered_at_def)
  have "bearer_token A headers' = Some (v2a_admission_token admission)"
    using assms(2,3) grpc_v2.token [OF admitted] bearer_token_Bearer unfolding p(3) by blast
  then have "v2_leave A (grpc_room_authority C U T) (vj_room_id p) (vj_client_id p) headers' sv2 =
      (let (removed, s') = au_remove_v2 (grpc_room_authority C U T) room (draws k)
             (v2a_admission_token admission) (in_authority sv2)
       in (result_of removed, sv2\<lparr>in_authority := s'\<rparr>))"
    using room by (simp add: v2_leave_def p canonical_u64_to_string)
  moreover have "in_authority sv1 = s'" using ans(3) by simp
  ultimately show ?thesis using admitted p room by blast
qed

definition sample_join_params :: V2JoinParameters where
  "sample_join_params = \<lparr>vj_client_id = ''2'', vj_room_id = ''42'',
     vj_room_link = ''http://localhost/v2/r/42'', vj_mode = ''sfu'', vj_epoch = ''5'',
     vj_wss_url = ''ws://localhost/ws'', vj_admission_token = ''tok'', vj_is_initiator = None\<rparr>"

lemma u64_to_string_digit: "unat n < 10 \<Longrightarrow> u64_to_string n = [digit_char (unat n)]"
  by (simp add: u64_to_string_def show_nat.simps [of "unat n"])

lemma digit_char_samples: "digit_char 2 = CHR ''2''" "digit_char 5 = CHR ''5''"
  unfolding digit_char_def by code_simp+

lemma sample_loop:
  "v2_join_loop (au_admit_v2 sample_authority) sample_room of_nat [1..<Suc CLIENT_ID_ATTEMPTS]
     (in_authority sample_server) =
   (Joined 2 \<lparr>v2a_mode = ModeSfu, v2a_signal_epoch = 5, v2a_admission_token = ''tok'',
      v2a_is_initiator = None\<rparr>, (\<lparr>ga_instance_id = ''a'', ga_next_request_id = 3\<rparr>, 2))"
  by (simp add: CLIENT_ID_ATTEMPTS_def upt_conv_Cons sample_authority_def grpc_room_authority_def
      authority_admit_v2_def authority_call_def sample_app_client_def reply_def grpc_context_def
      next_nonzero_eq sample_server_def response_request_id_def client_domain_error_def domain_error_def
      read_v2_admission_def)

lemma sample_join:
  "v2_join sample_edge (grpc_room_authority sample_client_api uuid16_api sample_app_client) of_nat ''42''
     [] ''/'' sample_server =
   (Some (ok_response (JsonBody (v2_join_response_value ''SUCCESS'' (Some sample_join_params)))),
    sample_server\<lparr>in_authority := (\<lparr>ga_instance_id = ''a'', ga_next_request_id = 3\<rparr>, 2)\<rparr>)"
proof -
  have "v2_join_parameters (build_v2_room_parameters (json_to_string sample_edge) sample_edge
      (in_config sample_server) ''localhost'' [] ''42'') ''42'' 2
      \<lparr>v2a_mode = ModeSfu, v2a_signal_epoch = 5, v2a_admission_token = ''tok'', v2a_is_initiator = None\<rparr> ''sfu''
    = sample_join_params"
    by (simp add: v2_join_parameters_def sample_join_params_def u64_to_string_digit digit_char_samples
        build_v2_room_parameters_def build_room_parameters_def Let_def build_room_link_def self_origin_def
        sample_server_def default_config_def default_room_parameters_def sample_edge_def sample_url_api_def
        query_get_def)
  with sample_loop [unfolded sample_authority_def] show ?thesis
    unfolding v2_join_def sample_request by (simp add: Let_def)
qed

theorem v2_join_then_leave_witness:
  "\<exists>room client (admission :: V2Admission).
    parse_room_token sample_edge (vj_room_id sample_join_params) = Some room \<and>
    vj_client_id sample_join_params = u64_to_string client \<and>
    vj_admission_token sample_join_params = v2a_admission_token admission \<and>
    v2_leave sample_edge (grpc_room_authority sample_client_api uuid16_api sample_app_client)
      (vj_room_id sample_join_params) (vj_client_id sample_join_params)
      [(''authorization'', ''Bearer tok'')] sample_server =
      (let (removed, s') = au_remove_v2 (grpc_room_authority sample_client_api uuid16_api sample_app_client)
             room client (v2a_admission_token admission) (in_authority sample_server)
       in (result_of removed, sample_server\<lparr>in_authority := s'\<rparr>))"
proof -
  have h1: "map_of [(''authorization'', ''Bearer tok'')] ''authorization'' =
      Some (''Bearer '' @ vj_admission_token sample_join_params)"
    by (simp add: sample_join_params_def)
  have h2: "header_to_str sample_edge (''Bearer '' @ vj_admission_token sample_join_params) =
      Some (''Bearer '' @ vj_admission_token sample_join_params)"
    by (simp add: sample_edge_def)
  show ?thesis
    using v2_join_then_leave [OF sample_join h1 h2, of sample_server] by blast
qed

section \<open>The error counter\<close>

text \<open>A handler is counted when it adds one to the counter exactly for a response with status 500.\<close>

definition is_500 :: "response option \<Rightarrow> bool" where
  "is_500 r = (case r of None \<Rightarrow> False | Some x \<Rightarrow> re_status x = 500)"

definition counted :: "('s inner \<Rightarrow> response option \<times> 's inner) \<Rightarrow> bool" where
  "counted h \<longleftrightarrow> (\<forall>sv r sv'. h sv = (r, sv') \<longrightarrow>
     in_http_errors sv' = in_http_errors sv + (if is_500 r then 1 else 0))"

lemma cors_status [simp]: "re_status (cors r m) = re_status r" "re_status (cors_text b) = 200"
  by (simp_all add: cors_def cors_text_def)

lemmas handler_defs = http_error_def html_page_def with_context_def result_json_def result_of_def
  main_page_def room_page_def v2_room_page_def params_page_def v2_params_def ice_config_page_def
  join_def leave_def v2_leave_def post_message_def bridge_post_def bridge_delete_def status_page_def

lemma counted_route: "counted (route A Au req)"
  unfolding counted_def
proof (intro allI impI)
  fix sv r sv'
  assume "route A Au req sv = (r, sv')"
  then show "in_http_errors sv' = in_http_errors sv + (if is_500 r then 1 else 0)"
    by (cases req)
      (auto simp: handler_defs v2_join_def Let_def is_500_def
        split: if_splits option.splits sum.splits prod.splits v2_join_outcome.splits)
qed

lemma serve_counted:
  assumes "serve A Au reqs sv = (resps, sv')"
  shows "in_http_errors sv' = in_http_errors sv + of_nat (length (filter is_500 resps))"
  using assms
proof (induction reqs arbitrary: sv resps)
  case (Cons req reqs)
  then obtain r sv1 rs where *: "route A Au req sv = (r, sv1)" "serve A Au reqs sv1 = (rs, sv')" "resps = r # rs"
    by (auto simp: Let_def split: prod.splits)
  have "in_http_errors sv1 = in_http_errors sv + (if is_500 r then 1 else 0)"
    using counted_route [of A Au req] *(1) unfolding counted_def by blast
  with Cons.IH [OF *(2)] *(3) show ?case by (simp add: add.assoc)
qed simp

text \<open>
  C38. The status page counts errors exactly: after any sequence of requests to a new server, the
  \<open>httperrors\<close> of its report is the number of responses with status 500 sent so far (modulo \<open>2^64\<close>),
  whatever the authority answered.
\<close>
theorem status_counts_errors:
  assumes "new_room_server A rd join_path config authority = Inr sv"
    and "serve A Au reqs sv = (resps, sv')"
    and "au_status Au (in_authority sv') = (Inr snapshot, s)"
  shows "\<exists>r sv''. status_page Au up_time sv' = (r, sv'') \<and>
    re_body r = JsonBody (status_report_value
      \<lparr>sr_up_time_sec = up_time, sr_open_ws = sn_websocket_connections snapshot,
       sr_total_ws = sn_total_websocket_connections snapshot, sr_ws_errs = sn_websocket_errors snapshot,
       sr_http_errs = of_nat (length (filter is_500 resps))\<rparr>)"
proof -
  have "in_http_errors sv = 0"
    using assms(1) by (auto simp: new_room_server_def and_then_Ok_iff)
  with serve_counted [OF assms(2)] assms(3) show ?thesis
    by (simp add: status_page_def cors_def)
qed

definition status_authority :: "(uuid16, nat) room_authority" where
  "status_authority = \<lparr>au_admit = (\<lambda>_ _ _ s. (Inl ''FULL'', s)), au_remove = (\<lambda>_ _ s. (Inl ''down'', s)),
     au_occupancy = (\<lambda>_ s. (Inl ''down'', s)), au_inject = (\<lambda>_ _ _ s. (Inr (), s)),
     au_admit_v2 = (\<lambda>_ _ s. (Inl ''FULL'', s)), au_remove_v2 = (\<lambda>_ _ _ s. (Inr (), s)),
     au_occupancy_v2 = (\<lambda>_ s. (Inl ''down'', s)),
     au_status = (\<lambda>s. (Inr \<lparr>sn_rooms = 1, sn_clients = 2, sn_websocket_connections = 3,
        sn_total_websocket_connections = 4, sn_websocket_errors = 5\<rparr>, s))\<rparr>"

definition fresh_server :: "nat inner" where
  "fresh_server = \<lparr>in_config = default_config,
     in_templates = [(''index'', []), (''full'', []), (''grid'', [])], in_http_errors = 0, in_authority = 0\<rparr>"

theorem status_counts_errors_witness:
  "\<exists>r sv''. status_page status_authority ''1.5'' (fresh_server\<lparr>in_http_errors := 2\<rparr>) = (r, sv'') \<and>
    re_body r = JsonBody (status_report_value
      \<lparr>sr_up_time_sec = ''1.5'', sr_open_ws = 3, sr_total_ws = 4, sr_ws_errs = 5, sr_http_errs = 2\<rparr>)"
proof -
  have new: "new_room_server sample_edge (\<lambda>_. Inr []) (\<lambda>a b. a @ ''/'' @ b) default_config 0 =
      Inr fresh_server"
    by (simp add: new_room_server_def load_templates_def from_sources_with_grid_def add_template_def
        sample_edge_def fresh_server_def)
  have served: "serve sample_edge status_authority
      [PostLeave ''r'' ''c'', PostMessage ''r'' ''c'' ''m'', BridgePost ''r'' ''c'' []] fresh_server =
    ([Some (fst (http_error ''down'' fresh_server)), Some (result_json ''SUCCESS''),
      Some (cors (fst (http_error ''Empty request body'' fresh_server)) ''POST, DELETE'')],
     fresh_server\<lparr>in_http_errors := 2\<rparr>)"
    by (simp add: leave_def post_message_def bridge_post_def status_authority_def http_error_def
        result_of_def fresh_server_def)
  show ?thesis
    using status_counts_errors [OF new served, of "\<lparr>sn_rooms = 1, sn_clients = 2,
        sn_websocket_connections = 3, sn_total_websocket_connections = 4, sn_websocket_errors = 5\<rparr>" 0 "''1.5''"]
    by (simp add: status_authority_def fresh_server_def is_500_def http_error_def result_json_def)
qed

end
