(* ===== verification/Startup.thy ===== *)
theory Startup
  imports Edge Sfu_Session
begin

text \<open>
  What the processes check and configure before they serve: the edge's command line
  (\<open>src/src/bin/apprtc.rs\<close>), the worker's (\<open>src/src/bin/sfu.rs\<close>), the two gRPC endpoints
  (\<open>GrpcAuthority::connect\<close> in \<open>src/src/grpc_client.rs\<close> and \<open>grpc_endpoint\<close> in
  \<open>src/src/sfu_server.rs\<close>) and the choice of the TLS key pair (\<open>src/src/tls.rs\<close>). A command line is a
  record of its options after parsing. URL parsing is the record \<open>full_url_api\<close>; the bundled key pair
  and reading files are arguments.
\<close>

section \<open>URLs\<close>

record 'u full_url_api = "'u url_api" +
  fu_parse :: "string \<Rightarrow> (string, 'u) result"
  fu_scheme :: "'u \<Rightarrow> string"
  fu_host_str :: "'u \<Rightarrow> string option"
  fu_port :: "'u \<Rightarrow> u16 option"
  fu_path :: "'u \<Rightarrow> string"
  fu_fragment :: "'u \<Rightarrow> string option"
  fu_to_string :: "'u \<Rightarrow> string"

text \<open>
  Documented behaviour of parsed URLs: the host of an http or https URL is not empty and has no slash,
  and the text of a URL without query and fragment ends with its path.
\<close>

definition url_laws :: "'u full_url_api \<Rightarrow> bool" where
  "url_laws U \<longleftrightarrow>
     (\<forall>u h. (fu_scheme U u = ''http'' \<or> fu_scheme U u = ''https'') \<and> fu_host_str U u = Some h \<longrightarrow>
        h \<noteq> [] \<and> CHR ''/'' \<notin> set h) \<and>
     (\<forall>u. url_query U u = None \<and> fu_fragment U u = None \<longrightarrow> suffix (fu_path U u) (fu_to_string U u))"

section \<open>The edge's configuration\<close>

record edge_cli =
  ec_host_ip :: string
  ec_port :: u16
  ec_web_root :: string
  ec_public_url :: string
  ec_ws_url :: string
  ec_grpc_url :: string
  ec_insecure_tls :: bool
  ec_tls :: bool
  ec_certificate :: string
  ec_private_key :: string
  ec_ice_server_urls :: "string list"
  ec_ice_server_base_url :: string
  ec_ice_server_api_key :: string
  ec_header_message :: string
  ec_bypass_join_confirmation :: bool
  ec_debug :: bool
  ec_level :: string
  ec_output_log_file :: string

definition edge_config :: "'u full_url_api \<Rightarrow> edge_cli \<Rightarrow> (string, Config) result" where
  "edge_config U cli =
     and_then (fu_parse U (ec_public_url cli)) (\<lambda>public.
       let scheme = fu_scheme U public
       in if scheme \<noteq> ''http'' \<and> scheme \<noteq> ''https'' then Inl ''--public-url must use http or https''
          else and_then (ok_or (fu_host_str U public) ''--public-url has no host'') (\<lambda>host.
            let public_host = (case fu_port U public of
                  Some port \<Rightarrow> host @ '':'' @ show_nat (unat port) | None \<Rightarrow> host)
            in and_then (fu_parse U (trim_end_matches CHR ''/'' (ec_ws_url cli))) (\<lambda>ws_url.
                 if \<not> (fu_scheme U ws_url = ''ws'' \<or> fu_scheme U ws_url = ''wss'') \<or>
                    fu_host_str U ws_url = None \<or> fu_path U ws_url \<noteq> ''/ws'' \<or>
                    url_query U ws_url \<noteq> None \<or> fu_fragment U ws_url \<noteq> None
                 then Inl ''--ws-url must be a ws:// or wss:// URL ending in /ws''
                 else Inr (default_config\<lparr>cf_web_root := ec_web_root cli, cf_host := public_host,
                   cf_force_tls := (scheme = ''https''), cf_signaling_ws_url := fu_to_string U ws_url,
                   cf_ice_server_urls := ec_ice_server_urls cli,
                   cf_ice_server_base_url := ec_ice_server_base_url cli,
                   cf_ice_server_api_key := ec_ice_server_api_key cli,
                   cf_header_message := ec_header_message cli,
                   cf_bypass_join_confirmation := ec_bypass_join_confirmation cli\<rparr>))))"

section \<open>gRPC endpoints\<close>

text \<open>\<open>{:032x}\<close> of a random \<open>u128\<close>: its sixteen bytes from the most significant, two digits each.\<close>

definition hex_u128 :: "u8 list \<Rightarrow> string" where
  "hex_u128 bytes = concat (map hex_byte bytes)"

datatype verification = WebPkiRoots | NoVerification

record endpoint =
  ep_url :: string
  ep_connect_timeout :: nat
  ep_request_timeout :: "nat option"
  ep_keepalive_interval :: nat
  ep_keepalive_timeout :: nat
  ep_tls :: "(string \<times> verification) option"

text \<open>
  What both functions do; \<open>from_shared\<close> and \<open>tls_config\<close> of the transport crate may refuse, and are
  arguments that return the error.
\<close>

definition configure_endpoint ::
  "'u full_url_api \<Rightarrow> (string \<Rightarrow> string option) \<Rightarrow> (string \<times> verification \<Rightarrow> string option) \<Rightarrow>
   string \<Rightarrow> string \<Rightarrow> nat option \<Rightarrow> string \<Rightarrow> bool \<Rightarrow> (string, endpoint) result" where
  "configure_endpoint U from_shared tls_config bad_scheme no_host request_timeout url insecure_tls =
     and_then (fu_parse U url) (\<lambda>parsed.
       let scheme = fu_scheme U parsed
       in if scheme \<noteq> ''http'' \<and> scheme \<noteq> ''https'' then Inl bad_scheme
          else case from_shared url of
            Some error \<Rightarrow> Inl error
          | None \<Rightarrow>
              let endpoint = \<lparr>ep_url = url, ep_connect_timeout = 10000, ep_request_timeout = request_timeout,
                    ep_keepalive_interval = 30000, ep_keepalive_timeout = 10000, ep_tls = None\<rparr>
              in if scheme = ''https''
                 then and_then (ok_or (fu_host_str U parsed) no_host) (\<lambda>domain.
                        let tls = (domain, if insecure_tls then NoVerification else WebPkiRoots)
                        in case tls_config tls of
                             Some error \<Rightarrow> Inl error
                           | None \<Rightarrow> Inr (endpoint\<lparr>ep_tls := Some tls\<rparr>))
                 else Inr endpoint)"

text \<open>
  The certificate verifiers of the TLS library, one field per method of its trait: the certificate of
  the server with its chain, the name it is to be valid for, the stapled response and the time, and
  the two handshake signatures. \<open>NoCertificateVerification\<close> asserts everything and offers the signature
  schemes of the default provider; the edge has its own copy in \<open>grpc_client.rs\<close>.
\<close>

record ('cert, 'sig, 'scheme) server_cert_verifier =
  verify_server_cert :: "'cert \<Rightarrow> 'cert list \<Rightarrow> string \<Rightarrow> u8 list \<Rightarrow> nat \<Rightarrow> (string, unit) result"
  verify_tls12_signature :: "u8 list \<Rightarrow> 'cert \<Rightarrow> 'sig \<Rightarrow> (string, unit) result"
  verify_tls13_signature :: "u8 list \<Rightarrow> 'cert \<Rightarrow> 'sig \<Rightarrow> (string, unit) result"
  supported_verify_schemes :: "'scheme list"

definition NoCertificateVerification :: "'scheme list \<Rightarrow> ('cert, 'sig, 'scheme) server_cert_verifier" where
  "NoCertificateVerification supported_schemes =
     \<lparr>verify_server_cert = (\<lambda>_ _ _ _ _. Inr ()), verify_tls12_signature = (\<lambda>_ _ _. Inr ()),
      verify_tls13_signature = (\<lambda>_ _ _. Inr ()), supported_verify_schemes = supported_schemes\<rparr>"

definition ClientNoCertificateVerification ::
  "'scheme list \<Rightarrow> ('cert, 'sig, 'scheme) server_cert_verifier" where
  "ClientNoCertificateVerification supported_schemes =
     \<lparr>verify_server_cert = (\<lambda>_ _ _ _ _. Inr ()), verify_tls12_signature = (\<lambda>_ _ _. Inr ()),
      verify_tls13_signature = (\<lambda>_ _ _. Inr ()), supported_verify_schemes = supported_schemes\<rparr>"

text \<open>
  The verifier a channel runs its handshake with, and the name it asks for; \<open>webpki\<close> is the library's,
  \<open>unverified\<close> the one the process installs when verification is disabled.
\<close>

definition channel_verifier ::
  "('cert, 'sig, 'scheme) server_cert_verifier \<Rightarrow> ('cert, 'sig, 'scheme) server_cert_verifier \<Rightarrow> endpoint \<Rightarrow>
   (string \<times> ('cert, 'sig, 'scheme) server_cert_verifier) option" where
  "channel_verifier webpki unverified ep =
     map_option (\<lambda>(domain, v). (domain, case v of WebPkiRoots \<Rightarrow> webpki | NoVerification \<Rightarrow> unverified)) (ep_tls ep)"

definition edge_endpoint where
  "edge_endpoint U from_shared tls_config url insecure_tls =
     configure_endpoint U from_shared tls_config ''signaling gRPC URL must use http or https''
       ''signaling gRPC URL has no host'' (Some 15000) url insecure_tls"

definition worker_endpoint where
  "worker_endpoint U from_shared tls_config url insecure_tls =
     configure_endpoint U from_shared tls_config ''--grpc-url must use http or https''
       ''gRPC URL has no host'' None url insecure_tls"

definition connect_authority ::
  "'u full_url_api \<Rightarrow> (string \<Rightarrow> string option) \<Rightarrow> (string \<times> verification \<Rightarrow> string option) \<Rightarrow>
   u8 list \<Rightarrow> string \<Rightarrow> bool \<Rightarrow> (string, endpoint \<times> grpc_authority) result" where
  "connect_authority U from_shared tls_config random_bytes url insecure_tls =
     and_then (edge_endpoint U from_shared tls_config url insecure_tls) (\<lambda>endpoint.
       Inr (endpoint, \<lparr>ga_instance_id = ''apprtc-'' @ hex_u128 random_bytes, ga_next_request_id = 1\<rparr>))"

section \<open>The TLS key pair\<close>

definition tls_pem ::
  "u8 list \<times> u8 list \<Rightarrow> (string \<Rightarrow> (string, u8 list) result) \<Rightarrow> string \<Rightarrow> string \<Rightarrow>
   (string, u8 list \<times> u8 list) result" where
  "tls_pem bundled read certificate private_key =
     (if certificate = [] \<and> private_key = [] then Inr bundled
      else if certificate \<noteq> [] \<and> private_key \<noteq> [] then
        (case read certificate of
           Inl _ \<Rightarrow> Inl (''failed to read certificate '' @ certificate)
         | Inr cert \<Rightarrow>
             (case read private_key of
                Inl _ \<Rightarrow> Inl (''failed to read private key '' @ private_key)
              | Inr key \<Rightarrow> Inr (cert, key)))
      else Inl ''--certificate and --private-key must be supplied together'')"

section \<open>The edge's process\<close>

text \<open>
  \<open>main\<close> up to the point where it serves. Parsing and binding the address are arguments. The state
  behind the authority is that of the channel.
\<close>

record 's edge_plan =
  pl_server :: "(grpc_authority \<times> 's) inner"
  pl_endpoint :: endpoint
  pl_address :: string
  pl_tls :: "(u8 list list \<times> u8 list) option"

record ('u, 'r) startup_env =
  se_url :: "'u full_url_api"
  se_edge :: "('u, 'r) edge_api"
  se_from_shared :: "string \<Rightarrow> string option"
  se_tls_config :: "string \<times> verification \<Rightarrow> string option"
  se_read :: "string \<Rightarrow> (string, u8 list) result"
  se_read_to_string :: "string \<Rightarrow> (string, string) result"
  se_join_path :: "string \<Rightarrow> string \<Rightarrow> string"
  se_parse_address :: "string \<Rightarrow> (string, string) result"
  se_bind :: "string \<Rightarrow> (string, unit) result"
  se_bundled :: "u8 list \<times> u8 list"
  se_certs :: "u8 list \<Rightarrow> (string, u8 list list) result"
  se_private_key :: "u8 list \<Rightarrow> (string, u8 list option) result"
  se_single_cert :: "u8 list list \<Rightarrow> u8 list \<Rightarrow> (string, unit) result"
  se_open_log :: "string \<Rightarrow> (string, unit) result"

text \<open>The server's certificates and key; PEM parsing and the TLS library's check are arguments.\<close>

definition server_tls_config ::
  "('u, 'r) startup_env \<Rightarrow> string \<Rightarrow> string \<Rightarrow> (string, u8 list list \<times> u8 list) result" where
  "server_tls_config S certificate private_key =
     and_then (tls_pem (se_bundled S) (se_read S) certificate private_key) (\<lambda>(certificate, private_key).
     and_then (se_certs S certificate) (\<lambda>certificates.
     and_then (se_private_key S private_key) (\<lambda>found.
     and_then (ok_or found ''no private key found in PEM input'') (\<lambda>key.
     and_then (se_single_cert S certificates key) (\<lambda>_. Inr (certificates, key))))))"

definition opt_tls_config ::
  "('u, 'r) startup_env \<Rightarrow> bool \<Rightarrow> string \<Rightarrow> string \<Rightarrow>
   (string, (u8 list list \<times> u8 list) option) result" where
  "opt_tls_config S tls certificate private_key =
     (if tls then and_then (server_tls_config S certificate private_key) (Inr \<circ> Some) else Inr None)"

text \<open>Logging is set up when asked for; a log file that cannot be opened ends the start.\<close>

definition init_logging :: "('u, 'r) startup_env \<Rightarrow> bool \<Rightarrow> string \<Rightarrow> (string, unit) result" where
  "init_logging S debug output_log_file =
     (if debug \<and> output_log_file \<noteq> [] then se_open_log S output_log_file else Inr ())"

definition edge_main ::
  "('u, 'r) startup_env \<Rightarrow> u8 list \<Rightarrow> edge_cli \<Rightarrow> 's \<Rightarrow> (string, 's edge_plan) result" where
  "edge_main S random_bytes cli channel =
     and_then (init_logging S (ec_debug cli) (ec_output_log_file cli)) (\<lambda>_.
     and_then (edge_config (se_url S) cli) (\<lambda>config.
     and_then (connect_authority (se_url S) (se_from_shared S) (se_tls_config S) random_bytes
         (ec_grpc_url cli) (ec_insecure_tls cli)) (\<lambda>(endpoint, authority).
     and_then (new_room_server (se_edge S) (se_read_to_string S) (se_join_path S) config (authority, channel))
       (\<lambda>server.
     and_then (se_parse_address S (ec_host_ip cli @ '':'' @ show_nat (unat (ec_port cli)))) (\<lambda>address.
     and_then (se_bind S address) (\<lambda>_.
     and_then (opt_tls_config S (ec_tls cli) (ec_certificate cli) (ec_private_key cli)) (\<lambda>tls.
       Inr \<lparr>pl_server = server, pl_endpoint = endpoint, pl_address = address, pl_tls = tls\<rparr>)))))))"

section \<open>The worker's process\<close>

record 'ip sfu_cli =
  sc_host_ip :: 'ip
  sc_port :: u16
  sc_tls :: bool
  sc_redirect_url :: string
  sc_certificate :: string
  sc_private_key :: string
  sc_media_public_ip :: "'ip option"
  sc_media_port_min :: u16
  sc_media_port_max :: u16
  sc_grpc_url :: string
  sc_insecure_tls :: bool
  sc_max_rooms :: u64
  sc_max_clients :: u64
  sc_instance_id :: string
  sc_debug :: bool
  sc_level :: string
  sc_output_log_file :: string

text \<open>The configuration of the service, with the fields only the transport reads.\<close>

record 'ip worker_settings = sfu_config +
  cf_host_ip :: 'ip
  cf_media_ip :: 'ip
  cf_grpc_url :: string
  cf_insecure_tls :: bool

definition worker_config :: "u8 list \<Rightarrow> 'ip sfu_cli \<Rightarrow> 'ip worker_settings" where
  "worker_config random_bytes cli =
     \<lparr>cf_media_port_min = sc_media_port_min cli, cf_media_port_max = sc_media_port_max cli,
      cf_max_rooms = sc_max_rooms cli, cf_max_clients = sc_max_clients cli,
      cf_instance_id = (if sc_instance_id cli = [] then ''sfu-'' @ hex_u128 random_bytes
                        else sc_instance_id cli),
      cf_host_ip = sc_host_ip cli,
      cf_media_ip = (case sc_media_public_ip cli of None \<Rightarrow> sc_host_ip cli | Some ip \<Rightarrow> ip),
      cf_grpc_url = sc_grpc_url cli, cf_insecure_tls = sc_insecure_tls cli\<rparr>"

text \<open>
  The checks of \<open>run\<close> before any shard exists: the configuration, the endpoint, then every port of the
  range is bound; the first port that cannot be bound ends the start.
\<close>

fun bind_ports :: "(nat \<Rightarrow> (string, unit) result) \<Rightarrow> nat list \<Rightarrow> (string, nat list) result" where
  "bind_ports bind [] = Inr []"
| "bind_ports bind (port # ports) =
     and_then (bind port) (\<lambda>_. and_then (bind_ports bind ports) (\<lambda>bound. Inr (port # bound)))"

definition worker_start ::
  "'u full_url_api \<Rightarrow> (string \<Rightarrow> string option) \<Rightarrow> (string \<times> verification \<Rightarrow> string option) \<Rightarrow>
   ('ip \<Rightarrow> nat \<Rightarrow> (string, unit) result) \<Rightarrow> 'ip worker_settings \<Rightarrow> (string, endpoint \<times> nat list) result" where
  "worker_start U from_shared tls_config bind config =
     and_then (check_config (sfu_config.truncate config)) (\<lambda>_.
     and_then (worker_endpoint U from_shared tls_config (cf_grpc_url config) (cf_insecure_tls config)) (\<lambda>ep.
     and_then (bind_ports (bind (cf_host_ip config)) (media_ports (sfu_config.truncate config))) (\<lambda>ports.
       Inr (ep, ports))))"

text \<open>How the process ends: the operator's signal, or the service on its own.\<close>

datatype worker_end =
    CtrlC "(string, unit) result" "(string, unit) result option"
  | ServiceEnded "(string, unit) result"

fun worker_exit :: "worker_end \<Rightarrow> (string, unit) result" where
  "worker_exit (CtrlC service redirect) =
     and_then service (\<lambda>_. case redirect of None \<Rightarrow> Inr () | Some r \<Rightarrow> r)"
| "worker_exit (ServiceEnded service) = and_then service (\<lambda>_. Inl ''SFU service stopped unexpectedly'')"

text \<open>
  The optional redirect server: it runs when it has a target, on the address of the command line; its
  listener is bound before the TLS material is read, and it answers every request alike.
\<close>

record 'ip redirect_plan =
  rd_address :: "'ip \<times> u16"
  rd_tls :: "(u8 list list \<times> u8 list) option"
  rd_answer :: response

definition redirect_response :: "string \<Rightarrow> response" where
  "redirect_response redirect_url =
     \<lparr>re_status = 307, re_headers = [(''location'', redirect_url)], re_body = EmptyBody\<rparr>"

definition run_redirect ::
  "('u, 'r) startup_env \<Rightarrow> ('ip \<times> u16 \<Rightarrow> (string, unit) result) \<Rightarrow> 'ip \<times> u16 \<Rightarrow> string \<Rightarrow> bool \<Rightarrow>
   string \<Rightarrow> string \<Rightarrow> (string, 'ip redirect_plan) result" where
  "run_redirect S bind address redirect_url tls certificate private_key =
     and_then (bind address) (\<lambda>_.
     and_then (opt_tls_config S tls certificate private_key) (\<lambda>config.
       Inr \<lparr>rd_address = address, rd_tls = config, rd_answer = redirect_response redirect_url\<rparr>))"

definition worker_redirect ::
  "('u, 'r) startup_env \<Rightarrow> ('ip \<times> u16 \<Rightarrow> (string, unit) result) \<Rightarrow> 'ip sfu_cli \<Rightarrow>
   (string, 'ip redirect_plan) result option" where
  "worker_redirect S bind cli =
     (if sc_redirect_url cli = [] then None
      else Some (run_redirect S bind (sc_host_ip cli, sc_port cli) (sc_redirect_url cli) (sc_tls cli)
        (sc_certificate cli) (sc_private_key cli)))"

section \<open>The signaling process\<close>

record signaling_cli =
  gc_host_ip :: string
  gc_port :: u16
  gc_grpc_port :: u16
  gc_tls :: bool
  gc_certificate :: string
  gc_private_key :: string
  gc_downgrade_dwell :: u64
  gc_debug :: bool
  gc_level :: string
  gc_output_log_file :: string

definition REGISTER_TIMEOUT :: nat where "REGISTER_TIMEOUT = 10"

text \<open>
  The listeners, in the order they are bound; the timeouts (seconds) given to the event loop; the files
  given to the gRPC server.
\<close>

record signaling_plan =
  gp_tls :: "(u8 list list \<times> u8 list) option"
  gp_grpc_tls_files :: "(string \<times> string) option"
  gp_listeners :: "(string \<times> u16) list"
  gp_register_timeout :: nat
  gp_downgrade_dwell :: nat

definition signaling_main ::
  "('u, 'r) startup_env \<Rightarrow> (string \<times> u16 \<Rightarrow> (string, unit) result) \<Rightarrow> signaling_cli \<Rightarrow>
   (string, signaling_plan) result" where
  "signaling_main S bind cli =
     and_then (init_logging S (gc_debug cli) (gc_output_log_file cli)) (\<lambda>_.
     and_then (opt_tls_config S (gc_tls cli) (gc_certificate cli) (gc_private_key cli)) (\<lambda>tls.
     and_then (bind (gc_host_ip cli, gc_port cli)) (\<lambda>_.
     and_then (bind (gc_host_ip cli, gc_grpc_port cli)) (\<lambda>_.
       Inr \<lparr>gp_tls = tls,
            gp_grpc_tls_files = (if gc_tls cli then Some (gc_certificate cli, gc_private_key cli) else None),
            gp_listeners = [(gc_host_ip cli, gc_port cli), (gc_host_ip cli, gc_grpc_port cli)],
            gp_register_timeout = REGISTER_TIMEOUT,
            gp_downgrade_dwell = unat (gc_downgrade_dwell cli)\<rparr>))))"

text \<open>
  \<open>grpc_server::run\<close> up to the point where it serves: the keep-alive settings (seconds) and the key pair
  as PEM text, which the transport crate may refuse (\<open>server_tls\<close> returns its error).
\<close>

definition KEEPALIVE_INTERVAL :: nat where "KEEPALIVE_INTERVAL = 30"
definition KEEPALIVE_TIMEOUT :: nat where "KEEPALIVE_TIMEOUT = 10"

record grpc_server_plan =
  gs_http2_keepalive_interval :: nat
  gs_http2_keepalive_timeout :: nat
  gs_tcp_keepalive :: nat
  gs_identity :: "(u8 list \<times> u8 list) option"

definition grpc_server_start ::
  "('u, 'r) startup_env \<Rightarrow> (u8 list \<times> u8 list \<Rightarrow> string option) \<Rightarrow> (string \<times> string) option \<Rightarrow>
   (string, grpc_server_plan) result" where
  "grpc_server_start S server_tls tls_files =
     (let server = \<lparr>gs_http2_keepalive_interval = KEEPALIVE_INTERVAL,
            gs_http2_keepalive_timeout = KEEPALIVE_TIMEOUT, gs_tcp_keepalive = KEEPALIVE_INTERVAL,
            gs_identity = None\<rparr>
      in case tls_files of
           None \<Rightarrow> Inr server
         | Some (certificate, private_key) \<Rightarrow>
             and_then (tls_pem (se_bundled S) (se_read S) certificate private_key) (\<lambda>pem.
               case server_tls pem of
                 Some error \<Rightarrow> Inl error
               | None \<Rightarrow> Inr (server\<lparr>gs_identity := Some pem\<rparr>)))"

section \<open>What a started edge promises\<close>

lemma trim_end_matches_suffix: "s \<noteq> [] \<Longrightarrow> last s \<noteq> c \<Longrightarrow> trim_end_matches c s = s"
  by (cases "rev s") (auto simp: trim_end_matches_def last_rev hd_rev simp flip: hd_rev)

lemma edge_config_OkD:
  assumes "edge_config U cli = Inr config"
  shows "\<exists>public host ws_url. fu_parse U (ec_public_url cli) = Inr public \<and>
    (fu_scheme U public = ''http'' \<or> fu_scheme U public = ''https'') \<and>
    fu_host_str U public = Some host \<and>
    fu_parse U (trim_end_matches CHR ''/'' (ec_ws_url cli)) = Inr ws_url \<and>
    fu_path U ws_url = ''/ws'' \<and> url_query U ws_url = None \<and> fu_fragment U ws_url = None \<and>
    cf_host config = (case fu_port U public of Some port \<Rightarrow> host @ '':'' @ show_nat (unat port) | None \<Rightarrow> host) \<and>
    cf_force_tls config = (fu_scheme U public = ''https'') \<and> cf_signaling_ws_url config = fu_to_string U ws_url"
  using assms
  by (auto simp: edge_config_def and_then_Ok_iff ok_or_iffs Let_def split: if_splits)

lemma show_nat_no_slash: "CHR ''/'' \<notin> set (show_nat n)"
  using show_nat_digits [of n] by (auto simp: list_all_iff is_digit_def)


text \<open>A URL as its scheme, host and path; two texts parse.\<close>

type_synonym sample_url = "string \<times> string \<times> string"

definition sample_full_url_api :: "sample_url full_url_api" where
  "sample_full_url_api = \<lparr>query_pairs = (\<lambda>_. []), url_query = (\<lambda>_. None),
     fu_parse = (\<lambda>t. if t = ''https://example'' then Inr (''https'', ''example'', ''/'')
                     else if t = ''wss://example/ws'' then Inr (''wss'', ''example'', ''/ws'')
                     else Inl ''relative URL without a base''),
     fu_scheme = fst, fu_host_str = (\<lambda>(_, h, _). if h = [] \<or> CHR ''/'' \<in> set h then None else Some h),
     fu_port = (\<lambda>_. None), fu_path = (\<lambda>(_, _, p). p), fu_fragment = (\<lambda>_. None),
     fu_to_string = (\<lambda>(s, h, p). s @ ''://'' @ h @ p)\<rparr>"

lemma sample_url_laws: "url_laws sample_full_url_api"
proof -
  have "suffix p (s @ CHR '':'' # CHR ''/'' # CHR ''/'' # h @ p)" for s h p :: string
    using suffixI [of "s @ ''://'' @ h @ p" "s @ ''://'' @ h" p] by simp
  then show ?thesis by (auto simp: url_laws_def sample_full_url_api_def split: if_splits)
qed

definition sample_edge_cli :: edge_cli where
  "sample_edge_cli = \<lparr>ec_host_ip = ''127.0.0.1'', ec_port = 8, ec_web_root = ''web'',
     ec_public_url = ''https://example'', ec_ws_url = ''wss://example/ws/'', ec_grpc_url = ''https://example'',
     ec_insecure_tls = False, ec_tls = False, ec_certificate = [], ec_private_key = [],
     ec_ice_server_urls = [], ec_ice_server_base_url = [], ec_ice_server_api_key = [],
     ec_header_message = [], ec_bypass_join_confirmation = False, ec_debug = False, ec_level = ''info'',
     ec_output_log_file = []\<rparr>"

definition sample_edge_api :: "(sample_url, uuid16) edge_api" where
  "sample_edge_api = \<lparr>query_pairs = (\<lambda>_. []), url_query = (\<lambda>_. None), url_parse = (\<lambda>_. Inr ([], [], [])),
     header_to_str = Some, parse_room_token = (\<lambda>_. None), json_to_string = Some \<circ> sample_text,
     templates_api = templates_api sample_edge\<rparr>"

definition sample_startup :: "(sample_url, uuid16) startup_env" where
  "sample_startup = \<lparr>se_url = sample_full_url_api, se_edge = sample_edge_api, se_from_shared = (\<lambda>_. None),
     se_tls_config = (\<lambda>_. None), se_read = (\<lambda>_. Inl ''none''), se_read_to_string = (\<lambda>_. Inr []),
     se_join_path = (\<lambda>a b. a @ ''/'' @ b), se_parse_address = Inr, se_bind = (\<lambda>_. Inr ()),
     se_bundled = ([], []), se_certs = (\<lambda>_. Inr []), se_private_key = (\<lambda>_. Inr None),
     se_single_cert = (\<lambda>_ _. Inr ()), se_open_log = (\<lambda>_. Inr ())\<rparr>"

definition sample_config :: Config where
  "sample_config = default_config\<lparr>cf_web_root := ''web'', cf_host := ''example'', cf_force_tls := True,
     cf_signaling_ws_url := ''wss://example/ws''\<rparr>"

lemma sample_edge_config: "edge_config sample_full_url_api sample_edge_cli = Inr sample_config"
  by (simp add: edge_config_def sample_full_url_api_def sample_edge_cli_def trim_end_matches_def
      default_config_def sample_config_def)

lemma sample_edge_main:
  "\<exists>plan. edge_main sample_startup [] sample_edge_cli () = Inr plan \<and> sample_config = in_config (pl_server plan)"
proof -
  have "connect_authority sample_full_url_api (\<lambda>_. None) (\<lambda>_. None) [] ''https://example'' False \<noteq> Inl e" for e
    by (simp add: connect_authority_def edge_endpoint_def configure_endpoint_def sample_full_url_api_def Let_def)
  then obtain ep authority where
    "connect_authority sample_full_url_api (\<lambda>_. None) (\<lambda>_. None) [] ''https://example'' False = Inr (ep, authority)"
    by (metis sum.exhaust surj_pair)
  then show ?thesis
    using sample_edge_config
    by (simp add: edge_main_def sample_startup_def sample_edge_cli_def opt_tls_config_def init_logging_def new_room_server_def
        load_templates_def from_sources_with_grid_def add_template_def sample_edge_api_def sample_edge_def)
qed


section \<open>Certificates are verified\<close>

lemma configure_endpoint_OkD:
  assumes "configure_endpoint U from_shared tls_config bad_scheme no_host request_timeout url insecure_tls = Inr ep"
  shows "\<exists>parsed. fu_parse U url = Inr parsed \<and> ep_url ep = url \<and> ep_request_timeout ep = request_timeout \<and>
    (fu_scheme U parsed = ''http'' \<and> ep_tls ep = None \<or>
     fu_scheme U parsed = ''https'' \<and> (\<exists>domain. fu_host_str U parsed = Some domain \<and>
       ep_tls ep = Some (domain, if insecure_tls then NoVerification else WebPkiRoots)))"
  using assms
  by (auto simp: configure_endpoint_def and_then_Ok_iff ok_or_iffs Let_def split: if_splits option.splits)

text \<open>
  The channel of an endpoint that was configured for a URL. A verifier that asserts everything takes
  any certificate and any signature.
\<close>

definition channel_for ::
  "'u full_url_api \<Rightarrow> string \<Rightarrow> bool \<Rightarrow> ('cert, 'sig, 'scheme) server_cert_verifier \<Rightarrow>
   (string \<times> ('cert, 'sig, 'scheme) server_cert_verifier) option \<Rightarrow> bool" where
  "channel_for U url insecure_tls webpki channel \<longleftrightarrow>
     (\<exists>parsed. fu_parse U url = Inr parsed \<and>
       (if fu_scheme U parsed = ''https''
        then \<exists>domain verifier. fu_host_str U parsed = Some domain \<and> channel = Some (domain, verifier) \<and>
          (if insecure_tls
           then (\<forall>cert chain name ocsp now. verify_server_cert verifier cert chain name ocsp now = Inr ()) \<and>
             (\<forall>msg cert sig. verify_tls12_signature verifier msg cert sig = Inr () \<and>
                verify_tls13_signature verifier msg cert sig = Inr ())
           else verifier = webpki)
        else fu_scheme U parsed = ''http'' \<and> channel = None))"

lemma configured_channel:
  assumes "configure_endpoint U from_shared tls_config bad_scheme no_host request_timeout url insecure_tls = Inr ep"
  shows "channel_for U url insecure_tls webpki (channel_verifier webpki (NoCertificateVerification schemes) ep)"
    and "channel_for U url insecure_tls webpki (channel_verifier webpki (ClientNoCertificateVerification schemes) ep)"
proof -
  obtain parsed where p: "fu_parse U url = Inr parsed" and tls: "fu_scheme U parsed = ''http'' \<and> ep_tls ep = None \<or>
     fu_scheme U parsed = ''https'' \<and> (\<exists>domain. fu_host_str U parsed = Some domain \<and>
       ep_tls ep = Some (domain, if insecure_tls then NoVerification else WebPkiRoots))"
    using configure_endpoint_OkD [OF assms] by blast
  from tls show "channel_for U url insecure_tls webpki (channel_verifier webpki (NoCertificateVerification schemes) ep)"
    "channel_for U url insecure_tls webpki (channel_verifier webpki (ClientNoCertificateVerification schemes) ep)"
    unfolding channel_for_def using p
    by (cases insecure_tls; intro exI [of _ parsed];
        auto simp: channel_verifier_def NoCertificateVerification_def ClientNoCertificateVerification_def)+
qed


text \<open>
  A certificate without a key, or a key without a certificate, is refused; the bundled pair is used
  exactly when neither is given.
\<close>

lemma tls_pem_Ok_iff:
  "tls_pem bundled read certificate private_key = Inr (cert, key) \<longleftrightarrow>
   (if certificate = [] then private_key = [] \<and> bundled = (cert, key)
    else private_key \<noteq> [] \<and> read certificate = Inr cert \<and> read private_key = Inr key)"
  by (auto simp: tls_pem_def split: sum.splits)

text \<open>
  The two servers of the signaling process present the same key pair: when the process starts with TLS,
  its gRPC server reads the same PEM texts, and only the transport crate can still refuse them. The
  result of that server is discarded by \<open>main\<close>, so after such a refusal the process goes on without it.
\<close>

lemma signaling_one_key_pair:
  assumes "signaling_main S bind cli = Inr plan" and "gp_tls plan = Some (certificates, key)"
  shows "\<exists>pem. se_certs S (fst pem) = Inr certificates \<and> se_private_key S (snd pem) = Inr (Some key) \<and>
    (case grpc_server_start S server_tls (gp_grpc_tls_files plan) of
       Inl error \<Rightarrow> server_tls pem = Some error
     | Inr server \<Rightarrow> gs_identity server = Some pem)"
proof -
  have cfg: "gc_tls cli" "server_tls_config S (gc_certificate cli) (gc_private_key cli) = Inr (certificates, key)"
    and files: "gp_grpc_tls_files plan = Some (gc_certificate cli, gc_private_key cli)"
    using assms by (auto simp: signaling_main_def opt_tls_config_def and_then_Ok_iff split: if_splits)
  then obtain pem where pem: "tls_pem (se_bundled S) (se_read S) (gc_certificate cli) (gc_private_key cli) = Inr pem"
    "se_certs S (fst pem) = Inr certificates" "se_private_key S (snd pem) = Inr (Some key)"
    by (auto simp: server_tls_config_def and_then_Ok_iff ok_or_iffs)
  have "case grpc_server_start S server_tls (gp_grpc_tls_files plan) of
      Inl error \<Rightarrow> server_tls pem = Some error | Inr server \<Rightarrow> gs_identity server = Some pem"
    by (cases "server_tls pem") (simp_all add: files grpc_server_start_def pem(1))
  with pem(2,3) show ?thesis by blast
qed

text \<open>The worker has no redirect server without a target; with one, a TLS server never falls back to plain HTTP.\<close>

lemma worker_redirect_tls:
  assumes "worker_redirect S bind cli = Some (Inr plan)"
  shows "sc_redirect_url cli \<noteq> [] \<and> rd_address plan = (sc_host_ip cli, sc_port cli) \<and>
    (sc_tls cli \<longleftrightarrow> rd_tls plan \<noteq> None) \<and> rd_answer plan = redirect_response (sc_redirect_url cli)"
  using assms
  by (auto simp: worker_redirect_def run_redirect_def opt_tls_config_def and_then_Ok_iff split: if_splits)

end
