(* ===== verification/Edge_Types.thy ===== *)
theory Edge_Types
  imports Edge
begin

text \<open>
  What a client of the edge may rely on: the shape of every response of the router. A type describes a
  JSON value; the type of an object lists its fields, each required or optional, and an object of that
  type has no other field and no field twice.
\<close>

section \<open>Types of JSON values\<close>

datatype json_type =
    TBool
  | TU64
  | TFloat
  | TString
  | TArray json_type
  | TObject "(string \<times> bool \<times> json_type) list"

fun has_type :: "json \<Rightarrow> json_type \<Rightarrow> bool" where
  "has_type (JBool b) TBool = True"
| "has_type (JInt n) TU64 = (0 \<le> n \<and> n < 2 ^ 64)"
| "has_type (JFloat t) TFloat = True"
| "has_type (JString t) TString = True"
| "has_type (JArray xs) (TArray ty) = list_all (\<lambda>x. has_type x ty) xs"
| "has_type (JObject m) (TObject fs) =
     (distinct (map fst m) \<and>
      list_all (\<lambda>(k, v). case map_of fs k of None \<Rightarrow> False | Some (_, ty) \<Rightarrow> has_type v ty) m \<and>
      list_all (\<lambda>(k, required, _). required \<longrightarrow> k \<in> fst ` set m) fs)"
| "has_type _ _ = False"

section \<open>The types of the responses\<close>

abbreviation req :: "string \<Rightarrow> json_type \<Rightarrow> string \<times> bool \<times> json_type" where
  "req name ty \<equiv> (name, True, ty)"

abbreviation opt :: "string \<Rightarrow> json_type \<Rightarrow> string \<times> bool \<times> json_type" where
  "opt name ty \<equiv> (name, False, ty)"

definition room_parameters_type :: json_type where
  "room_parameters_type = TObject
     [opt ''client_id'' TString, opt ''room_id'' TString, opt ''room_link'' TString, req ''wss_url'' TString,
      opt ''wss_post_url'' TString, req ''ice_server_url'' TString, req ''ice_server_transports'' TString,
      req ''header_message'' TString, opt ''is_initiator'' TString, req ''is_loopback'' TString,
      req ''pc_config'' TString, req ''pc_constraints'' TString, req ''offer_options'' TString,
      req ''media_constraints'' TString, req ''bypass_join_confirmation'' TString, req ''version_info'' TString,
      req ''include_loopback_js'' TString, opt ''messages'' (TArray TString),
      req ''error_messages'' (TArray TString), req ''warning_messages'' (TArray TString)]"

definition join_type :: json_type where
  "join_type = TObject [req ''result'' TString, req ''params'' room_parameters_type]"

definition v2_join_parameters_type :: json_type where
  "v2_join_parameters_type = TObject
     [req ''client_id'' TString, req ''room_id'' TString, req ''room_link'' TString, req ''mode'' TString,
      req ''epoch'' TString, req ''wss_url'' TString, req ''admission_token'' TString,
      opt ''is_initiator'' TBool]"

definition v2_join_type :: json_type where
  "v2_join_type = TObject [req ''result'' TString, opt ''params'' v2_join_parameters_type]"

definition result_type :: json_type where
  "result_type = TObject [req ''result'' TString]"

definition ice_config_type :: json_type where
  "ice_config_type = TObject [req ''iceServers'' (TArray (TObject
     [req ''urls'' (TArray TString), opt ''username'' TString, opt ''credential'' TString]))]"

definition status_type :: json_type where
  "status_type = TObject [req ''upsec'' TFloat, req ''openws'' TU64, req ''totalws'' TU64,
     req ''wserrors'' TU64, req ''httperrors'' TU64]"

text \<open>The body of a successful response; the page of a V2 room refuses a malformed room as JSON.\<close>

fun body_typed :: "request \<Rightarrow> body \<Rightarrow> bool" where
  "body_typed (PostJoin _ _ _ _) (JsonBody v) = has_type v join_type"
| "body_typed (PostV2Join _ _ _ _) (JsonBody v) = has_type v v2_join_type"
| "body_typed (PostV2Leave _ _ _) (JsonBody v) = has_type v result_type"
| "body_typed (PostMessage _ _ _) (JsonBody v) = has_type v result_type"
| "body_typed (GetParams _ _) (JsonBody v) = has_type v room_parameters_type"
| "body_typed (GetV2Params _ _) (JsonBody v) = has_type v room_parameters_type"
| "body_typed IceConfig (JsonBody v) = has_type v ice_config_type"
| "body_typed (GetStatus _) (JsonBody v) = has_type v status_type"
| "body_typed (GetMain _ _) (HtmlBody page) = True"
| "body_typed (GetRoom _ _ _) (HtmlBody page) = True"
| "body_typed (GetV2Room _ _ _) (HtmlBody page) = True"
| "body_typed (GetV2Room _ _ _) (JsonBody v) = (v = JObject [(''result'', JString ''INVALID_ROOM_ID'')])"
| "body_typed (PostLeave _ _) EmptyBody = True"
| "body_typed (BridgePost _ _ _) (TextBody t) = (t = ''OK'' @ [CHR 0x0A])"
| "body_typed (BridgeDelete _ _) (TextBody t) = (t = ''OK'' @ [CHR 0x0A])"
| "body_typed _ _ = False"

text \<open>The requests that other origins may make, and the methods the response names for them.\<close>

fun cors_methods :: "request \<Rightarrow> string option" where
  "cors_methods (BridgePost _ _ _) = Some ''POST, DELETE''"
| "cors_methods (BridgeDelete _ _) = Some ''POST, DELETE''"
| "cors_methods _ = None"

definition response_typed :: "request \<Rightarrow> response \<Rightarrow> bool" where
  "response_typed q r \<longleftrightarrow>
     (if re_status r = 500 then \<exists>text. re_body r = TextBody (text @ [CHR 0x0A])
      else re_status r = 200 \<and> body_typed q (re_body r)) \<and>
     (\<forall>methods. cors_methods q = Some methods \<longrightarrow>
        hm_get (re_headers r) ''access-control-allow-origin'' = Some ''*'' \<and>
        hm_get (re_headers r) ''access-control-allow-methods'' = Some methods)"

section \<open>Values of their types\<close>

lemma strings_typed [simp]: "list_all (\<lambda>v. has_type v TString) (map JString ts)"
  by (induction ts) simp_all

lemma room_parameters_typed [simp]: "has_type (room_parameters_value p) room_parameters_type"
  by (simp add: room_parameters_value_def room_parameters_type_def field_unless_empty_def)

lemma join_response_typed [simp]: "has_type (join_response_value result p) join_type"
  by (simp add: join_response_value_def join_type_def)

lemma v2_join_parameters_typed [simp]: "has_type (v2_join_parameters_value p) v2_join_parameters_type"
  by (simp add: v2_join_parameters_value_def v2_join_parameters_type_def split: option.split)

lemma v2_join_response_typed [simp]: "has_type (v2_join_response_value result p) v2_join_type"
  by (simp add: v2_join_response_value_def v2_join_type_def split: option.split)

lemma ice_server_typed:
  "has_type (ice_server_value server) (TObject
     [req ''urls'' (TArray TString), opt ''username'' TString, opt ''credential'' TString])"
  by (simp add: ice_server_value_def field_unless_empty_def)

lemma ice_config_typed [simp]: "has_type (ice_config config) ice_config_type"
  by (simp add: ice_config_def ice_config_type_def list_all_iff ice_server_typed)

lemma status_report_typed [simp]: "has_type (status_report_value report) status_type"
  using uint_lt2p [of "sr_open_ws report"] uint_lt2p [of "sr_total_ws report"]
    uint_lt2p [of "sr_ws_errs report"] uint_lt2p [of "sr_http_errs report"]
  by (simp add: status_report_value_def status_type_def)

lemma cors_headers [simp]:
  "hm_get (re_headers (cors r methods)) ''access-control-allow-origin'' = Some ''*''"
  "hm_get (re_headers (cors r methods)) ''access-control-allow-methods'' = Some methods"
  "re_body (cors r methods) = re_body r"
  by (simp_all add: cors_def hm_simps)

section \<open>The router is well typed\<close>

lemma route_answer_typed:
  assumes "route A Au q sv = (Some r, sv')"
  shows "response_typed q r"
  using assms
  by (cases q)
    (auto simp: handler_defs v2_join_def cors_text_def response_typed_def result_type_def Let_def
      split: if_splits option.splits sum.splits prod.splits v2_join_outcome.splits)

text \<open>
  C36. Every response of the edge has the type of its route, for every configuration, every request and
  whatever the authority answers: either status 500 with a line of text, or status 200 with the body of
  the route: a page, an empty body, or a JSON object with exactly the fields the clients read, none of
  them twice, the required ones present and each of its type. The message bridge allows other origins
  on all of its answers, errors included.
\<close>
theorem route_typed:
  "case route A Au q sv of (None, _) \<Rightarrow> True | (Some r, _) \<Rightarrow> response_typed q r"
  using route_answer_typed [of A Au q sv] by (cases "route A Au q sv") (auto split: option.split)

end
