(* ===== verification/Tls_Listener.thy ===== *)
theory Tls_Listener
  imports Prelude
begin

text \<open>
  The TLS listener of the HTTPS servers (\<open>TlsListener\<close> in \<open>src/src/tls.rs\<close>). One task accepts TCP
  connections and spawns a task for each; that task performs the TLS handshake under a time limit and
  hands the stream over through a bounded channel, from which \<open>accept\<close> takes it. The tasks run
  concurrently: an event is what one of them does between two waits, and an event that its task has to
  wait for is not possible. TCP connections are numbered in the order of their arrival.
\<close>

section \<open>The listener\<close>

definition STREAM_CAPACITY :: nat where "STREAM_CAPACITY = 1024"

text \<open>
  The spawned tasks, by the number of their connection, each with its peer: in the handshake, with a
  finished stream that is to be sent, or done. \<open>tl_streams\<close> is the channel, until the listener is
  dropped.
\<close>

datatype tls_stage = Handshaking | SendingStream | TaskDone

record 'p tls_listener =
  tl_address :: string
  tl_tasks :: "('p \<times> tls_stage) list"
  tl_streams :: "(nat \<times> 'p) list"
  tl_dropped :: bool

text \<open>\<open>listener.local_addr().expect(..)\<close>: without a local address the process panics.\<close>

definition new_tls_listener :: "string option \<Rightarrow> 'p tls_listener option" where
  "new_tls_listener local_addr =
     map_option (\<lambda>address. \<lparr>tl_address = address, tl_tasks = [], tl_streams = [], tl_dropped = False\<rparr>)
       local_addr"

definition local_addr :: "'p tls_listener \<Rightarrow> (string, string) result" where
  "local_addr l = Inr (tl_address l)"

datatype 'p tls_event =
    TcpAccepted 'p
  | TcpFailed string
  | HandshakeOk nat
  | HandshakeFailed nat string
  | HandshakeTimedOut nat
  | StreamSent nat
  | StreamAccepted nat 'p
  | ListenerDropped

text \<open>A task of the given stage moves on.\<close>

definition move_task :: "nat \<Rightarrow> tls_stage \<Rightarrow> tls_stage \<Rightarrow> 'p tls_listener \<Rightarrow> 'p tls_listener option" where
  "move_task n stage stage' l =
     (if n < length (tl_tasks l) \<and> snd (tl_tasks l ! n) = stage
      then Some (l\<lparr>tl_tasks := (tl_tasks l)[n := (fst (tl_tasks l ! n), stage')]\<rparr>) else None)"

fun tls_step :: "'p tls_event \<Rightarrow> 'p tls_listener \<Rightarrow> 'p tls_listener option" where
  "tls_step (TcpAccepted peer) l = Some (l\<lparr>tl_tasks := tl_tasks l @ [(peer, Handshaking)]\<rparr>)"
| "tls_step (TcpFailed error) l = Some l"
| "tls_step (HandshakeOk n) l = move_task n Handshaking SendingStream l"
| "tls_step (HandshakeFailed n error) l = move_task n Handshaking TaskDone l"
| "tls_step (HandshakeTimedOut n) l = move_task n Handshaking TaskDone l"
| "tls_step (StreamSent n) l =
     (if tl_dropped l then move_task n SendingStream TaskDone l
      else if length (tl_streams l) < STREAM_CAPACITY
      then map_option (\<lambda>l'. l'\<lparr>tl_streams := tl_streams l @ [(n, fst (tl_tasks l ! n))]\<rparr>)
             (move_task n SendingStream TaskDone l)
      else None)"
| "tls_step (StreamAccepted n peer) l =
     (case tl_streams l of
        [] \<Rightarrow> None
      | stream # streams \<Rightarrow> if stream = (n, peer) then Some (l\<lparr>tl_streams := streams\<rparr>) else None)"
| "tls_step ListenerDropped l = Some (l\<lparr>tl_streams := [], tl_dropped := True\<rparr>)"

definition tls_run :: "'p tls_event list \<Rightarrow> 'p tls_listener \<Rightarrow> 'p tls_listener option" where
  "tls_run events l = foldl (\<lambda>o_l ev. Option.bind o_l (tls_step ev)) (Some l) events"

text \<open>
  \<open>accept\<close> as the server calls it: the next stream, or waiting for one. The third outcome is the panic
  \<open>TLS accept loop stopped\<close>, when every sender is gone; the accepting task keeps one for ever.
\<close>

datatype 'p accept_outcome = AcceptedStream nat 'p | AcceptWaits | AcceptPanics

definition senders_left :: "'p tls_listener \<Rightarrow> nat" where
  "senders_left l = 1 + length (filter (\<lambda>(_, stage). stage \<noteq> TaskDone) (tl_tasks l))"

definition accept :: "'p tls_listener \<Rightarrow> 'p accept_outcome" where
  "accept l =
     (case tl_streams l of
        (n, peer) # _ \<Rightarrow> AcceptedStream n peer
      | [] \<Rightarrow> if senders_left l = 0 then AcceptPanics else AcceptWaits)"

section \<open>Every stream is handed over once\<close>

fun arrivals :: "'p tls_event list \<Rightarrow> 'p list" where
  "arrivals [] = []"
| "arrivals (TcpAccepted peer # events) = peer # arrivals events"
| "arrivals (_ # events) = arrivals events"

fun completed :: "'p tls_event list \<Rightarrow> nat list" where
  "completed [] = []"
| "completed (HandshakeOk n # events) = n # completed events"
| "completed (_ # events) = completed events"

fun handed_over :: "'p tls_event list \<Rightarrow> (nat \<times> 'p) list" where
  "handed_over [] = []"
| "handed_over (StreamAccepted n peer # events) = (n, peer) # handed_over events"
| "handed_over (_ # events) = handed_over events"

lemma tls_histories_append [simp]:
  "arrivals (xs @ ys) = arrivals xs @ arrivals ys" "completed (xs @ ys) = completed xs @ completed ys"
  "handed_over (xs @ ys) = handed_over xs @ handed_over ys"
  subgoal by (induction xs rule: arrivals.induct) simp_all
  subgoal by (induction xs rule: completed.induct) simp_all
  subgoal by (induction xs rule: handed_over.induct) simp_all
  done

lemma tls_run_snoc [simp]: "tls_run (events @ [ev]) l = Option.bind (tls_run events l) (tls_step ev)"
  by (simp add: tls_run_def)

text \<open>
  A task that is done leaves at most one stream behind. The connections whose handshake succeeded are
  those with a finished stream that is to be sent, in the channel or handed over (until the listener is
  dropped).
\<close>

definition listener_inv :: "'p tls_event list \<Rightarrow> 'p tls_listener \<Rightarrow> bool" where
  "listener_inv events l \<longleftrightarrow>
     map fst (tl_tasks l) = arrivals events \<and>
     distinct (map fst (handed_over events @ tl_streams l)) \<and>
     (\<forall>n peer. (n, peer) \<in> set (handed_over events @ tl_streams l) \<longrightarrow>
        n < length (tl_tasks l) \<and> tl_tasks l ! n = (peer, TaskDone) \<and> n \<in> set (completed events)) \<and>
     (\<forall>n < length (tl_tasks l). snd (tl_tasks l ! n) = SendingStream \<longrightarrow> n \<in> set (completed events)) \<and>
     (\<forall>n \<in> set (completed events). n < length (tl_tasks l) \<and> (snd (tl_tasks l ! n) = SendingStream \<or>
        snd (tl_tasks l ! n) = TaskDone \<and>
          (tl_dropped l \<or> n \<in> fst ` set (handed_over events @ tl_streams l))))"

lemma move_task_Some:
  "move_task n stage stage' l = Some l' \<longleftrightarrow> n < length (tl_tasks l) \<and> snd (tl_tasks l ! n) = stage \<and>
     l' = l\<lparr>tl_tasks := (tl_tasks l)[n := (fst (tl_tasks l ! n), stage')]\<rparr>"
  by (auto simp: move_task_def)

lemma map_fst_move: "n < length xs \<Longrightarrow> map fst (xs[n := (fst (xs ! n), y)]) = map fst xs"
  by (metis fst_conv length_map list_update_id map_update nth_map)

lemma listener_invD:
  assumes "listener_inv events l"
  shows "map fst (tl_tasks l) = arrivals events"
    and "distinct (map fst (handed_over events @ tl_streams l))"
    and "\<And>n peer. (n, peer) \<in> set (handed_over events @ tl_streams l) \<Longrightarrow>
      n < length (tl_tasks l) \<and> tl_tasks l ! n = (peer, TaskDone) \<and> n \<in> set (completed events)"
    and "\<And>n. n < length (tl_tasks l) \<Longrightarrow> snd (tl_tasks l ! n) = SendingStream \<Longrightarrow> n \<in> set (completed events)"
    and "\<And>n. n \<in> set (completed events) \<Longrightarrow> n < length (tl_tasks l) \<and> (snd (tl_tasks l ! n) = SendingStream \<or>
      snd (tl_tasks l ! n) = TaskDone \<and> (tl_dropped l \<or> n \<in> fst ` set (handed_over events @ tl_streams l)))"
  using assms unfolding listener_inv_def by blast+

text \<open>A connection still in its handshake has no stream and is not completed.\<close>

lemma handshaking_fresh:
  assumes "listener_inv events l" and "snd (tl_tasks l ! n) = Handshaking"
  shows "n \<notin> set (completed events)" and "(n, peer) \<notin> set (handed_over events @ tl_streams l)"
  using assms(2) listener_invD(5) [OF assms(1), of n] listener_invD(3) [OF assms(1), of n peer] by auto

lemma listener_inv_accepted:
  assumes "listener_inv events l"
  shows "listener_inv (events @ [TcpAccepted peer]) (l\<lparr>tl_tasks := tl_tasks l @ [(peer, Handshaking)]\<rparr>)"
  unfolding listener_inv_def using listener_invD(1-3,5) [OF assms]
  by (auto simp: nth_append less_Suc_eq dest: listener_invD(4) [OF assms])

lemma listener_inv_failed:
  assumes "listener_inv events l" and "n < length (tl_tasks l)" and "snd (tl_tasks l ! n) = Handshaking"
    and "arrivals [ev] = []" and "completed [ev] = []" and "handed_over [ev] = []"
  shows "listener_inv (events @ [ev]) (l\<lparr>tl_tasks := (tl_tasks l)[n := (fst (tl_tasks l ! n), TaskDone)]\<rparr>)"
  unfolding listener_inv_def tls_histories_append assms(4-6)
  using assms(2,3) listener_invD(1-3,5) [OF assms(1)] handshaking_fresh [OF assms(1,3)]
  by (auto simp: map_fst_move nth_list_update dest: listener_invD(4) [OF assms(1)])

lemma listener_inv_completed:
  assumes "listener_inv events l" and "n < length (tl_tasks l)" and "snd (tl_tasks l ! n) = Handshaking"
  shows "listener_inv (events @ [HandshakeOk n])
    (l\<lparr>tl_tasks := (tl_tasks l)[n := (fst (tl_tasks l ! n), SendingStream)]\<rparr>)"
  unfolding listener_inv_def
  using assms(2,3) listener_invD(1-3,5) [OF assms(1)] handshaking_fresh [OF assms(1,3)]
  by (auto simp: map_fst_move nth_list_update dest: listener_invD(4) [OF assms(1)])

lemma listener_inv_sent:
  assumes "listener_inv events l" and "n < length (tl_tasks l)" and "snd (tl_tasks l ! n) = SendingStream"
    and "peer = fst (tl_tasks l ! n)"
  shows "listener_inv (events @ [StreamSent n]) (l\<lparr>tl_tasks := (tl_tasks l)[n := (peer, TaskDone)],
    tl_streams := (if tl_dropped l then tl_streams l else tl_streams l @ [(n, peer)])\<rparr>)"
proof -
  have no: "(n, peer') \<notin> set (handed_over events @ tl_streams l)" for peer'
    using listener_invD(3) [OF assms(1), of n peer'] assms(3) by auto
  then have "n \<notin> fst ` set (handed_over events @ tl_streams l)" by force
  with no show ?thesis
    unfolding listener_inv_def
    using assms(2-4) listener_invD(1-3) [OF assms(1)] listener_invD(4) [OF assms(1-3)]
    by (auto simp: map_fst_move nth_list_update dest: listener_invD(5) [OF assms(1), unfolded set_append]
        listener_invD(4) [OF assms(1)])
qed

lemma listener_inv_dropped:
  assumes "listener_inv events l"
  shows "listener_inv (events @ [ListenerDropped]) (l\<lparr>tl_streams := [], tl_dropped := True\<rparr>)"
  unfolding listener_inv_def using listener_invD(1-3) [OF assms]
  by (auto dest: listener_invD(4,5) [OF assms])

lemma listener_inv_step:
  assumes inv: "listener_inv events l" and step: "tls_step ev l = Some l'"
  shows "listener_inv (events @ [ev]) l'"
proof (cases ev)
  case (StreamSent n)
  with step listener_inv_sent [OF inv] show ?thesis
    by (cases "tl_dropped l") (auto simp: move_task_Some split: if_splits)
next
  case (StreamAccepted n peer)
  with step obtain streams where l': "tl_streams l = (n, peer) # streams" "l' = l\<lparr>tl_streams := streams\<rparr>"
    by (auto split: list.splits if_splits)
  have "set (handed_over (events @ [ev]) @ tl_streams l') = set (handed_over events @ tl_streams l)"
    using l' StreamAccepted by auto
  with listener_invD [OF inv] show ?thesis
    unfolding listener_inv_def by (simp add: l' StreamAccepted)
qed (use inv step in \<open>auto simp: move_task_Some listener_inv_accepted listener_inv_failed
    listener_inv_completed listener_inv_dropped, auto simp: listener_inv_def\<close>)

lemma tls_run_inv:
  "tls_run events l = Some l' \<Longrightarrow> new_tls_listener address = Some l \<Longrightarrow> listener_inv events l'"
proof (induction events arbitrary: l' rule: rev_induct)
  case Nil
  then show ?case by (auto simp: tls_run_def new_tls_listener_def listener_inv_def)
next
  case (snoc ev events)
  then show ?case by (auto simp: bind_eq_Some_conv intro: listener_inv_step)
qed

text \<open>
  C37. The TLS listener hands every connection over at most once, with its own peer, and only after its
  handshake has succeeded; until the server drops the listener no successful handshake is lost: its
  stream has been handed over, is in the channel or waits for room in it. Connections that are slow,
  fail or time out in their handshake never stop the listener from taking new connections, nor a
  finished stream from going into the channel when that has room; and \<open>accept\<close> never panics.
\<close>
theorem tls_listener_delivers:
  assumes "new_tls_listener address = Some l0" and "tls_run events l0 = Some l"
  shows "distinct (map fst (handed_over events)) \<and>
    (\<forall>n peer. (n, peer) \<in> set (handed_over events) \<longrightarrow>
       n \<in> set (completed events) \<and> n < length (arrivals events) \<and> arrivals events ! n = peer) \<and>
    (\<not> tl_dropped l \<longrightarrow> (\<forall>n \<in> set (completed events).
       n \<in> fst ` set (handed_over events) \<or> n \<in> fst ` set (tl_streams l) \<or>
       tl_tasks l ! n = (arrivals events ! n, SendingStream))) \<and>
    (\<forall>peer. tls_step (TcpAccepted peer) l \<noteq> None) \<and>
    (\<forall>n < length (tl_tasks l). snd (tl_tasks l ! n) = SendingStream \<and>
       (tl_dropped l \<or> length (tl_streams l) < STREAM_CAPACITY) \<longrightarrow> tls_step (StreamSent n) l \<noteq> None) \<and>
    accept l \<noteq> AcceptPanics"
proof -
  have inv: "listener_inv events l" using tls_run_inv [OF assms(2,1)] .
  have arr: "n < length (tl_tasks l) \<Longrightarrow> fst (tl_tasks l ! n) = arrivals events ! n" for n
    using inv by (auto simp: listener_inv_def simp flip: nth_map)
  have len: "length (arrivals events) = length (tl_tasks l)"
    using inv by (metis length_map listener_inv_def)
  have "tl_tasks l ! n = (arrivals events ! n, SendingStream)"
    if "n < length (tl_tasks l)" "snd (tl_tasks l ! n) = SendingStream" for n
    using that arr by (metis prod.collapse)
  moreover have "arrivals events ! n = peer" if "(n, peer) \<in> set (handed_over events)" for n peer
    using inv that arr [of n] by (force simp: listener_inv_def)
  moreover have "accept l \<noteq> AcceptPanics" by (simp add: accept_def senders_left_def split: list.split)
  ultimately show ?thesis
    using inv len by (auto simp: listener_inv_def move_task_def)
qed

text \<open>Two connections: the first stalls in its handshake, the second is served.\<close>

theorem tls_listener_delivers_witness:
  "\<exists>l. tls_run [TcpAccepted ''a'', TcpAccepted ''b'', HandshakeOk 1, StreamSent 1, StreamAccepted 1 ''b'']
     \<lparr>tl_address = ''0.0.0.0:443'', tl_tasks = [], tl_streams = [], tl_dropped = False\<rparr> = Some l \<and>
     (\<forall>peer. tls_step (TcpAccepted peer) l \<noteq> None) \<and> accept l = AcceptWaits"
proof -
  let ?l0 = "\<lparr>tl_address = ''0.0.0.0:443'', tl_tasks = [], tl_streams = [], tl_dropped = False\<rparr>"
  let ?events = "[TcpAccepted ''a'', TcpAccepted ''b'', HandshakeOk 1, StreamSent 1, StreamAccepted 1 ''b'']"
  have new: "new_tls_listener (Some ''0.0.0.0:443'') = Some ?l0" by (simp add: new_tls_listener_def)
  obtain l where l: "tls_run ?events ?l0 = Some l" "tl_streams l = []"
    by (simp add: tls_run_def move_task_def STREAM_CAPACITY_def)
  from tls_listener_delivers [OF new l(1)] l show ?thesis
    by (intro exI [of _ l]) (simp add: accept_def senders_left_def)
qed

end
