(* ===== verification/Signaling_Server.thy ===== *)
theory Signaling_Server
  imports Wire "HOL-Library.Sublist"
begin

text \<open>
  The event loop that owns the Sans-I/O signaling state machine (\<open>src/src/signaling_server.rs\<close>):
  \<open>handle_command\<close>, \<open>drain_outputs\<close>, \<open>drain_authority_responses\<close> and \<open>run\<close>. The state machine
  (\<open>signaling::collider::Collider\<close>) is a parameter, the fields of \<open>collider_api\<close>; a Boolean result
  says whether a call returned \<open>Ok\<close>.

  A bounded channel is its queue, its capacity and whether the receiver exists; \<open>try_send\<close> is what
  the loop does with it. A one-shot sender is the number of its request. Clock readings are inputs.
\<close>

section \<open>Interfaces\<close>

datatype SocketOutput = SocketText string | SocketClose

datatype browser_input =
    BConnected u64
  | BText u64 string instant
  | BDisconnected u64 instant

datatype 'r browser_output =
    OText u64 string
  | OClose u64
  | OSfu "'r sfu_output"

type_synonym authority_response = "u64 \<times> authority_result"

record ('r, 'c) collider_api =
  handle_read :: "'c \<Rightarrow> browser_input \<Rightarrow> bool \<times> 'c"
  handle_write :: "'c \<Rightarrow> u64 \<times> 'r authority_operation \<Rightarrow> bool \<times> 'c"
  handle_sfu_input :: "'c \<Rightarrow> 'r sfu_input \<Rightarrow> bool \<times> 'c"
  handle_timeout :: "'c \<Rightarrow> instant \<Rightarrow> bool \<times> 'c"
  poll_timeout :: "'c \<Rightarrow> instant option"
  poll_write :: "'c \<Rightarrow> 'r browser_output option \<times> 'c"
  poll_event :: "'c \<Rightarrow> authority_response option \<times> 'c"
  collider_close :: "'c \<Rightarrow> 'c"

record 'm channel =
  ch_queue :: "'m list"
  ch_capacity :: nat
  ch_open :: bool

definition try_send :: "'m \<Rightarrow> 'm channel \<Rightarrow> bool \<times> 'm channel" where
  "try_send m c =
     (if ch_open c \<and> length (ch_queue c) < ch_capacity c
      then (True, c\<lparr>ch_queue := ch_queue c @ [m]\<rparr>) else (False, c))"

datatype 'r DriverCommand =
    Connected u64 "SocketOutput channel"
  | Text u64 string instant
  | Authority u64 "'r authority_operation" nat
  | SfuConnected "'r sfu_input" "'r sfu_output channel"
  | SfuInput "'r sfu_input"
  | Disconnected u64 instant

text \<open>
  The state of the loop. \<open>dr_closed\<close> and \<open>dr_answers\<close> record what left it: the channels of sockets it
  has dropped, and the responses sent on one-shot senders.
\<close>

record ('r, 'c) driver =
  dr_collider :: 'c
  dr_sockets :: "(u64, SocketOutput channel) hashmap"
  dr_sfu_sessions :: "(u64, 'r sfu_output channel) hashmap"
  dr_pending :: "(u64, nat) hashmap"
  dr_closed :: "(u64 \<times> SocketOutput channel) list"
  dr_answers :: "(nat \<times> authority_response) list"

section \<open>Commands\<close>

definition remove_socket :: "u64 \<Rightarrow> ('r, 'c) driver \<Rightarrow> ('r, 'c) driver" where
  "remove_socket connection_id d =
     d\<lparr>dr_sockets := hm_remove connection_id (dr_sockets d),
       dr_closed := dr_closed d @ (case hm_get (dr_sockets d) connection_id of
         None \<Rightarrow> [] | Some socket \<Rightarrow> [(connection_id, socket)])\<rparr>"

text \<open>\<open>if let Some(socket) = sockets.remove(..) { let _ = socket.try_send(Close); }\<close>\<close>

definition close_socket :: "u64 \<Rightarrow> ('r, 'c) driver \<Rightarrow> ('r, 'c) driver" where
  "close_socket connection_id d =
     d\<lparr>dr_sockets := hm_remove connection_id (dr_sockets d),
       dr_closed := dr_closed d @ (case hm_get (dr_sockets d) connection_id of
         None \<Rightarrow> [] | Some socket \<Rightarrow> [(connection_id, snd (try_send SocketClose socket))])\<rparr>"

definition answer :: "nat \<Rightarrow> authority_response \<Rightarrow> ('r, 'c) driver \<Rightarrow> ('r, 'c) driver" where
  "answer sender response d = d\<lparr>dr_answers := dr_answers d @ [(sender, response)]\<rparr>"

fun handle_command ::
  "('r, 'c) collider_api \<Rightarrow> 'r DriverCommand \<Rightarrow> ('r, 'c) driver \<Rightarrow> ('r, 'c) driver" where
  "handle_command A (Connected connection_id output) d =
     (let d1 = d\<lparr>dr_sockets := hm_insert connection_id output (dr_sockets d)\<rparr>;
          (ok, collider) = handle_read A (dr_collider d1) (BConnected connection_id);
          d2 = d1\<lparr>dr_collider := collider\<rparr>
      in if ok then d2 else remove_socket connection_id d2)"
| "handle_command A (Text connection_id text now) d =
     (let (ok, collider) = handle_read A (dr_collider d) (BText connection_id text now);
          d1 = d\<lparr>dr_collider := collider\<rparr>
      in if ok then d1 else close_socket connection_id d1)"
| "handle_command A (Authority request_id operation response) d =
     (let d1 = d\<lparr>dr_pending := hm_insert request_id response (dr_pending d)\<rparr>;
          (ok, collider) = handle_write A (dr_collider d1) (request_id, operation);
          d2 = d1\<lparr>dr_collider := collider\<rparr>
      in if ok then d2
         else case hm_get (dr_pending d2) request_id of
                None \<Rightarrow> d2
              | Some sender \<Rightarrow>
                  answer sender (request_id, ErrorResult ''INTERNAL'')
                    (d2\<lparr>dr_pending := hm_remove request_id (dr_pending d2)\<rparr>))"
| "handle_command A (SfuConnected input output) d =
     (case input of
        InRegister connection_id _ _ _ \<Rightarrow>
          (let d1 = d\<lparr>dr_sfu_sessions := hm_insert connection_id output (dr_sfu_sessions d)\<rparr>;
               (ok, collider) = handle_sfu_input A (dr_collider d1) input;
               d2 = d1\<lparr>dr_collider := collider\<rparr>
           in if ok then d2
              else d2\<lparr>dr_sfu_sessions := hm_remove connection_id (dr_sfu_sessions d2)\<rparr>)
      | _ \<Rightarrow> d)"
| "handle_command A (SfuInput input) d =
     d\<lparr>dr_collider := snd (handle_sfu_input A (dr_collider d) input)\<rparr>"
| "handle_command A (Disconnected connection_id now) d =
     (let d1 = remove_socket connection_id d
      in d1\<lparr>dr_collider := snd (handle_read A (dr_collider d1) (BDisconnected connection_id now))\<rparr>)"

section \<open>Outputs\<close>

fun sfu_output_connection_id :: "'r sfu_output \<Rightarrow> u64" where
  "sfu_output_connection_id (OutRegistered connection_id _ _ _) = connection_id"
| "sfu_output_connection_id (OutRegistrationError connection_id _ _) = connection_id"
| "sfu_output_connection_id (OutCommand connection_id _) = connection_id"
| "sfu_output_connection_id (OutEventAck connection_id _) = connection_id"
| "sfu_output_connection_id (OutClose connection_id) = connection_id"

text \<open>The body of the loop in \<open>drain_outputs\<close>; the list is \<open>disconnected\<close>.\<close>

fun route_output :: "'r browser_output \<Rightarrow> ('r, 'c) driver \<times> u64 list \<Rightarrow> ('r, 'c) driver \<times> u64 list" where
  "route_output (OText connection_id text) (d, disconnected) =
     (case hm_get (dr_sockets d) connection_id of
        None \<Rightarrow> (d, disconnected)
      | Some socket \<Rightarrow>
          (case try_send (SocketText text) socket of
             (ok, socket') \<Rightarrow>
               (d\<lparr>dr_sockets := hm_insert connection_id socket' (dr_sockets d)\<rparr>,
                if ok then disconnected else disconnected @ [connection_id])))"
| "route_output (OClose connection_id) (d, disconnected) =
     (close_socket connection_id d, disconnected @ [connection_id])"
| "route_output (OSfu output) (d, disconnected) =
     (let connection_id = sfu_output_connection_id output
      in case hm_get (dr_sfu_sessions d) connection_id of
           None \<Rightarrow> (d, disconnected)
         | Some session \<Rightarrow>
             (case try_send output session of
                (ok, session') \<Rightarrow>
                  (d\<lparr>dr_sfu_sessions :=
                      (if ok then hm_insert connection_id session' (dr_sfu_sessions d)
                       else hm_remove connection_id (dr_sfu_sessions d))\<rparr>, disconnected)))"

partial_function (option) route_outputs ::
  "('r, 'c) collider_api \<Rightarrow> ('r, 'c) driver \<times> u64 list \<Rightarrow> (('r, 'c) driver \<times> u64 list) option" where
  "route_outputs A ds =
     (let polled = poll_write A (dr_collider (fst ds));
          ds' = ((fst ds)\<lparr>dr_collider := snd polled\<rparr>, snd ds)
      in case fst polled of
           None \<Rightarrow> Some ds'
         | Some output \<Rightarrow> route_outputs A (route_output output ds'))"

definition disconnect ::
  "('r, 'c) collider_api \<Rightarrow> instant \<Rightarrow> u64 \<Rightarrow> ('r, 'c) driver \<Rightarrow> ('r, 'c) driver" where
  "disconnect A now connection_id d =
     (let d1 = remove_socket connection_id d
      in d1\<lparr>dr_collider := snd (handle_read A (dr_collider d1) (BDisconnected connection_id now))\<rparr>)"

text \<open>\<open>sort_unstable\<close> and \<open>dedup\<close>, then one disconnection for each.\<close>

definition drain_outputs ::
  "('r, 'c) collider_api \<Rightarrow> instant \<Rightarrow> ('r, 'c) driver \<Rightarrow> ('r, 'c) driver option" where
  "drain_outputs A now d =
     map_option (\<lambda>(d', disconnected). fold (disconnect A now) (remdups_adj (sort disconnected)) d')
       (route_outputs A (d, []))"

partial_function (option) drain_authority_responses ::
  "('r, 'c) collider_api \<Rightarrow> ('r, 'c) driver \<Rightarrow> ('r, 'c) driver option" where
  "drain_authority_responses A d =
     (let polled = poll_event A (dr_collider d); d1 = d\<lparr>dr_collider := snd polled\<rparr>
      in case fst polled of
           None \<Rightarrow> Some d1
         | Some response \<Rightarrow>
             (case hm_get (dr_pending d1) (fst response) of
                None \<Rightarrow> drain_authority_responses A d1
              | Some sender \<Rightarrow>
                  drain_authority_responses A
                    (answer sender response
                       (d1\<lparr>dr_pending := hm_remove (fst response) (dr_pending d1)\<rparr>))))"

definition drain_all ::
  "('r, 'c) collider_api \<Rightarrow> instant \<Rightarrow> ('r, 'c) driver \<Rightarrow> ('r, 'c) driver option" where
  "drain_all A now d = Option.bind (drain_outputs A now d) (drain_authority_responses A)"

section \<open>The loop\<close>

text \<open>The capacity of the channel on which the loop receives its commands.\<close>

definition COMMAND_CAPACITY :: nat where "COMMAND_CAPACITY = 1024"

text \<open>
  What wakes the loop: a stop, the state machine's deadline, a command, or the end of the command
  channel. The deadline branch exists only while \<open>poll_timeout\<close> gives one; which events can occur when
  is part of the process model (\<open>Signaling_Process\<close>).
\<close>

datatype 'r wake = WakeStop | WakeDeadline | WakeCommand "'r DriverCommand option"

text \<open>One iteration; the Boolean says whether the loop goes on.\<close>

fun driver_step ::
  "('r, 'c) collider_api \<Rightarrow> instant \<Rightarrow> 'r wake \<Rightarrow> ('r, 'c) driver \<Rightarrow> (('r, 'c) driver \<times> bool) option" where
  "driver_step A now WakeStop d = Some (d, False)"
| "driver_step A now WakeDeadline d =
     (case handle_timeout A (dr_collider d) now of
        (ok, collider) \<Rightarrow>
          if ok then map_option (\<lambda>d'. (d', True)) (drain_all A now (d\<lparr>dr_collider := collider\<rparr>))
          else Some (d\<lparr>dr_collider := collider\<rparr>, False))"
| "driver_step A now (WakeCommand None) d = Some (d, False)"
| "driver_step A now (WakeCommand (Some command)) d =
     map_option (\<lambda>d'. (d', True)) (drain_all A now (handle_command A command d))"

text \<open>The code after the loop: commands already queued, then the close of the state machine.\<close>

definition driver_shutdown ::
  "('r, 'c) collider_api \<Rightarrow> instant \<Rightarrow> 'r DriverCommand list \<Rightarrow> ('r, 'c) driver \<Rightarrow>
   ('r, 'c) driver option" where
  "driver_shutdown A now queued d =
     (let d1 = fold (handle_command A) queued d
      in drain_all A now (d1\<lparr>dr_collider := collider_close A (dr_collider d1)\<rparr>))"

fun driver_run ::
  "('r, 'c) collider_api \<Rightarrow> (instant \<times> 'r wake) list \<Rightarrow> 'r DriverCommand list \<Rightarrow> ('r, 'c) driver \<Rightarrow>
   ('r, 'c) driver option" where
  "driver_run A [] queued d = Some d"
| "driver_run A ((now, w) # ws) queued d =
     (case driver_step A now w d of
        None \<Rightarrow> None
      | Some (d', True) \<Rightarrow> driver_run A ws queued d'
      | Some (d', False) \<Rightarrow> driver_shutdown A now queued d')"

definition new_driver :: "'c \<Rightarrow> ('r, 'c) driver" where
  "new_driver collider = \<lparr>dr_collider = collider, dr_sockets = [], dr_sfu_sessions = [],
     dr_pending = [], dr_closed = [], dr_answers = []\<rparr>"

section \<open>What a drain does\<close>

text \<open>The outputs a state machine yields until it has no more; finite when some measure decreases.\<close>

inductive collider_outputs ::
  "('r, 'c) collider_api \<Rightarrow> 'c \<Rightarrow> 'r browser_output list \<Rightarrow> 'c \<Rightarrow> bool" for A where
  outputs_done: "poll_write A c = (None, c') \<Longrightarrow> collider_outputs A c [] c'"
| outputs_more: "poll_write A c = (Some out, c1) \<Longrightarrow> collider_outputs A c1 outs c' \<Longrightarrow>
    collider_outputs A c (out # outs) c'"

definition outputs_finite :: "('r, 'c) collider_api \<Rightarrow> ('c \<Rightarrow> nat) \<Rightarrow> ('c \<Rightarrow> nat) \<Rightarrow> bool" where
  "outputs_finite A outs responses \<longleftrightarrow>
     (\<forall>c out c'. poll_write A c = (Some out, c') \<longrightarrow> outs c' < outs c) \<and>
     (\<forall>c resp c'. poll_event A c = (Some resp, c') \<longrightarrow> responses c' < responses c)"

lemma collider_outputs_exists:
  assumes "outputs_finite A outs responses"
  shows "\<exists>os c'. collider_outputs A c os c'"
proof (induction "outs c" arbitrary: c rule: less_induct)
  case less
  obtain o_out c1 where poll: "poll_write A c = (o_out, c1)" by (cases "poll_write A c")
  show ?case
  proof (cases o_out)
    case None
    with poll show ?thesis by (auto intro: outputs_done)
  next
    case (Some out)
    with assms poll have "outs c1 < outs c" unfolding outputs_finite_def by blast
    with less poll Some show ?thesis by (blast intro: outputs_more)
  qed
qed

lemma close_socket_collider [simp]:
  "dr_collider (close_socket k d) = dr_collider d" "dr_collider (remove_socket k d) = dr_collider d"
  "close_socket k (d\<lparr>dr_collider := c\<rparr>) = (close_socket k d)\<lparr>dr_collider := c\<rparr>"
  by (simp_all add: close_socket_def remove_socket_def)

lemma route_output_collider:
  "route_output out (d\<lparr>dr_collider := c\<rparr>, ds) =
   apfst (\<lambda>d. d\<lparr>dr_collider := c\<rparr>) (route_output out (d, ds))"
  "dr_collider (fst (route_output out (d, ds))) = dr_collider d"
  by (cases out; simp add: Let_def split: option.splits prod.splits)+

lemma fold_route_output_collider:
  "fold route_output outs (d\<lparr>dr_collider := c\<rparr>, ds) =
   apfst (\<lambda>d. d\<lparr>dr_collider := c\<rparr>) (fold route_output outs (d, ds))"
proof (induction outs arbitrary: d ds)
  case (Cons out outs)
  obtain d1 ds1 where "route_output out (d, ds) = (d1, ds1)" by fastforce
  with Cons show ?case by (simp add: route_output_collider(1))
qed simp

lemma route_outputs_fold:
  assumes "collider_outputs A c outs c'" and "dr_collider d = c"
  shows "route_outputs A (d, ds) =
    Some (apfst (\<lambda>d. d\<lparr>dr_collider := c'\<rparr>) (fold route_output outs (d, ds)))"
  using assms
proof (induction c outs c' arbitrary: d ds rule: collider_outputs.induct)
  case (outputs_done c c')
  then show ?case by (subst route_outputs.simps) (simp add: Let_def)
next
  case (outputs_more c out c1 outs c')
  obtain d1 ds1 where r: "route_output out (d, ds) = (d1, ds1)" by fastforce
  have "route_outputs A (d, ds) = route_outputs A (d1\<lparr>dr_collider := c1\<rparr>, ds1)"
    using outputs_more.hyps(1) outputs_more.prems
    by (subst route_outputs.simps) (simp add: Let_def route_output_collider(1) r)
  also have "\<dots> = Some (apfst (\<lambda>d. d\<lparr>dr_collider := c'\<rparr>)
      (fold route_output outs (d1\<lparr>dr_collider := c1\<rparr>, ds1)))"
    by (rule outputs_more.IH) simp
  also have "\<dots> = Some (apfst (\<lambda>d. d\<lparr>dr_collider := c'\<rparr>) (fold route_output outs (d1, ds1)))"
    unfolding fold_route_output_collider by (simp add: apfst_def map_prod_def split: prod.splits)
  finally show ?case by (simp add: r)
qed

text \<open>
  The fate of one browser connection during a drain: what becomes of its channel, and whether it is
  dropped, because the state machine closed it or because a text did not fit into its channel.
\<close>

fun socket_after :: "u64 \<Rightarrow> 'r browser_output list \<Rightarrow> SocketOutput channel option \<Rightarrow> SocketOutput channel option" where
  "socket_after k [] s = s"
| "socket_after k (OText k' text # outs) s =
     socket_after k outs (if k' = k then map_option (snd \<circ> try_send (SocketText text)) s else s)"
| "socket_after k (OClose k' # outs) s = socket_after k outs (if k' = k then None else s)"
| "socket_after k (OSfu out # outs) s = socket_after k outs s"

fun dropped :: "u64 \<Rightarrow> 'r browser_output list \<Rightarrow> SocketOutput channel option \<Rightarrow> bool" where
  "dropped k [] s = False"
| "dropped k (OText k' text # outs) s =
     (if k' = k
      then (case s of None \<Rightarrow> dropped k outs None
            | Some c \<Rightarrow> \<not> fst (try_send (SocketText text) c) \<or>
                dropped k outs (Some (snd (try_send (SocketText text) c))))
      else dropped k outs s)"
| "dropped k (OClose k' # outs) s = (k' = k \<or> dropped k outs s)"
| "dropped k (OSfu out # outs) s = dropped k outs s"

lemma fold_route_output_socket:
  "fold route_output outs (d, ds) = (d', ds') \<Longrightarrow>
   hm_get (dr_sockets d') k = socket_after k outs (hm_get (dr_sockets d) k) \<and>
   (k \<in> set ds' \<longleftrightarrow> k \<in> set ds \<or> dropped k outs (hm_get (dr_sockets d) k))"
proof (induction outs arbitrary: d ds)
  case (Cons out outs)
  obtain d1 ds1 where r: "route_output out (d, ds) = (d1, ds1)" by fastforce
  have IH: "hm_get (dr_sockets d') k = socket_after k outs (hm_get (dr_sockets d1) k) \<and>
      (k \<in> set ds' \<longleftrightarrow> k \<in> set ds1 \<or> dropped k outs (hm_get (dr_sockets d1) k))"
    using Cons.IH [of d1 ds1] Cons.prems r by simp
  show ?case
  proof (cases out)
    case (OText k' t)
    with r IH show ?thesis
      by (auto simp: hm_simps split: option.splits prod.splits if_splits)
  next
    case (OClose k')
    with r IH show ?thesis by (auto simp: hm_simps close_socket_def)
  next
    case (OSfu outp)
    with r IH show ?thesis by (auto simp: Let_def split: option.splits prod.splits)
  qed
qed simp

lemma distinct_remdups_adj: "sorted xs \<Longrightarrow> distinct (remdups_adj xs)"
  by (induction xs rule: remdups_adj.induct) (auto simp: order_le_less)

lemma remdups_adj_sort: "remdups_adj (sort xs) = sorted_list_of_set (set xs)"
  by (rule sorted_distinct_set_unique) (simp_all add: distinct_remdups_adj)

lemma fold_disconnect:
  assumes "distinct ks"
  shows "dr_collider (fold (disconnect A now) ks d) =
      fold (\<lambda>k c. snd (handle_read A c (BDisconnected k now))) ks (dr_collider d)"
    and "hm_get (dr_sockets (fold (disconnect A now) ks d)) k =
      (if k \<in> set ks then None else hm_get (dr_sockets d) k)"
  by (induction ks arbitrary: d)
     (simp_all add: disconnect_def Let_def remove_socket_def hm_simps)

lemma drain_outputs_fold:
  assumes "collider_outputs A (dr_collider d) outs c'"
  shows "\<exists>d'. drain_outputs A now d = Some d' \<and>
    (\<forall>k. hm_get (dr_sockets d') k =
       (if dropped k outs (hm_get (dr_sockets d) k) then None
        else socket_after k outs (hm_get (dr_sockets d) k))) \<and>
    dr_collider d' = fold (\<lambda>k c. snd (handle_read A c (BDisconnected k now)))
      (sorted_list_of_set {k. dropped k outs (hm_get (dr_sockets d) k)}) c'"
proof -
  obtain d1 ds where f: "fold route_output outs (d, []) = (d1, ds)" by fastforce
  then have r: "route_outputs A (d, []) = Some (d1\<lparr>dr_collider := c'\<rparr>, ds)"
    using route_outputs_fold [OF assms refl, of "[]"] by simp
  note sock = fold_route_output_socket [OF f]
  have ds: "set ds = {k. dropped k outs (hm_get (dr_sockets d) k)}" using sock by auto
  have dist: "distinct (sorted_list_of_set (set ds))" by simp
  show ?thesis
    unfolding drain_outputs_def r
    using fold_disconnect [OF dist, of A now "d1\<lparr>dr_collider := c'\<rparr>"] sock ds
    by (simp add: remdups_adj_sort)
qed

text \<open>The texts for a connection, and when they all fit.\<close>

definition texts_for :: "u64 \<Rightarrow> 'r browser_output list \<Rightarrow> string list" where
  "texts_for k outs = List.map_filter (\<lambda>out. case out of OText k' t \<Rightarrow> if k' = k then Some t else None | _ \<Rightarrow> None) outs"

lemma delivered:
  assumes "ch_open s" and "OClose k \<notin> set outs"
    and "length (ch_queue s) + length (texts_for k outs) \<le> ch_capacity s"
  shows "\<not> dropped k outs (Some s) \<and>
    socket_after k outs (Some s) = Some (s\<lparr>ch_queue := ch_queue s @ map SocketText (texts_for k outs)\<rparr>)"
  using assms
proof (induction outs arbitrary: s)
  case Nil
  then show ?case by (simp add: texts_for_def map_filter_simps)
next
  case (Cons out outs)
  show ?case
  proof (cases "\<exists>t. out = OText k t")
    case True
    then obtain t where t: "out = OText k t" by blast
    with Cons.prems have fits: "length (ch_queue s) < ch_capacity s"
      by (simp add: texts_for_def map_filter_simps)
    with Cons.prems Cons.IH [of "s\<lparr>ch_queue := ch_queue s @ [SocketText t]\<rparr>"] t show ?thesis
      by (simp add: try_send_def texts_for_def map_filter_simps)
  next
    case False
    with Cons show ?thesis
      by (cases out) (auto simp: texts_for_def map_filter_simps)
  qed
qed

text \<open>
  C27. A drain of the state machine's outputs always ends. For every browser connection it delivers
  the texts addressed to it into its channel, in order; a connection the state machine closed, or
  whose channel overflowed or lost its receiver, is removed from the sockets, and the state machine
  is told of each such connection exactly once, in increasing order, after all outputs were routed.
\<close>

theorem drain_outputs_spec:
  assumes "outputs_finite A measure_outs measure_resps"
  shows "\<exists>outs c' d'. collider_outputs A (dr_collider d) outs c' \<and> drain_outputs A now d = Some d' \<and>
    (\<forall>k. hm_get (dr_sockets d') k =
       (if dropped k outs (hm_get (dr_sockets d) k) then None
        else socket_after k outs (hm_get (dr_sockets d) k))) \<and>
    (\<forall>k s. hm_get (dr_sockets d) k = Some s \<and> ch_open s \<and> OClose k \<notin> set outs \<and>
       length (ch_queue s) + length (texts_for k outs) \<le> ch_capacity s \<longrightarrow>
       hm_get (dr_sockets d') k = Some (s\<lparr>ch_queue := ch_queue s @ map SocketText (texts_for k outs)\<rparr>)) \<and>
    dr_collider d' = fold (\<lambda>k c. snd (handle_read A c (BDisconnected k now)))
      (sorted_list_of_set {k. dropped k outs (hm_get (dr_sockets d) k)}) c'"
proof -
  obtain outs c' where o: "collider_outputs A (dr_collider d) outs c'"
    using collider_outputs_exists [OF assms] by blast
  obtain d' where d': "drain_outputs A now d = Some d'"
    "\<forall>k. hm_get (dr_sockets d') k =
       (if dropped k outs (hm_get (dr_sockets d) k) then None
        else socket_after k outs (hm_get (dr_sockets d) k))"
    "dr_collider d' = fold (\<lambda>k c. snd (handle_read A c (BDisconnected k now)))
      (sorted_list_of_set {k. dropped k outs (hm_get (dr_sockets d) k)}) c'"
    using drain_outputs_fold [OF o] by blast
  moreover have "\<forall>k s. hm_get (dr_sockets d) k = Some s \<and> ch_open s \<and> OClose k \<notin> set outs \<and>
       length (ch_queue s) + length (texts_for k outs) \<le> ch_capacity s \<longrightarrow>
       hm_get (dr_sockets d') k = Some (s\<lparr>ch_queue := ch_queue s @ map SocketText (texts_for k outs)\<rparr>)"
    using d'(2) delivered by metis
  ultimately show ?thesis using o by blast
qed

text \<open>A state machine small enough to evaluate: it echoes texts and answers operations at once.\<close>

type_synonym sample_collider = "nat browser_output list \<times> authority_response list"

definition sample_collider_api :: "(nat, sample_collider) collider_api" where
  "sample_collider_api = \<lparr>
     handle_read = (\<lambda>(os, rs) inp. case inp of BText k t now \<Rightarrow> (True, (os @ [OText k t], rs)) | _ \<Rightarrow> (True, (os, rs))),
     handle_write = (\<lambda>(os, rs) (q, op). (op \<noteq> Status, (os, if op = Status then rs else rs @ [(q, Removed)]))),
     handle_sfu_input = (\<lambda>c inp. (True, c)), handle_timeout = (\<lambda>c now. (True, c)), poll_timeout = (\<lambda>c. None),
     poll_write = (\<lambda>(os, rs). case os of [] \<Rightarrow> (None, ([], rs)) | out # os' \<Rightarrow> (Some out, (os', rs))),
     poll_event = (\<lambda>(os, rs). case rs of [] \<Rightarrow> (None, (os, [])) | r # rs' \<Rightarrow> (Some r, (os, rs'))),
     collider_close = id\<rparr>"

lemma sample_outputs_finite: "outputs_finite sample_collider_api (length \<circ> fst) (length \<circ> snd)"
  by (auto simp: outputs_finite_def sample_collider_api_def split: list.splits)

theorem drain_outputs_spec_witness:
  "\<exists>d'. drain_outputs sample_collider_api 0 (new_driver ([OText 1 ''a''], [])) = Some d'"
  using drain_outputs_spec [OF sample_outputs_finite, of "new_driver ([OText 1 ''a''], [])" 0]
  by (elim exE conjE) (rule exI)

section \<open>Invariants of the loop\<close>

text \<open>Rules for properties of a drain, from the equations of its loop.\<close>

lemma route_outputs_induct:
  assumes "\<And>ds c. P ds \<Longrightarrow> P ((fst ds)\<lparr>dr_collider := c\<rparr>, snd ds)"
    and "\<And>ds out. P ds \<Longrightarrow> P (route_output out ds)" and "P ds0"
    and "route_outputs A ds0 = Some ds1"
  shows "P ds1"
proof -
  have "P ds \<longrightarrow> P ds1" if "route_outputs A ds = Some ds1" for ds ds1
    using _ that
  proof (rule route_outputs.raw_induct)
    fix f and A :: "('a, 'b) collider_api" and ds ds'
    assume IH: "\<And>A ds ds'. f A ds = Some ds' \<Longrightarrow> P ds \<longrightarrow> P ds'"
      and body: "(let polled = poll_write A (dr_collider (fst ds));
            ds' = ((fst ds)\<lparr>dr_collider := snd polled\<rparr>, snd ds)
        in case fst polled of None \<Rightarrow> Some ds' | Some output \<Rightarrow> f A (route_output output ds')) = Some ds'"
    show "P ds \<longrightarrow> P ds'"
      using body assms(1,2) IH by (auto simp: Let_def split: option.splits)
  qed
  with assms(3,4) show ?thesis by blast
qed

lemma drain_responses_induct:
  assumes "\<And>d c. P d \<Longrightarrow> P (d\<lparr>dr_collider := c\<rparr>)"
    and "\<And>d response sender. P d \<Longrightarrow> hm_get (dr_pending d) (fst response) = Some sender \<Longrightarrow>
      P (answer sender response (d\<lparr>dr_pending := hm_remove (fst response) (dr_pending d)\<rparr>))"
    and "P d0" and "drain_authority_responses A d0 = Some d1"
  shows "P d1"
proof -
  have "P d \<longrightarrow> P d1" if "drain_authority_responses A d = Some d1" for d d1
    using _ that
  proof (rule drain_authority_responses.raw_induct)
    fix f and A :: "('a, 'b) collider_api" and d d'
    assume IH: "\<And>A d d'. f A d = Some d' \<Longrightarrow> P d \<longrightarrow> P d'"
      and body: "(let polled = poll_event A (dr_collider d); d1 = d\<lparr>dr_collider := snd polled\<rparr>
        in case fst polled of
             None \<Rightarrow> Some d1
           | Some response \<Rightarrow>
               (case hm_get (dr_pending d1) (fst response) of
                  None \<Rightarrow> f A d1
                | Some sender \<Rightarrow> f A (answer sender response
                         (d1\<lparr>dr_pending := hm_remove (fst response) (dr_pending d1)\<rparr>)))) = Some d'"
    let ?d = "d\<lparr>dr_collider := snd (poll_event A (dr_collider d))\<rparr>"
    show "P d \<longrightarrow> P d'"
    proof
      assume "P d"
      then have "P ?d" by (rule assms(1))
      then show "P d'"
        using body IH assms(2) [of ?d] by (auto simp: Let_def split: option.splits)
    qed
  qed
  with assms(3,4) show ?thesis by blast
qed

text \<open>The commands a run handles: those of its wake-ups and, once it stops, those still queued.\<close>

fun wake_commands :: "'r wake \<Rightarrow> 'r DriverCommand list" where
  "wake_commands (WakeCommand (Some command)) = [command]"
| "wake_commands _ = []"

fun handled ::
  "('r, 'c) collider_api \<Rightarrow> (instant \<times> 'r wake) list \<Rightarrow> 'r DriverCommand list \<Rightarrow> ('r, 'c) driver \<Rightarrow>
   'r DriverCommand list" where
  "handled A [] queued d = []"
| "handled A ((now, w) # ws) queued d = wake_commands w @
     (case driver_step A now w d of
        None \<Rightarrow> []
      | Some (d', True) \<Rightarrow> handled A ws queued d'
      | Some (d', False) \<Rightarrow> queued)"

lemma subseq_handled: "subseq (handled A ws queued d) (concat (map (wake_commands \<circ> snd) ws) @ queued)"
proof (induction ws arbitrary: d)
  case (Cons nw ws)
  have tails: "subseq (handled A ws queued d') (concat (map (wake_commands \<circ> snd) ws) @ queued)"
    "subseq queued (concat (map (wake_commands \<circ> snd) ws) @ queued)" for d'
    using Cons by (simp_all add: list_emb_append2 comp_def)
  obtain now w where nw: "nw = (now, w)" by (cases nw)
  have "subseq (case driver_step A now w d of
        None \<Rightarrow> [] | Some (d', True) \<Rightarrow> handled A ws queued d' | Some (d', False) \<Rightarrow> queued)
      (concat (map (wake_commands \<circ> snd) ws) @ queued)"
    using tails by (simp split: option.split prod.split bool.split)
  then show ?case by (simp add: nw comp_def subseq_append')
qed simp

text \<open>
  An invariant of the loop relates the commands handled so far to its state. It is enough that every
  command extends it and that the two drains and a change of the state machine keep it.
\<close>

locale driver_invariant =
  fixes A :: "('r, 'c) collider_api" and I :: "'r DriverCommand list \<Rightarrow> ('r, 'c) driver \<Rightarrow> bool"
  assumes command: "I cs d \<Longrightarrow> I (cs @ [c]) (handle_command A c d)"
    and outputs: "I cs d \<Longrightarrow> drain_outputs A now d = Some d' \<Longrightarrow> I cs d'"
    and responses: "I cs d \<Longrightarrow> drain_authority_responses A d = Some d' \<Longrightarrow> I cs d'"
    and collider: "I cs d \<Longrightarrow> I cs (d\<lparr>dr_collider := col\<rparr>)"
begin

lemma commands: "I cs d \<Longrightarrow> I (cs @ cs') (fold (handle_command A) cs' d)"
proof (induction cs' arbitrary: cs d)
  case (Cons c cs')
  from Cons.IH [OF command [OF Cons.prems, of c]] show ?case by simp
qed simp

lemma drained: "I cs d \<Longrightarrow> drain_all A now d = Some d' \<Longrightarrow> I cs d'"
  by (auto simp: drain_all_def bind_eq_Some_conv intro: outputs responses)

lemma shutdown: "I cs d \<Longrightarrow> driver_shutdown A now queued d = Some d' \<Longrightarrow> I (cs @ queued) d'"
  unfolding driver_shutdown_def Let_def by (rule drained [OF collider [OF commands]])

lemma step:
  assumes "I cs d" and "driver_step A now w d = Some (d', b)"
  shows "I (cs @ wake_commands w) d'"
proof (cases w)
  case WakeDeadline
  with assms show ?thesis by (auto split: prod.splits if_splits intro: drained collider)
next
  case (WakeCommand o_cmd)
  with assms show ?thesis by (cases o_cmd) (auto intro: drained command)
qed (use assms in auto)

lemma run: "I cs d \<Longrightarrow> driver_run A ws queued d = Some d' \<Longrightarrow> I (cs @ handled A ws queued d) d'"
proof (induction ws arbitrary: cs d)
  case (Cons nw ws)
  obtain now w where nw: "nw = (now, w)" by (cases nw)
  with Cons.prems obtain d1 b where d1: "driver_step A now w d = Some (d1, b)"
    by (auto split: option.splits)
  note inv = step [OF Cons.prems(1) d1]
  show ?case
  proof (cases b)
    case True
    with Cons.IH [OF inv] Cons.prems(2) d1 nw show ?thesis by simp
  next
    case False
    with shutdown [OF inv] Cons.prems(2) d1 nw show ?thesis by simp
  qed
qed simp

end

text \<open>With finite queues of the state machine the loop never gets stuck.\<close>

lemma drain_authority_returns:
  assumes "outputs_finite A outs responses"
  shows "\<exists>d'. drain_authority_responses A d = Some d'"
proof (induction "responses (dr_collider d)" arbitrary: d rule: less_induct)
  case less
  obtain o_r c where poll: "poll_event A (dr_collider d) = (o_r, c)" by fastforce
  show ?case
  proof (cases o_r)
    case None
    with poll show ?thesis by (subst drain_authority_responses.simps) (simp add: Let_def)
  next
    case (Some response)
    with assms poll have dec: "responses c < responses (dr_collider d)"
      unfolding outputs_finite_def by blast
    have "\<exists>d''. drain_authority_responses A d' = Some d''" if "dr_collider d' = c" for d'
      using less [of d'] dec that by simp
    with poll Some show ?thesis
      by (subst drain_authority_responses.simps) (auto simp: Let_def answer_def split: option.splits)
  qed
qed

lemma drain_all_returns:
  assumes "outputs_finite A outs responses"
  shows "\<exists>d'. drain_all A now d = Some d'"
proof -
  obtain os c' where "collider_outputs A (dr_collider d) os c'"
    using collider_outputs_exists [OF assms] by blast
  then obtain d1 where "drain_outputs A now d = Some d1" using drain_outputs_fold [of A d os c' now] by blast
  with drain_authority_returns [OF assms, of d1] show ?thesis by (simp add: drain_all_def)
qed

lemma driver_run_returns:
  assumes "outputs_finite A outs responses"
  shows "\<exists>d'. driver_run A ws queued d = Some d'"
proof (induction ws arbitrary: d)
  case (Cons nw ws)
  obtain now w where nw: "nw = (now, w)" by (cases nw)
  have "\<exists>d1 b. driver_step A now w d = Some (d1, b)"
  proof (cases w)
    case WakeDeadline
    then show ?thesis using drain_all_returns [OF assms, of now] by (fastforce split: prod.splits)
  next
    case (WakeCommand o_cmd)
    then show ?thesis using drain_all_returns [OF assms, of now] by (cases o_cmd) fastforce+
  qed auto
  moreover have "\<exists>d'. driver_shutdown A now queued d1 = Some d'" for d1
    using drain_all_returns [OF assms] by (simp add: driver_shutdown_def Let_def)
  ultimately show ?case using Cons nw by (fastforce split: option.splits bool.splits)
qed simp

section \<open>Answers\<close>

definition issued :: "'r DriverCommand \<Rightarrow> (nat \<times> u64) list" where
  "issued command = (case command of Authority q op sender \<Rightarrow> [(sender, q)] | _ \<Rightarrow> [])"

text \<open>
  Of the one-shot senders handed to the loop, each is pending under the identifier it came with, or
  was used once, or was dropped.
\<close>

definition answers_inv :: "(nat \<times> u64) list \<Rightarrow> ('r, 'c) driver \<Rightarrow> bool" where
  "answers_inv ss d \<longleftrightarrow>
     (\<forall>q sender. hm_get (dr_pending d) q = Some sender \<longrightarrow>
        (sender, q) \<in> set ss \<and> sender \<notin> fst ` set (dr_answers d)) \<and>
     distinct (map fst (dr_answers d)) \<and>
     (\<forall>(sender, q, r) \<in> set (dr_answers d). (sender, q) \<in> set ss)"

lemma answers_inv_frame:
  assumes "dr_pending d' = dr_pending d" and "dr_answers d' = dr_answers d"
  shows "answers_inv ss d' = answers_inv ss d"
  using assms by (simp add: answers_inv_def)

lemma answers_inv_answer:
  assumes "answers_inv ss d" and "distinct (map fst ss)" and "hm_get (dr_pending d) q = Some sender"
  shows "answers_inv ss (answer sender (q, r) (d\<lparr>dr_pending := hm_remove q (dr_pending d)\<rparr>))"
proof -
  have "(sender, q) \<in> set ss" "sender \<notin> fst ` set (dr_answers d)"
    using assms(1,3) by (simp_all add: answers_inv_def)
  moreover have "q' = q" if "hm_get (dr_pending d) q' = Some sender" for q'
    using that assms(1) calculation(1) eq_key_imp_eq_value [OF assms(2)]
    unfolding answers_inv_def by blast
  ultimately show ?thesis
    using assms(1) by (auto simp: answers_inv_def answer_def hm_simps)
qed

lemma answers_inv_command:
  assumes "answers_inv ss d" and "distinct (map fst (ss @ issued command))"
  shows "answers_inv (ss @ issued command) (handle_command A command d)"
proof (cases command)
  case (Authority q op sender)
  let ?is = "ss @ [(sender, q)]"
  let ?c = "handle_write A (dr_collider d) (q, op)"
  let ?d = "d\<lparr>dr_pending := hm_insert q sender (dr_pending d), dr_collider := snd ?c\<rparr>"
  have "sender \<notin> fst ` set (dr_answers d)"
    using assms Authority by (force simp: answers_inv_def issued_def)
  then have inv: "answers_inv ?is ?d"
    using assms(1) by (fastforce simp: answers_inv_def hm_simps)
  have "hm_get (dr_pending ?d) q = Some sender" by (simp add: hm_simps)
  from answers_inv_answer [OF inv _ this, of "ErrorResult ''INTERNAL''"] assms(2) inv Authority
  show ?thesis
    by (cases ?c) (auto simp: issued_def Let_def hm_simps)
next
  case (SfuConnected input outp)
  with assms show ?thesis
    by (cases input) (auto simp: issued_def Let_def answers_inv_def split: prod.splits)
qed (use assms in \<open>auto simp: issued_def Let_def answers_inv_def remove_socket_def close_socket_def
       split: prod.splits\<close>)

lemma close_socket_answers [simp]:
  "dr_pending (close_socket k d) = dr_pending d" "dr_answers (close_socket k d) = dr_answers d"
  "dr_pending (remove_socket k d) = dr_pending d" "dr_answers (remove_socket k d) = dr_answers d"
  by (simp_all add: close_socket_def remove_socket_def)

lemma route_output_answers:
  "dr_pending (fst (route_output out ds)) = dr_pending (fst ds) \<and>
   dr_answers (fst (route_output out ds)) = dr_answers (fst ds)"
  by (cases ds; cases out) (simp_all add: Let_def split: option.splits prod.splits)

lemma fold_route_output_answers:
  "dr_pending (fst (fold route_output outs ds)) = dr_pending (fst ds) \<and>
   dr_answers (fst (fold route_output outs ds)) = dr_answers (fst ds)"
  by (induction outs arbitrary: ds) (simp_all add: route_output_answers)

lemma fold_disconnect_answers:
  "dr_pending (fold (disconnect A now) ks d) = dr_pending d \<and>
   dr_answers (fold (disconnect A now) ks d) = dr_answers d"
  by (induction ks arbitrary: d) (simp_all add: disconnect_def Let_def)

lemma drain_outputs_answers:
  assumes "drain_outputs A now d = Some d'"
  shows "dr_pending d' = dr_pending d \<and> dr_answers d' = dr_answers d"
proof -
  from assms obtain ds where ds: "route_outputs A (d, []) = Some ds"
    "d' = fold (disconnect A now) (remdups_adj (sort (snd ds))) (fst ds)"
    by (auto simp: drain_outputs_def split_def)
  have "dr_pending (fst ds) = dr_pending (fst (d, [])) \<and> dr_answers (fst ds) = dr_answers (fst (d, []))"
    by (rule route_outputs_induct [OF _ _ _ ds(1)]) (simp_all add: route_output_answers)
  with ds(2) show ?thesis by (simp add: fold_disconnect_answers)
qed

lemma answers_inv_mono:
  "answers_inv ss d \<Longrightarrow> set ss \<subseteq> set js \<Longrightarrow> answers_inv js d"
  by (fastforce simp: answers_inv_def)

definition senders :: "'r DriverCommand list \<Rightarrow> (nat \<times> u64) list" where
  "senders cs = concat (map issued cs)"

interpretation answers: driver_invariant A
  "\<lambda>cs d. distinct (map fst (senders cs)) \<longrightarrow> answers_inv (senders cs) d" for A
proof
  show "distinct (map fst (senders (cs @ [c]))) \<longrightarrow> answers_inv (senders (cs @ [c])) (handle_command A c d)"
    if "distinct (map fst (senders cs)) \<longrightarrow> answers_inv (senders cs) d" for cs c d
    using that answers_inv_command [of "senders cs" d c A] by (simp add: senders_def)
  show "distinct (map fst (senders cs)) \<longrightarrow> answers_inv (senders cs) d'"
    if "distinct (map fst (senders cs)) \<longrightarrow> answers_inv (senders cs) d" "drain_outputs A now d = Some d'"
    for cs d now d'
    using that(1) drain_outputs_answers [OF that(2)] answers_inv_frame by blast
  show "distinct (map fst (senders cs)) \<longrightarrow> answers_inv (senders cs) d'"
    if "distinct (map fst (senders cs)) \<longrightarrow> answers_inv (senders cs) d"
      "drain_authority_responses A d = Some d'" for cs d d'
  proof (rule drain_responses_induct [of "\<lambda>d. distinct (map fst (senders cs)) \<longrightarrow> answers_inv (senders cs) d", OF _ _ that])
    show "distinct (map fst (senders cs)) \<longrightarrow> answers_inv (senders cs)
        (answer sender response (d\<lparr>dr_pending := hm_remove (fst response) (dr_pending d)\<rparr>))"
      if "distinct (map fst (senders cs)) \<longrightarrow> answers_inv (senders cs) d"
        "hm_get (dr_pending d) (fst response) = Some sender" for d :: "('a, 'b) driver" and response sender
      using that answers_inv_answer [of "senders cs" d "fst response" sender "snd response"] by simp
  qed (simp add: answers_inv_def)
  show "distinct (map fst (senders cs)) \<longrightarrow> answers_inv (senders cs) (d\<lparr>dr_collider := c\<rparr>)"
    if "distinct (map fst (senders cs)) \<longrightarrow> answers_inv (senders cs) d" for cs d c
    using that by (simp add: answers_inv_def)
qed

definition run_issued :: "(instant \<times> 'r wake) list \<Rightarrow> 'r DriverCommand list \<Rightarrow> (nat \<times> u64) list" where
  "run_issued ws queued = senders (concat (map (wake_commands \<circ> snd) ws) @ queued)"

lemma distinct_subseq: "subseq xs ys \<Longrightarrow> distinct ys \<Longrightarrow> distinct xs"
  by (induction rule: list_emb.induct) (auto dest: list_emb_set)

lemma subseq_senders: "subseq cs cs' \<Longrightarrow> subseq (senders cs) (senders cs')"
  by (induction rule: list_emb.induct) (auto simp: senders_def intro: list_emb_append2 list_emb_append_mono)

text \<open>
  The event loop runs through any sequence of commands, deadlines and stops without getting
  stuck, shutdown included. If every authority command brings a fresh one-shot sender, no sender is
  ever used twice, and a response sent on it carries the identifier of the command it came with.
\<close>

lemma authority_answers_correlated:
  assumes "outputs_finite A measure_outs measure_resps" and "distinct (map fst (run_issued ws queued))"
  shows "\<exists>d'. driver_run A ws queued (new_driver collider) = Some d' \<and>
    distinct (map fst (dr_answers d')) \<and>
    (\<forall>(sender, q, r) \<in> set (dr_answers d'). (sender, q) \<in> set (run_issued ws queued))"
proof -
  obtain d' where run: "driver_run A ws queued (new_driver collider) = Some d'"
    using driver_run_returns [OF assms(1)] by blast
  let ?cs = "handled A ws queued (new_driver collider)"
  have sub: "subseq (senders ?cs) (run_issued ws queued)"
    unfolding run_issued_def by (rule subseq_senders [OF subseq_handled])
  then have "distinct (map fst (senders ?cs))"
    using assms(2) distinct_subseq [OF subseq_map] by blast
  moreover have "answers_inv (senders []) (new_driver collider)"
    by (simp add: answers_inv_def new_driver_def senders_def)
  ultimately have "answers_inv (senders ?cs) d'"
    using answers.run [of "[]", OF _ run] by (simp add: senders_def)
  moreover have "set (senders ?cs) \<subseteq> set (run_issued ws queued)"
    using sub by (auto dest: list_emb_set)
  ultimately have "answers_inv (run_issued ws queued) d'" by (rule answers_inv_mono)
  with run show ?thesis by (auto simp: answers_inv_def)
qed

end
