(* ===== verification/Utf8_Text.thy ===== *)
theory Utf8_Text
  imports Prelude
begin

text \<open>
  Text of the standard library as the signaling endpoint's HTTP parser uses it
  (\<open>src/src/ws_server.rs\<close>): a \<open>str\<close> as its list of Unicode scalar values, the lossy decoding of bytes
  (\<open>String::from_utf8_lossy\<close>), the UTF-8 encoding of a \<open>String\<close>, white space, trimming and splitting.
  Bytes are natural numbers below 256 here; \<open>bytes_of\<close> and \<open>string_of\<close> go to and from \<^typ>\<open>string\<close>.
\<close>

section \<open>Lossy decoding\<close>

definition continuation :: "nat \<Rightarrow> bool" where
  "continuation b \<longleftrightarrow> 128 \<le> b \<and> b < 192"

definition utf8_width :: "nat \<Rightarrow> nat" where
  "utf8_width b =
     (if b < 128 then 1 else if 194 \<le> b \<and> b < 224 then 2 else if 224 \<le> b \<and> b < 240 then 3
      else if 240 \<le> b \<and> b < 245 then 4 else 0)"

text \<open>The second byte: overlong forms, surrogates and values above \<open>0x10FFFF\<close> are excluded.\<close>

definition second_ok :: "nat \<Rightarrow> nat \<Rightarrow> bool" where
  "second_ok b0 b1 \<longleftrightarrow>
     (if b0 = 224 then 160 \<le> b1 \<and> b1 < 192
      else if b0 = 237 then 128 \<le> b1 \<and> b1 < 160
      else if b0 = 240 then 144 \<le> b1 \<and> b1 < 192
      else if b0 = 244 then 128 \<le> b1 \<and> b1 < 144
      else continuation b1)"

definition REPLACEMENT :: nat where "REPLACEMENT = 65533"

text \<open>The first scalar value of a non-empty input and the number of bytes it takes.\<close>

definition utf8_next :: "nat list \<Rightarrow> nat \<times> nat" where
  "utf8_next bs =
     (let b0 = bs ! 0; w = utf8_width b0;
          at = (\<lambda>i. if i < length bs then bs ! i else 0);
          b1 = at 1; b2 = at 2; b3 = at 3
      in if w = 1 then (b0, 1)
         else if w = 0 \<or> \<not> second_ok b0 b1 then (REPLACEMENT, 1)
         else if w = 2 then ((b0 - 192) * 64 + (b1 - 128), 2)
         else if \<not> continuation b2 then (REPLACEMENT, 2)
         else if w = 3 then ((b0 - 224) * 4096 + (b1 - 128) * 64 + (b2 - 128), 3)
         else if \<not> continuation b3 then (REPLACEMENT, 3)
         else ((b0 - 240) * 262144 + (b1 - 128) * 4096 + (b2 - 128) * 64 + (b3 - 128), 4))"

function from_utf8_lossy :: "nat list \<Rightarrow> nat list" where
  "from_utf8_lossy [] = []"
| "from_utf8_lossy (b # bs) =
     (case utf8_next (b # bs) of (c, n) \<Rightarrow> c # from_utf8_lossy (drop (n - 1) bs))"
  by pat_completeness auto
termination by (relation "measure length") (auto simp: less_Suc_eq_le)

section \<open>Encoding\<close>

definition scalar :: "nat \<Rightarrow> bool" where
  "scalar c \<longleftrightarrow> c < 55296 \<or> 57344 \<le> c \<and> c < 1114112"

definition utf8_char :: "nat \<Rightarrow> nat list" where
  "utf8_char c =
     (if c < 128 then [c]
      else if c < 2048 then [192 + c div 64, 128 + c mod 64]
      else if c < 65536 then [224 + c div 4096, 128 + c div 64 mod 64, 128 + c mod 64]
      else [240 + c div 262144, 128 + c div 4096 mod 64, 128 + c div 64 mod 64, 128 + c mod 64])"

definition utf8_encode :: "nat list \<Rightarrow> nat list" where
  "utf8_encode cs = concat (map utf8_char cs)"

definition bytes_of :: "string \<Rightarrow> nat list" where
  "bytes_of s = map of_char s"

definition string_of :: "nat list \<Rightarrow> string" where
  "string_of bs = map char_of bs"

lemma utf8_next_char:
  assumes "scalar c"
  shows "utf8_next (utf8_char c @ r) = (c, length (utf8_char c))"
proof -
  have split: "c = (c div 64) * 64 + c mod 64" "c div 64 = (c div 4096) * 64 + c div 64 mod 64"
    "c div 4096 = (c div 262144) * 64 + c div 4096 mod 64"
    using div_mult2_eq [of c 64 64] div_mult2_eq [of c 4096 64]
      div_mult_mod_eq [of "c div 64" 64] div_mult_mod_eq [of "c div 4096" 64] by simp_all
  consider "c < 128" | "128 \<le> c" "c < 2048" | "2048 \<le> c" "c < 65536" | "65536 \<le> c" "c < 1114112"
    using assms by (fastforce simp: scalar_def)
  then show ?thesis
  proof cases
    case 1
    then show ?thesis by (simp add: utf8_char_def utf8_next_def utf8_width_def)
  next
    case 2
    then have "194 \<le> 192 + c div 64" "192 + c div 64 < 224" "c mod 64 < 64" by auto
    with 2 show ?thesis
      by (auto simp: utf8_char_def utf8_next_def utf8_width_def second_ok_def continuation_def)
  next
    case 3
    define x where "x = c div 4096"
    define y where "y = c div 64 mod 64"
    define z where "z = c mod 64"
    have c: "c = x * 4096 + y * 64 + z"
      unfolding x_def y_def z_def using split(1,2) by linarith
    have y: "y < 64" and z: "z < 64" by (simp_all add: y_def z_def)
    have x: "x < 16" using 3 by (simp add: x_def)
    have "x = 0 \<Longrightarrow> 32 \<le> y" using 3(1) c z by simp
    moreover have "x = 13 \<Longrightarrow> y < 32" using assms c z y by (auto simp: scalar_def)
    moreover have "utf8_char c = [224 + x, 128 + y, 128 + z]"
      using 3 by (simp add: utf8_char_def x_def y_def z_def)
    moreover have "utf8_width (224 + x) = 3" "continuation (128 + z)"
      using x z by (simp_all add: utf8_width_def continuation_def)
    ultimately show ?thesis using x y c
      by (simp add: utf8_next_def Let_def second_ok_def continuation_def)
  next
    case 4
    define w where "w = c div 262144"
    define x where "x = c div 4096 mod 64"
    define y where "y = c div 64 mod 64"
    define z where "z = c mod 64"
    have c: "c = w * 262144 + x * 4096 + y * 64 + z"
      unfolding w_def x_def y_def z_def using split by linarith
    have xyz: "x < 64" "y < 64" "z < 64" by (simp_all add: x_def y_def z_def)
    have w: "w < 5" using 4 by (simp add: w_def)
    have "w = 0 \<Longrightarrow> 16 \<le> x" using 4(1) c xyz by simp
    moreover have "w = 4 \<Longrightarrow> x < 16" using 4(2) c by simp
    moreover have "utf8_char c = [240 + w, 128 + x, 128 + y, 128 + z]"
      using 4 by (simp add: utf8_char_def w_def x_def y_def z_def)
    moreover have "utf8_width (240 + w) = 4" "continuation (128 + y)" "continuation (128 + z)"
      using w xyz by (simp_all add: utf8_width_def continuation_def)
    ultimately show ?thesis using w xyz c
      by (simp add: utf8_next_def Let_def second_ok_def continuation_def)
  qed
qed

lemma utf8_char_nonempty: "utf8_char c \<noteq> []"
  by (simp add: utf8_char_def)

lemma from_utf8_lossy_step:
  "bs \<noteq> [] \<Longrightarrow> from_utf8_lossy bs = fst (utf8_next bs) # from_utf8_lossy (drop (max 1 (snd (utf8_next bs))) bs)"
  by (cases bs) (auto split: prod.splits simp: max_def drop_Cons')

text \<open>Valid text is decoded to itself: the lossy conversion only changes bytes that are not UTF-8.\<close>

lemma from_utf8_lossy_encode:
  assumes "list_all scalar cs"
  shows "from_utf8_lossy (utf8_encode cs) = cs"
  using assms
proof (induction cs)
  case (Cons c cs)
  have "from_utf8_lossy (utf8_char c @ utf8_encode cs) = c # from_utf8_lossy (utf8_encode cs)"
    using Cons.prems utf8_char_nonempty [of c]
    by (subst from_utf8_lossy_step)
      (auto simp: utf8_next_char max_def Suc_le_eq)
  with Cons show ?case by (simp add: utf8_encode_def)
qed (simp add: utf8_encode_def)

section \<open>White space, trimming and splitting\<close>

definition whitespace :: "nat \<Rightarrow> bool" where
  "whitespace c \<longleftrightarrow> 9 \<le> c \<and> c \<le> 13 \<or> c = 32 \<or> c = 133 \<or> c = 160 \<or> c = 5760 \<or> 8192 \<le> c \<and> c \<le> 8202 \<or>
     c = 8232 \<or> c = 8233 \<or> c = 8239 \<or> c = 8287 \<or> c = 12288"

definition trim :: "nat list \<Rightarrow> nat list" where
  "trim cs = rev (dropWhile whitespace (rev (dropWhile whitespace cs)))"

function split_whitespace :: "nat list \<Rightarrow> nat list list" where
  "split_whitespace cs =
     (let rest = dropWhile whitespace cs
      in if rest = [] then []
         else takeWhile (\<lambda>c. \<not> whitespace c) rest #
              split_whitespace (dropWhile (\<lambda>c. \<not> whitespace c) rest))"
  by pat_completeness auto
termination
proof (relation "measure length")
  fix cs :: "nat list" and rest
  assume rest: "rest = dropWhile whitespace cs" "rest \<noteq> []"
  then have "\<not> whitespace (hd rest)" using hd_dropWhile by blast
  then have "length (dropWhile (\<lambda>c. \<not> whitespace c) rest) < length rest"
    using rest(2) by (cases rest) (auto simp: less_Suc_eq_le length_dropWhile_le)
  also have "\<dots> \<le> length cs" using rest(1) by (simp add: length_dropWhile_le)
  finally show "(dropWhile (\<lambda>c. \<not> whitespace c) rest, cs) \<in> measure length" by simp
qed simp

declare split_whitespace.simps [simp del]

text \<open>\<open>split("\r\n")\<close>: always at least one piece.\<close>

fun split_crlf :: "nat list \<Rightarrow> nat list list" where
  "split_crlf [] = [[]]"
| "split_crlf [c] = [[c]]"
| "split_crlf (c # d # cs) =
     (if c = 13 \<and> d = 10 then [] # split_crlf cs
      else case split_crlf (d # cs) of [] \<Rightarrow> [[c]] | w # ws \<Rightarrow> (c # w) # ws)"

definition split_once :: "nat \<Rightarrow> nat list \<Rightarrow> (nat list \<times> nat list) option" where
  "split_once d cs =
     (if d \<in> set cs then Some (takeWhile (\<lambda>c. c \<noteq> d) cs, tl (dropWhile (\<lambda>c. c \<noteq> d) cs)) else None)"

lemma split_crlf_nonempty: "split_crlf cs \<noteq> []"
  by (induction cs rule: split_crlf.induct) (auto split: list.splits)

text \<open>A piece without a carriage return is split off as it is.\<close>

lemma split_crlf_append:
  assumes "13 \<notin> set w"
  shows "split_crlf (w @ 13 # 10 # r) = w # split_crlf r"
  using assms
proof (induction w)
  case (Cons c w)
  then show ?case by (cases w) auto
qed simp

lemma split_whitespace_word:
  assumes "w \<noteq> []" and "list_all (\<lambda>c. \<not> whitespace c) w" and "r = [] \<or> whitespace (hd r)"
  shows "split_whitespace (w @ r) = w # split_whitespace r"
proof -
  have "\<not> whitespace (hd w)" using assms(1,2) by (cases w) auto
  then have "dropWhile whitespace (w @ r) = w @ r" using assms(1) by (cases w) auto
  moreover have "takeWhile (\<lambda>c. \<not> whitespace c) (w @ r) = w"
    using assms(2,3) by (cases r) (auto simp: takeWhile_append list_all_iff)
  moreover have "dropWhile (\<lambda>c. \<not> whitespace c) (w @ r) = r"
    using assms(2,3) by (cases r) (auto simp: dropWhile_append list_all_iff)
  ultimately show ?thesis using assms(1) by (subst split_whitespace.simps) simp
qed

lemma split_whitespace_space: "whitespace c \<Longrightarrow> split_whitespace (c # r) = split_whitespace r"
  by (subst (1 2) split_whitespace.simps) simp

lemma trim_id:
  assumes "cs = [] \<or> \<not> whitespace (hd cs) \<and> \<not> whitespace (last cs)"
  shows "trim cs = cs"
proof (cases "cs = []")
  case False
  with assms have "dropWhile whitespace cs = cs" by (cases cs) auto
  moreover have "dropWhile whitespace (rev cs) = rev cs"
    using assms False by (cases "rev cs") (auto simp flip: hd_rev)
  ultimately show ?thesis by (simp add: trim_def)
qed (simp add: trim_def)

lemma trim_space: "whitespace c \<Longrightarrow> trim (c # cs) = trim cs"
  by (simp add: trim_def)

lemma split_once_append: "d \<notin> set k \<Longrightarrow> split_once d (k @ d # v) = Some (k, v)"
  by (auto simp: split_once_def takeWhile_append dropWhile_append takeWhile_eq_all_conv)

end
