(* ===== verification/Ws_Server.thy ===== *)
theory Ws_Server
  imports Signaling_Server Utf8_Text Decimal
begin

text \<open>
  The browser-facing WebSocket endpoint (\<open>src/src/ws_server.rs\<close>): reading and parsing the HTTP request
  head, the upgrade, the session task of one browser and the accept loop. What a socket delivers is
  the input: a list of read results, then the events the session's \<open>select!\<close> wakes for. Frames and
  commands a task sends are collected in its state. The accept key of the handshake is computed by
  the WebSocket crate and is an argument. Instants are milliseconds.
\<close>

section \<open>The stream of a connection\<close>

text \<open>
  A connection is read and written through a plain TCP stream or a TLS stream over it. An operation of
  a stream takes its state and returns the outcome, \<open>None\<close> while it is pending; the operations of the two
  kinds of streams are arguments.
\<close>

datatype ('tcp, 'tls) Stream = Plain 'tcp | Tls 'tls

record 'io async_io =
  io_poll_read :: "nat \<Rightarrow> 'io \<Rightarrow> (string, string) result option \<times> 'io"
  io_poll_write :: "string \<Rightarrow> 'io \<Rightarrow> (string, nat) result option \<times> 'io"
  io_poll_flush :: "'io \<Rightarrow> (string, unit) result option \<times> 'io"
  io_poll_shutdown :: "'io \<Rightarrow> (string, unit) result option \<times> 'io"

fun stream_poll_read ::
  "'tcp async_io \<Rightarrow> 'tls async_io \<Rightarrow> nat \<Rightarrow> ('tcp, 'tls) Stream \<Rightarrow>
   (string, string) result option \<times> ('tcp, 'tls) Stream" where
  "stream_poll_read T L capacity (Plain tcp) = apsnd Plain (io_poll_read T capacity tcp)"
| "stream_poll_read T L capacity (Tls tls) = apsnd Tls (io_poll_read L capacity tls)"

fun stream_poll_write ::
  "'tcp async_io \<Rightarrow> 'tls async_io \<Rightarrow> string \<Rightarrow> ('tcp, 'tls) Stream \<Rightarrow>
   (string, nat) result option \<times> ('tcp, 'tls) Stream" where
  "stream_poll_write T L bytes (Plain tcp) = apsnd Plain (io_poll_write T bytes tcp)"
| "stream_poll_write T L bytes (Tls tls) = apsnd Tls (io_poll_write L bytes tls)"

fun stream_poll_flush ::
  "'tcp async_io \<Rightarrow> 'tls async_io \<Rightarrow> ('tcp, 'tls) Stream \<Rightarrow>
   (string, unit) result option \<times> ('tcp, 'tls) Stream" where
  "stream_poll_flush T L (Plain tcp) = apsnd Plain (io_poll_flush T tcp)"
| "stream_poll_flush T L (Tls tls) = apsnd Tls (io_poll_flush L tls)"

fun stream_poll_shutdown ::
  "'tcp async_io \<Rightarrow> 'tls async_io \<Rightarrow> ('tcp, 'tls) Stream \<Rightarrow>
   (string, unit) result option \<times> ('tcp, 'tls) Stream" where
  "stream_poll_shutdown T L (Plain tcp) = apsnd Plain (io_poll_shutdown T tcp)"
| "stream_poll_shutdown T L (Tls tls) = apsnd Tls (io_poll_shutdown L tls)"

definition stream_io :: "'tcp async_io \<Rightarrow> 'tls async_io \<Rightarrow> ('tcp, 'tls) Stream async_io" where
  "stream_io T L = \<lparr>io_poll_read = stream_poll_read T L, io_poll_write = stream_poll_write T L,
     io_poll_flush = stream_poll_flush T L, io_poll_shutdown = stream_poll_shutdown T L\<rparr>"

text \<open>The stream a connection is served on; the TLS handshake is an argument.\<close>

definition open_stream ::
  "('tcp \<Rightarrow> (string, 'tls) result) option \<Rightarrow> 'tcp \<Rightarrow> (string, ('tcp, 'tls) Stream) result" where
  "open_stream tls_acceptor tcp =
     (case tls_acceptor of
        Some tls_accept \<Rightarrow> and_then (tls_accept tcp) (\<lambda>tls. Inr (Tls tls))
      | None \<Rightarrow> Inr (Plain tcp))"

text \<open>The reads that complete within a number of polls, into a buffer of 1024 bytes.\<close>

fun reads_within :: "'io async_io \<Rightarrow> nat \<Rightarrow> 'io \<Rightarrow> (string, string) result list" where
  "reads_within io 0 s = []"
| "reads_within io (Suc n) s =
     (case io_poll_read io 1024 s of
        (None, s') \<Rightarrow> reads_within io n s'
      | (Some r, s') \<Rightarrow> r # reads_within io n s')"

text \<open>With TLS no byte of the request is read from the plain stream, and the wrapper adds and loses nothing.\<close>

lemma reads_within_stream:
  "reads_within (stream_io T L) n (Plain tcp) = reads_within T n tcp"
  "reads_within (stream_io T L) n (Tls tls) = reads_within L n tls"
  by (induction n arbitrary: tcp tls) (auto simp: stream_io_def split: prod.split option.split)

lemma open_stream_reads:
  assumes "open_stream tls_acceptor tcp = Inr s"
  shows "reads_within (stream_io T L) n s = (case tls_acceptor of
      None \<Rightarrow> reads_within T n tcp
    | Some tls_accept \<Rightarrow> (case tls_accept tcp of Inl _ \<Rightarrow> [] | Inr tls \<Rightarrow> reads_within L n tls))"
  using assms by (auto simp: open_stream_def and_then_Ok_iff reads_within_stream split: option.splits)

section \<open>The request head\<close>

definition SOCKET_OUTPUT_CAPACITY :: nat where "SOCKET_OUTPUT_CAPACITY = 1024"
definition WS_IDLE_TIMEOUT :: nat where "WS_IDLE_TIMEOUT = 60 * 60 * 24 * 1000"
definition MAX_HEAD_SIZE :: nat where "MAX_HEAD_SIZE = 64 * 1024"

definition crlf :: string where "crlf = [CHR 0x0D, CHR 0x0A]"

text \<open>\<open>buf.windows(4).any(|w| w == b"\r\n\r\n")\<close>\<close>

definition head_end :: "string \<Rightarrow> bool" where
  "head_end buf \<longleftrightarrow> list_ex (\<lambda>i. take 4 (drop i buf) = crlf @ crlf) [0..<length buf - 3]"

text \<open>\<open>HeadPending\<close>: the peer has sent nothing more so far.\<close>

datatype head_result = HeadRead string | HeadFailed string | HeadPending

fun read_http_head :: "(string, string) result list \<Rightarrow> string \<Rightarrow> head_result" where
  "read_http_head [] buf = HeadPending"
| "read_http_head (Inl error # reads) buf = HeadFailed error"
| "read_http_head (Inr chunk # reads) buf =
     (if chunk = [] then HeadFailed ''connection closed before request head''
      else let buf = buf @ chunk
           in if head_end buf then HeadRead buf
              else if \<not> length buf \<le> MAX_HEAD_SIZE then HeadFailed ''request head too large''
              else read_http_head reads buf)"

record HttpRequest =
  hr_method :: string
  hr_path :: string
  hr_headers :: "(string \<times> string) list"

definition text_string :: "nat list \<Rightarrow> string" where
  "text_string cs = string_of (utf8_encode cs)"

definition parse_header :: "nat list \<Rightarrow> (string \<times> string) option" where
  "parse_header line =
     map_option (\<lambda>(k, v). (text_string (trim k), text_string (trim v))) (split_once 58 line)"

definition parse_request :: "string \<Rightarrow> HttpRequest" where
  "parse_request head =
     (let lns = split_crlf (from_utf8_lossy (bytes_of head));
          request_line = split_whitespace (hd lns)
      in \<lparr>hr_method = (case request_line of [] \<Rightarrow> [] | m # _ \<Rightarrow> text_string m),
          hr_path = (case request_line of _ # p # _ \<Rightarrow> text_string p | _ \<Rightarrow> ''/''),
          hr_headers = List.map_filter parse_header (takeWhile (\<lambda>line. line \<noteq> []) (tl lns))\<rparr>)"

definition ascii_lower :: "char \<Rightarrow> char" where
  "ascii_lower c =
     (if 65 \<le> (of_char c :: nat) \<and> (of_char c :: nat) \<le> 90 then char_of ((of_char c :: nat) + 32) else c)"

definition eq_ignore_ascii_case :: "string \<Rightarrow> string \<Rightarrow> bool" where
  "eq_ignore_ascii_case a b \<longleftrightarrow> map ascii_lower a = map ascii_lower b"

definition header :: "HttpRequest \<Rightarrow> string \<Rightarrow> string option" where
  "header request name =
     map_option snd (find (\<lambda>(key, _). eq_ignore_ascii_case key name) (hr_headers request))"

section \<open>The upgrade\<close>

definition respond :: "string \<Rightarrow> string \<Rightarrow> string" where
  "respond status content =
     ''HTTP/1.1 '' @ status @ crlf @
     ''Content-Type: text/plain; charset=utf-8'' @ crlf @
     ''Content-Length: '' @ show_nat (length content) @ crlf @
     ''Connection: close'' @ crlf @ crlf @ content"

definition switching_protocols :: "string \<Rightarrow> string" where
  "switching_protocols accept =
     ''HTTP/1.1 101 Switching Protocols'' @ crlf @ ''Upgrade: websocket'' @ crlf @
     ''Connection: Upgrade'' @ crlf @ ''Sec-WebSocket-Accept: '' @ accept @ crlf @ crlf"

text \<open>
  How a connection's task goes on after the handshake phase: it ends without a word, fails, writes a
  response and closes, or writes the response and becomes a WebSocket session.
\<close>

datatype connection_outcome =
    ConnStopped
  | ConnFailed string
  | ConnResponded string
  | ConnUpgraded string

definition is_upgrade :: "HttpRequest \<Rightarrow> bool" where
  "is_upgrade request \<longleftrightarrow>
     (case header request ''upgrade'' of None \<Rightarrow> False | Some v \<Rightarrow> eq_ignore_ascii_case v ''websocket'') \<and>
     header request ''sec-websocket-key'' \<noteq> None"

definition route_connection :: "(string \<Rightarrow> string) \<Rightarrow> HttpRequest \<Rightarrow> connection_outcome" where
  "route_connection derive_accept_key request =
     (if \<not> (hr_path request = ''/ws'' \<or> hr_path request = ''/ws/'')
      then ConnResponded (respond ''404 Not Found'' ''not found'')
      else if \<not> is_upgrade request
      then ConnResponded (respond ''426 Upgrade Required'' ''upgrade required'')
      else ConnUpgraded (switching_protocols
             (derive_accept_key (the (header request ''sec-websocket-key'')))))"

text \<open>
  What ends the handshake: the stop signal, the timeout, a failed TLS handshake, or the reads of the
  request head; when those leave the head incomplete the timeout ends it. A response is written before
  the task goes on; the last value is the error with which that fails.
\<close>

datatype handshake = HandshakeStop | HandshakeTimeout | TlsFailed string
  | HeadReads "(string, string) result list" "string option"

fun write_response :: "string option \<Rightarrow> connection_outcome \<Rightarrow> connection_outcome" where
  "write_response (Some error) (ConnResponded response) = ConnFailed error"
| "write_response (Some error) (ConnUpgraded response) = ConnFailed error"
| "write_response _ outcome = outcome"

fun handle_connection :: "(string \<Rightarrow> string) \<Rightarrow> handshake \<Rightarrow> connection_outcome" where
  "handle_connection derive_accept_key HandshakeStop = ConnStopped"
| "handle_connection derive_accept_key HandshakeTimeout = ConnFailed ''TLS/HTTP handshake timed out''"
| "handle_connection derive_accept_key (TlsFailed error) = ConnFailed error"
| "handle_connection derive_accept_key (HeadReads reads written) =
     (case read_http_head reads [] of
        HeadRead head \<Rightarrow> write_response written (route_connection derive_accept_key (parse_request head))
      | HeadFailed error \<Rightarrow> ConnFailed error
      | HeadPending \<Rightarrow> ConnFailed ''TLS/HTTP handshake timed out'')"

section \<open>The session of one browser\<close>

datatype ws_message = MsgText string | MsgBinary string | MsgPing string | MsgPong string
  | MsgFrame string | MsgClose

record 'r ws_state =
  ws_idle_deadline :: instant
  ws_written :: "ws_message list"
  ws_commands :: "'r DriverCommand list"

text \<open>
  The branches of the \<open>select!\<close>: the stop signal; a value of the output channel (\<open>None\<close> when its sender
  is gone) and whether writing it succeeds; what the socket delivers (\<open>None\<close> at its end, an error, or a
  message) with the time before and after handing it to the event loop and whether that loop is still
  there; the idle deadline.
\<close>

datatype ws_event =
    WsStop
  | WsOutput "SocketOutput option" bool
  | WsIncoming "(string, ws_message) result option" instant instant bool
  | WsIdle

fun ws_step :: "u64 \<Rightarrow> ws_event \<Rightarrow> 'r ws_state \<Rightarrow> bool \<times> 'r ws_state" where
  "ws_step connection_id WsStop s = (False, s\<lparr>ws_written := ws_written s @ [MsgClose]\<rparr>)"
| "ws_step connection_id (WsOutput (Some (SocketText t)) ok) s =
     (ok, if ok then s\<lparr>ws_written := ws_written s @ [MsgText t]\<rparr> else s)"
| "ws_step connection_id (WsOutput (Some SocketClose) ok) s =
     (False, s\<lparr>ws_written := ws_written s @ [MsgClose]\<rparr>)"
| "ws_step connection_id (WsOutput None ok) s =
     (False, s\<lparr>ws_written := ws_written s @ [MsgClose]\<rparr>)"
| "ws_step connection_id (WsIncoming None now later alive) s = (False, s)"
| "ws_step connection_id (WsIncoming (Some (Inl error)) now later alive) s = (False, s)"
| "ws_step connection_id (WsIncoming (Some (Inr (MsgText t))) now later alive) s =
     (alive, if alive
             then s\<lparr>ws_commands := ws_commands s @ [Text connection_id t now],
                    ws_idle_deadline := later + WS_IDLE_TIMEOUT\<rparr>
             else s)"
| "ws_step connection_id (WsIncoming (Some (Inr (MsgBinary b))) now later alive) s = (False, s)"
| "ws_step connection_id (WsIncoming (Some (Inr (MsgPing p))) now later alive) s =
     (True, s\<lparr>ws_idle_deadline := now + WS_IDLE_TIMEOUT\<rparr>)"
| "ws_step connection_id (WsIncoming (Some (Inr (MsgPong p))) now later alive) s = (True, s)"
| "ws_step connection_id (WsIncoming (Some (Inr (MsgFrame f))) now later alive) s = (True, s)"
| "ws_step connection_id (WsIncoming (Some (Inr MsgClose)) now later alive) s = (False, s)"
| "ws_step connection_id WsIdle s = (False, s)"

text \<open>The loop over the events so far; the Boolean says whether it is still running.\<close>

fun ws_loop :: "u64 \<Rightarrow> ws_event list \<Rightarrow> 'r ws_state \<Rightarrow> bool \<times> 'r ws_state" where
  "ws_loop connection_id [] s = (True, s)"
| "ws_loop connection_id (ev # evs) s =
     (case ws_step connection_id ev s of
        (True, s') \<Rightarrow> ws_loop connection_id evs s'
      | (False, s') \<Rightarrow> (False, s'))"

definition socket_channel :: "SocketOutput channel" where
  "socket_channel = \<lparr>ch_queue = [], ch_capacity = SOCKET_OUTPUT_CAPACITY, ch_open = True\<rparr>"

text \<open>
  \<open>alive\<close> and \<open>alive'\<close> say whether the event loop receives the first and the last command; the result
  says whether the session is still running.
\<close>

definition ws_session ::
  "u64 \<Rightarrow> instant \<Rightarrow> bool \<Rightarrow> ws_event list \<Rightarrow> instant \<Rightarrow> bool \<Rightarrow> bool \<times> 'r ws_state" where
  "ws_session connection_id start alive evs ended alive' =
     (let s = \<lparr>ws_idle_deadline = start + WS_IDLE_TIMEOUT, ws_written = [], ws_commands = []\<rparr>
      in if \<not> alive then (False, s)
         else case ws_loop connection_id evs
                     (s\<lparr>ws_commands := [Connected connection_id socket_channel]\<rparr>) of
                (True, s') \<Rightarrow> (True, s')
              | (False, s') \<Rightarrow>
                  (False, if alive'
                          then s'\<lparr>ws_commands := ws_commands s' @ [Disconnected connection_id ended]\<rparr>
                          else s'))"

section \<open>The accept loop\<close>

datatype accept_event = AcceptStop | TaskJoined "string option" | Accepted | AcceptError string

record acceptor =
  ac_next_connection_id :: u64
  ac_spawned :: "u64 list"
  ac_stopped :: bool

definition new_acceptor :: acceptor where
  "new_acceptor = \<lparr>ac_next_connection_id = 1, ac_spawned = [], ac_stopped = False\<rparr>"

fun accept_step :: "accept_event \<Rightarrow> acceptor \<Rightarrow> acceptor" where
  "accept_step AcceptStop a = a\<lparr>ac_stopped := True\<rparr>"
| "accept_step (TaskJoined failure) a = a"
| "accept_step Accepted a =
     a\<lparr>ac_next_connection_id := ac_next_connection_id a + 1,
       ac_spawned := ac_spawned a @ [ac_next_connection_id a]\<rparr>"
| "accept_step (AcceptError error) a = a"

fun accept_loop :: "accept_event list \<Rightarrow> acceptor \<Rightarrow> acceptor" where
  "accept_loop [] a = a"
| "accept_loop (ev # evs) a =
     (let a' = accept_step ev a in if ac_stopped a' then a' else accept_loop evs a')"

end
