(* ===== verification/Browser.thy ===== *)
theory Browser
  imports Ws_Server
begin

text \<open>
  What the browser-facing endpoint guarantees: which requests are read and how large they may be, the
  round trip of a request head, the upgrade, the commands of a session, and the way of a text from the
  state machine to the browser's socket.
\<close>

section \<open>Reading a request head\<close>

lemma head_end_iff: "head_end buf \<longleftrightarrow> (\<exists>u v. buf = u @ crlf @ crlf @ v)"
proof
  assume "head_end buf"
  then obtain i where "take 4 (drop i buf) = crlf @ crlf" by (auto simp: head_end_def list_ex_iff)
  then have "buf = take i buf @ (crlf @ crlf) @ drop 4 (drop i buf)"
    by (metis append_take_drop_id)
  then show "\<exists>u v. buf = u @ crlf @ crlf @ v" by (metis append_assoc)
next
  assume "\<exists>u v. buf = u @ crlf @ crlf @ v"
  then obtain u v where "buf = u @ crlf @ crlf @ v" by blast
  then have "take 4 (drop (length u) buf) = crlf @ crlf" "length u < length buf - 3"
    by (simp_all add: crlf_def)
  then show "head_end buf" unfolding head_end_def list_ex_iff by fastforce
qed

lemma head_end_append: "head_end buf \<Longrightarrow> head_end (buf @ r)"
  unfolding head_end_iff by (metis append_assoc)

definition head_chunks :: "string \<Rightarrow> string list \<Rightarrow> string \<Rightarrow> bool" where
  "head_chunks acc chunks buf \<longleftrightarrow> chunks \<noteq> [] \<and> [] \<notin> set chunks \<and> buf = acc @ concat chunks \<and>
     head_end buf \<and>
     (butlast chunks \<noteq> [] \<longrightarrow> \<not> head_end (acc @ concat (butlast chunks)) \<and>
        length (acc @ concat (butlast chunks)) \<le> MAX_HEAD_SIZE)"

lemma head_chunks_Cons:
  "head_chunks acc (chunk # chunks) buf \<longleftrightarrow> chunk \<noteq> [] \<and>
     (if chunks = [] then buf = acc @ chunk \<and> head_end buf
      else \<not> head_end (acc @ chunk) \<and> length (acc @ chunk) \<le> MAX_HEAD_SIZE \<and>
        head_chunks (acc @ chunk) chunks buf)"
  using head_end_append [of "acc @ chunk" "concat (butlast chunks)"]
  by (auto simp: head_chunks_def)

lemma reads_Cons:
  "(\<exists>chunks rest. Inr chunk # reads = map Inr chunks @ rest \<and> head_chunks acc chunks buf) \<longleftrightarrow>
   (\<exists>chunks rest. reads = map Inr chunks @ rest \<and> head_chunks acc (chunk # chunks) buf)"
proof (intro iffI; elim exE conjE)
  fix chunks rest
  assume "Inr chunk # reads = map Inr chunks @ rest" and h: "head_chunks acc chunks buf"
  moreover obtain c cs where "chunks = c # cs" using h by (cases chunks) (simp_all add: head_chunks_def)
  ultimately have "reads = map Inr cs @ rest" "head_chunks acc (chunk # cs) buf" by simp_all
  then show "\<exists>chunks rest. reads = map Inr chunks @ rest \<and> head_chunks acc (chunk # chunks) buf" by blast
next
  fix chunks rest
  assume "reads = map Inr chunks @ rest" and "head_chunks acc (chunk # chunks) buf"
  then show "\<exists>chunks rest. Inr chunk # reads = map Inr chunks @ rest \<and> head_chunks acc chunks buf"
    by (intro exI [of _ "chunk # chunks"] exI [of _ rest]) simp
qed

lemma read_http_head_iff:
  "read_http_head reads acc = HeadRead buf \<longleftrightarrow>
   (\<exists>chunks rest. reads = map Inr chunks @ rest \<and> head_chunks acc chunks buf)"
proof (induction reads arbitrary: acc)
  case Nil
  then show ?case by (simp add: head_chunks_def)
next
  case (Cons r reads)
  show ?case
  proof (cases r)
    case (Inl e)
    then show ?thesis by (auto simp: head_chunks_def Cons_eq_append_conv)
  next
    case (Inr chunk)
    show ?thesis
    proof (cases "head_end (acc @ chunk)")
      case True
      then have "head_chunks acc (chunk # chunks) buf \<longleftrightarrow> chunk \<noteq> [] \<and> chunks = [] \<and> buf = acc @ chunk"
        for chunks by (auto simp: head_chunks_Cons)
      with True Inr show ?thesis unfolding Inr reads_Cons by (auto simp: Let_def)
    next
      case False
      then have "head_chunks acc (chunk # chunks) buf \<longleftrightarrow> chunk \<noteq> [] \<and>
          length (acc @ chunk) \<le> MAX_HEAD_SIZE \<and> head_chunks (acc @ chunk) chunks buf" for chunks
        by (auto simp: head_chunks_Cons head_chunks_def)
      with False Cons.IH [of "acc @ chunk"] show ?thesis unfolding Inr reads_Cons by (auto simp: Let_def)
    qed
  qed
qed

text \<open>
  The endpoint takes as request head exactly the bytes of the first reads after which the blank
  line has arrived, provided no more than 64 KiB had been read before the last of them; with reads of
  at most 1024 bytes a head never exceeds 65 KiB, whatever the peer sends.
\<close>
theorem request_head_bounded:
  assumes "\<forall>chunk. Inr chunk \<in> set reads \<longrightarrow> length chunk \<le> 1024"
  shows "read_http_head reads [] = HeadRead buf \<longleftrightarrow>
    (\<exists>chunks rest. reads = map Inr chunks @ rest \<and> chunks \<noteq> [] \<and> [] \<notin> set chunks \<and>
       buf = concat chunks \<and> head_end buf \<and> length buf \<le> 66560 \<and>
       \<not> head_end (concat (butlast chunks)) \<and> length (concat (butlast chunks)) \<le> 65536)"
proof -
  have nil: "\<not> head_end []" by (simp add: head_end_def)
  have "length (concat chunks) \<le> 66560"
    if "reads = map Inr chunks @ rest" "chunks \<noteq> []" "length (concat (butlast chunks)) \<le> 65536"
    for chunks rest
  proof -
    have "length (last chunks) \<le> 1024" using assms that(1,2) by simp
    moreover have "concat chunks = concat (butlast chunks) @ last chunks"
      using that(2) by (metis append_butlast_last_id concat.simps concat_append append_Nil2)
    ultimately show ?thesis using that(3) by simp
  qed
  then show ?thesis
    unfolding read_http_head_iff head_chunks_def MAX_HEAD_SIZE_def using nil by fastforce
qed

theorem request_head_bounded_witness:
  "\<exists>chunks rest. [Inr (''GET / HTTP/1.1'' @ crlf), Inr crlf] = map Inr chunks @ (rest :: (string, string) result list) \<and>
     ''GET / HTTP/1.1'' @ crlf @ crlf = concat chunks \<and> length (concat (butlast chunks)) \<le> 65536"
proof -
  have "read_http_head [Inr (''GET / HTTP/1.1'' @ crlf), Inr crlf] [] = HeadRead (''GET / HTTP/1.1'' @ crlf @ crlf)"
    by (simp add: head_end_def crlf_def Let_def MAX_HEAD_SIZE_def upt_conv_Cons)
  then show ?thesis
    using request_head_bounded [of "[Inr (''GET / HTTP/1.1'' @ crlf), Inr crlf]"
        "''GET / HTTP/1.1'' @ crlf @ crlf"]
    by (force simp: crlf_def)
qed

section \<open>Parsing what a client wrote\<close>

text \<open>A request head as a client writes it, in scalar values.\<close>

definition header_line :: "nat list \<times> nat list \<Rightarrow> nat list" where
  "header_line kv = fst kv @ [58, 32] @ snd kv"

definition request_line :: "nat list \<Rightarrow> nat list \<Rightarrow> nat list" where
  "request_line m p = m @ [32] @ p @ [32] @ [72, 84, 84, 80, 47, 49, 46, 49]"

definition head_lines :: "nat list \<Rightarrow> nat list \<Rightarrow> (nat list \<times> nat list) list \<Rightarrow> nat list list" where
  "head_lines m p hs = request_line m p # map header_line hs"

definition render_lines :: "nat list list \<Rightarrow> nat list" where
  "render_lines ls = concat (map (\<lambda>l. l @ [13, 10]) ls) @ [13, 10]"

definition request_text :: "nat list \<Rightarrow> nat list \<Rightarrow> (nat list \<times> nat list) list \<Rightarrow> string" where
  "request_text m p hs = text_string (render_lines (head_lines m p hs))"

definition token_ok :: "nat list \<Rightarrow> bool" where
  "token_ok w \<longleftrightarrow> w \<noteq> [] \<and> list_all (\<lambda>c. scalar c \<and> \<not> whitespace c) w"

definition trimmed :: "nat list \<Rightarrow> bool" where
  "trimmed w \<longleftrightarrow> list_all (\<lambda>c. scalar c \<and> c \<noteq> 13) w \<and> (w = [] \<or> \<not> whitespace (hd w) \<and> \<not> whitespace (last w))"

definition header_ok :: "nat list \<times> nat list \<Rightarrow> bool" where
  "header_ok kv \<longleftrightarrow> trimmed (fst kv) \<and> trimmed (snd kv) \<and> 58 \<notin> set (fst kv)"

lemma split_crlf_general: "split_crlf (u @ 13 # 10 # r) = split_crlf u @ split_crlf r"
proof (induction u rule: split_crlf.induct)
  case (3 c d cs)
  then show ?case
    using split_crlf_nonempty [of "d # cs"] by (auto split: list.splits)
qed simp_all

lemma split_crlf_Nil: "split_crlf v = [[]] \<Longrightarrow> v = []"
  using split_crlf_nonempty
  by (induction v rule: split_crlf.induct) (auto split: if_splits list.splits)

lemma split_crlf_no_cr: "13 \<notin> set l \<Longrightarrow> split_crlf l = [l]"
  by (induction l rule: split_crlf.induct) auto

lemma split_render_lines:
  assumes "\<forall>l \<in> set ls. 13 \<notin> set l"
  shows "split_crlf (render_lines ls @ r) = ls @ [] # split_crlf r"
  using assms
proof (induction ls)
  case Nil
  then show ?case by (simp add: render_lines_def)
next
  case (Cons l ls)
  then show ?case by (simp add: render_lines_def split_crlf_append)
qed

text \<open>The blank line occurs only at the end.\<close>

lemma render_lines_end:
  assumes "\<forall>l \<in> set ls. l \<noteq> [] \<and> 13 \<notin> set l" and "render_lines ls = u @ [13, 10, 13, 10] @ v"
  shows "v = []"
proof -
  have "ls @ [[], []] = split_crlf (u @ 13 # 10 # 13 # 10 # v)"
    using split_render_lines [of ls "[]"] assms by simp
  also have "\<dots> = split_crlf u @ [] # split_crlf v"
    using split_crlf_general [of u "13 # 10 # v"] by simp
  finally have eq: "ls @ [[], []] = split_crlf u @ [] # split_crlf v" .
  have "length ls \<le> length (split_crlf u)"
  proof (rule ccontr)
    assume less: "\<not> ?thesis"
    then have "ls ! length (split_crlf u) = []"
      using arg_cong [OF eq, of "\<lambda>xs. xs ! length (split_crlf u)"] by (simp add: nth_append)
    with less assms(1) show False by (metis not_le nth_mem)
  qed
  moreover have "length ls + 2 = length (split_crlf u) + 1 + length (split_crlf v)"
    using arg_cong [OF eq, of length] by simp
  moreover have "0 < length (split_crlf v)" using split_crlf_nonempty by auto
  ultimately have "length (split_crlf v) = 1" by linarith
  moreover have "last (split_crlf v) = []"
    using arg_cong [OF eq, of last] split_crlf_nonempty [of v] by simp
  ultimately have "split_crlf v = [[]]" by (cases "split_crlf v") auto
  then show ?thesis by (rule split_crlf_Nil)
qed

lemma from_utf8_lossy_append:
  assumes "list_all scalar cs"
  shows "from_utf8_lossy (utf8_encode cs @ r) = cs @ from_utf8_lossy r"
  using assms
proof (induction cs)
  case (Cons c cs)
  have "from_utf8_lossy (utf8_char c @ (utf8_encode cs @ r)) = c # from_utf8_lossy (utf8_encode cs @ r)"
    using Cons.prems utf8_char_nonempty [of c]
    by (subst from_utf8_lossy_step) (auto simp: utf8_next_char max_def Suc_le_eq)
  with Cons show ?case by (simp add: utf8_encode_def)
qed (simp add: utf8_encode_def)

lemma utf8_char_bytes: "scalar c \<Longrightarrow> b \<in> set (utf8_char c) \<Longrightarrow> b < 256"
  by (auto simp: utf8_char_def scalar_def split: if_splits)

lemma bytes_of_text_string:
  assumes "list_all scalar cs"
  shows "bytes_of (text_string cs) = utf8_encode cs"
proof -
  have "\<forall>b \<in> set (utf8_encode cs). b < 256"
    using assms utf8_char_bytes by (fastforce simp: utf8_encode_def list_all_iff)
  then show ?thesis by (simp add: bytes_of_def text_string_def string_of_def map_idI)
qed

lemma whitespace_cr: "whitespace 13" "whitespace 32"
  by (simp_all add: whitespace_def)

lemma split_request_line:
  assumes "token_ok m" and "token_ok p"
  shows "\<exists>ws. split_whitespace (request_line m p) = m # p # ws"
proof -
  have "split_whitespace (m @ 32 # p @ 32 # r) = m # split_whitespace (p @ 32 # r)" for r
    using assms(1) by (simp add: token_ok_def list_all_iff split_whitespace_word whitespace_cr
        split_whitespace_space)
  moreover have "split_whitespace (p @ 32 # r) = p # split_whitespace (32 # r)" for r
    using assms(2) by (simp add: token_ok_def list_all_iff split_whitespace_word whitespace_cr)
  ultimately show ?thesis by (auto simp: request_line_def)
qed

lemma parse_header_line:
  assumes "header_ok kv"
  shows "parse_header (header_line kv) = Some (text_string (fst kv), text_string (snd kv))"
proof -
  have "trim (32 # snd kv) = snd kv"
    using assms by (simp add: trim_space whitespace_cr trim_id header_ok_def trimmed_def)
  moreover have "trim (fst kv) = fst kv"
    using assms by (simp add: trim_id header_ok_def trimmed_def)
  moreover have "split_once 58 (header_line kv) = Some (fst kv, 32 # snd kv)"
    using assms split_once_append [of 58 "fst kv" "32 # snd kv"] by (simp add: header_line_def header_ok_def)
  ultimately show ?thesis by (simp add: parse_header_def)
qed

lemma head_lines_ok:
  assumes "token_ok m" and "token_ok p" and "list_all header_ok hs" and "l \<in> set (head_lines m p hs)"
  shows "l \<noteq> [] \<and> 13 \<notin> set l \<and> list_all scalar l"
  using assms whitespace_cr
  by (fastforce simp: head_lines_def request_line_def header_line_def token_ok_def header_ok_def
      trimmed_def list_all_iff scalar_def)

lemma render_lines_scalar:
  assumes "\<forall>l \<in> set ls. list_all scalar l"
  shows "list_all scalar (render_lines ls)"
  using assms by (induction ls) (simp_all add: render_lines_def scalar_def)

lemma map_filter_parse_header:
  "list_all header_ok hs \<Longrightarrow>
   List.map_filter parse_header (map header_line hs) = map (map_prod text_string text_string) hs"
  by (induction hs) (simp_all add: map_filter_simps parse_header_line map_prod_def split_def)

text \<open>
  A request head round-trips: for a method and a path without white space and trimmed header fields
  (names without a colon), in any Unicode text, parsing what the client wrote gives back the method,
  the path and every header in order, whatever bytes follow the blank line in the buffer.
\<close>

lemma parse_request_text:
  assumes "token_ok m" and "token_ok p" and "list_all header_ok hs"
  shows "parse_request (request_text m p hs @ rest) =
    \<lparr>hr_method = text_string m, hr_path = text_string p,
     hr_headers = map (map_prod text_string text_string) hs\<rparr>"
proof -
  let ?ls = "head_lines m p hs"
  note ok = head_lines_ok [OF assms]
  have scalars: "list_all scalar (render_lines ?ls)"
    using ok by (intro render_lines_scalar) blast
  have "from_utf8_lossy (bytes_of (request_text m p hs @ rest)) =
      render_lines ?ls @ from_utf8_lossy (bytes_of rest)"
    using from_utf8_lossy_append [OF scalars] bytes_of_text_string [OF scalars]
    by (simp add: request_text_def bytes_of_def)
  then have lns: "split_crlf (from_utf8_lossy (bytes_of (request_text m p hs @ rest))) =
      ?ls @ [] # split_crlf (from_utf8_lossy (bytes_of rest))"
    using split_render_lines ok by metis
  obtain ws where ws: "split_whitespace (request_line m p) = m # p # ws"
    using split_request_line [OF assms(1,2)] by blast
  have "takeWhile (\<lambda>line. line \<noteq> []) (map header_line hs @ [] # r) = map header_line hs" for r
    by (subst takeWhile_append2) (auto simp: header_line_def)
  with map_filter_parse_header [OF assms(3)] ws show ?thesis
    unfolding parse_request_def Let_def lns by (simp add: head_lines_def)
qed

section \<open>The upgrade\<close>

lemma utf8_char_13: "13 \<in> set (utf8_char c) \<longleftrightarrow> c = 13"
  by (auto simp: utf8_char_def)

lemma utf8_encode_render_lines:
  "utf8_encode (render_lines ls) = render_lines (map utf8_encode ls)"
proof -
  have "utf8_char 13 = [13]" "utf8_char 10 = [10]" by (simp_all add: utf8_char_def)
  then show ?thesis by (induction ls) (simp_all add: utf8_encode_def render_lines_def)
qed

lemma utf8_encode_line:
  assumes "l \<noteq> []" and "13 \<notin> set l"
  shows "utf8_encode l \<noteq> [] \<and> 13 \<notin> set (utf8_encode l)"
  using assms utf8_char_13 utf8_char_nonempty by (cases l) (auto simp: utf8_encode_def)

lemma request_text_end:
  assumes "token_ok m" and "token_ok p" and "list_all header_ok hs"
    and "request_text m p hs = u @ w" and "head_end u"
  shows "w = []"
proof -
  let ?ls = "map utf8_encode (head_lines m p hs)"
  note ok = head_lines_ok [OF assms(1-3)]
  obtain a b where u: "u = a @ crlf @ crlf @ b" using assms(5) unfolding head_end_iff by blast
  have scalars: "list_all scalar (render_lines (head_lines m p hs))"
    using ok by (intro render_lines_scalar) blast
  have "render_lines ?ls = bytes_of (request_text m p hs)"
    using bytes_of_text_string [OF scalars] by (simp add: request_text_def utf8_encode_render_lines)
  also have "\<dots> = bytes_of (u @ w)" using assms(4) by simp
  also have "\<dots> = bytes_of a @ [13, 10, 13, 10] @ bytes_of (b @ w)"
    by (simp add: u bytes_of_def crlf_def)
  finally have eq: "render_lines ?ls = bytes_of a @ [13, 10, 13, 10] @ bytes_of (b @ w)" .
  have "\<forall>l \<in> set ?ls. l \<noteq> [] \<and> 13 \<notin> set l" using ok utf8_encode_line by auto
  then have "bytes_of (b @ w) = []" using eq by (rule render_lines_end)
  then show ?thesis by (simp add: bytes_of_def)
qed

lemma crlf_codes: "char_of (13 :: nat) = CHR 0x0D" "char_of (10 :: nat) = CHR 0x0A"
  by code_simp+

lemma request_text_head_end: "head_end (request_text m p hs)"
proof -
  have ne: "utf8_char 13 = [13]" "utf8_char 10 = [10]" by (simp_all add: utf8_char_def)
  obtain x where x: "render_lines (head_lines m p hs) = x @ [13, 10, 13, 10]"
  proof (cases "head_lines m p hs" rule: rev_cases)
    case (snoc ls l)
    then show ?thesis using that [of "concat (map (\<lambda>l. l @ [13, 10]) ls) @ l"]
      by (simp add: render_lines_def)
  qed (simp add: head_lines_def)
  have "request_text m p hs = text_string x @ crlf @ crlf @ []"
    by (simp add: request_text_def x text_string_def utf8_encode_def ne string_of_def crlf_def crlf_codes)
  then show ?thesis unfolding head_end_iff by blast
qed

text \<open>
  C33. A browser's request is answered in the same way however the network cuts it into reads: with a
  complete request of at most 64 KiB the endpoint takes the path and the headers the browser wrote.
  An upgrade request for \<open>/ws\<close> (any capitalisation of the field names and of \<open>websocket\<close>) is answered
  with the accept key derived from the key the browser sent; another path is answered 404, and a
  request for \<open>/ws\<close> that does not ask for the upgrade 426; a connection whose response cannot be written
  fails.
\<close>
theorem upgrade_handshake:
  assumes "token_ok m" and "token_ok p" and "list_all header_ok hs"
    and "chunks \<noteq> []" and "[] \<notin> set chunks" and "concat chunks = request_text m p hs"
    and "length (request_text m p hs) \<le> 65536"
    and "request = \<lparr>hr_method = text_string m, hr_path = text_string p,
      hr_headers = map (map_prod text_string text_string) hs\<rparr>"
  shows "handle_connection derive_accept_key (HeadReads (map Inr chunks @ reads) written) =
    write_response written (if text_string p \<noteq> ''/ws'' \<and> text_string p \<noteq> ''/ws/''
     then ConnResponded (respond ''404 Not Found'' ''not found'')
     else case (header request ''upgrade'', header request ''sec-websocket-key'') of
       (Some v, Some key) \<Rightarrow>
         if eq_ignore_ascii_case v ''websocket'' then ConnUpgraded (switching_protocols (derive_accept_key key))
         else ConnResponded (respond ''426 Upgrade Required'' ''upgrade required'')
     | _ \<Rightarrow> ConnResponded (respond ''426 Upgrade Required'' ''upgrade required''))"
proof -
  have split: "request_text m p hs = concat (butlast chunks) @ last chunks"
    using assms(4,6) by (metis append_butlast_last_id concat.simps concat_append append_Nil2)
  have "last chunks \<noteq> []" using assms(4,5) by (metis last_in_set)
  then have "\<not> head_end (concat (butlast chunks))"
    using request_text_end [OF assms(1-3) split] by blast
  moreover have "length (concat (butlast chunks)) \<le> MAX_HEAD_SIZE"
    using assms(7) split by (simp add: MAX_HEAD_SIZE_def)
  ultimately have "head_chunks [] chunks (request_text m p hs)"
    using assms(4-6) request_text_head_end by (simp add: head_chunks_def)
  then have read: "read_http_head (map Inr chunks @ reads) [] = HeadRead (request_text m p hs)"
    unfolding read_http_head_iff by blast
  have parsed: "parse_request (request_text m p hs) = request"
    using parse_request_text [OF assms(1-3), of "[]"] assms(8) by simp
  have path: "hr_path request = text_string p" using assms(8) by simp
  show ?thesis
    unfolding handle_connection.simps read head_result.case parsed route_connection_def path is_upgrade_def
    by (cases "header request ''upgrade''"; cases "header request ''sec-websocket-key''") simp_all
qed

definition ascii :: "string \<Rightarrow> nat list" where "ascii s = map of_char s"

definition sample_headers :: "(nat list \<times> nat list) list" where
  "sample_headers = [(ascii ''Host'', ascii ''h''), (ascii ''Upgrade'', ascii ''WebSocket''),
     (ascii ''Sec-WebSocket-Key'', ascii ''k'')]"

lemma text_string_ascii: "list_all (\<lambda>c. (of_char c :: nat) < 128) s \<Longrightarrow> text_string (ascii s) = s"
  by (induction s) (simp_all add: text_string_def utf8_encode_def utf8_char_def ascii_def string_of_def)

theorem upgrade_handshake_witness:
  "handle_connection (\<lambda>key. ''accept-'' @ key)
     (HeadReads [Inr (request_text (ascii ''GET'') (ascii ''/ws'') sample_headers)] None) =
   ConnUpgraded (switching_protocols ''accept-k'')"
proof -
  let ?m = "ascii ''GET''" and ?p = "ascii ''/ws''"
  have ok: "token_ok ?m" "token_ok ?p" "list_all header_ok sample_headers"
    by (simp_all add: token_ok_def header_ok_def trimmed_def whitespace_def scalar_def ascii_def
        sample_headers_def)
  have len: "length (request_text ?m ?p sample_headers) \<le> 65536"
    by (simp add: request_text_def text_string_def string_of_def utf8_encode_def utf8_char_def
        render_lines_def head_lines_def request_line_def header_line_def ascii_def sample_headers_def)
  have ne: "request_text ?m ?p sample_headers \<noteq> []"
    using request_text_head_end [of ?m ?p sample_headers] by (auto simp: head_end_def)
  have texts: "text_string ?m = ''GET''" "text_string ?p = ''/ws''"
    "map (map_prod text_string text_string) sample_headers =
       [(''Host'', ''h''), (''Upgrade'', ''WebSocket''), (''Sec-WebSocket-Key'', ''k'')]"
    by (simp_all add: text_string_ascii sample_headers_def)
  have found:
    "header \<lparr>hr_method = ''GET'', hr_path = ''/ws'', hr_headers = [(''Host'', ''h''), (''Upgrade'', ''WebSocket''),
       (''Sec-WebSocket-Key'', ''k'')]\<rparr> ''upgrade'' = Some ''WebSocket''"
    "header \<lparr>hr_method = ''GET'', hr_path = ''/ws'', hr_headers = [(''Host'', ''h''), (''Upgrade'', ''WebSocket''),
       (''Sec-WebSocket-Key'', ''k'')]\<rparr> ''sec-websocket-key'' = Some ''k''"
    "eq_ignore_ascii_case ''WebSocket'' ''websocket'' = True"
    by code_simp+
  show ?thesis
    using upgrade_handshake [OF ok, of "[request_text ?m ?p sample_headers]" _ "\<lambda>key. ''accept-'' @ key" "[]" None,
        OF _ _ _ len refl] ne
    unfolding texts found by (simp add: found del: handle_connection.simps)
qed

section \<open>A session's commands and frames\<close>

text \<open>The events that end a session, and what the others contribute.\<close>

fun ws_ends :: "ws_event \<Rightarrow> bool" where
  "ws_ends (WsOutput (Some (SocketText t)) ok) = (\<not> ok)"
| "ws_ends (WsIncoming (Some (Inr (MsgText t))) now later alive) = (\<not> alive)"
| "ws_ends (WsIncoming (Some (Inr (MsgPing p))) now later alive) = False"
| "ws_ends (WsIncoming (Some (Inr (MsgPong p))) now later alive) = False"
| "ws_ends (WsIncoming (Some (Inr (MsgFrame f))) now later alive) = False"
| "ws_ends _ = True"

fun received_text :: "u64 \<Rightarrow> ws_event \<Rightarrow> 'r DriverCommand option" where
  "received_text k (WsIncoming (Some (Inr (MsgText t))) now later alive) = Some (Text k t now)"
| "received_text k _ = None"

fun written_text :: "ws_event \<Rightarrow> ws_message option" where
  "written_text (WsOutput (Some (SocketText t)) ok) = Some (MsgText t)"
| "written_text _ = None"

fun closes_politely :: "ws_event \<Rightarrow> bool" where
  "closes_politely WsStop = True"
| "closes_politely (WsOutput (Some SocketClose) ok) = True"
| "closes_politely (WsOutput None ok) = True"
| "closes_politely _ = False"

definition before_end :: "ws_event list \<Rightarrow> ws_event list" where
  "before_end evs = takeWhile (\<lambda>ev. \<not> ws_ends ev) evs"

definition close_frames :: "ws_event list \<Rightarrow> ws_message list" where
  "close_frames evs = (case dropWhile (\<lambda>ev. \<not> ws_ends ev) evs of
     [] \<Rightarrow> [] | ev # _ \<Rightarrow> if closes_politely ev then [MsgClose] else [])"

lemma ws_step_continues:
  assumes "\<not> ws_ends ev"
  shows "fst (ws_step k ev s)"
    and "ws_commands (snd (ws_step k ev s)) =
      ws_commands s @ (case received_text k ev of None \<Rightarrow> [] | Some c \<Rightarrow> [c])"
    and "ws_written (snd (ws_step k ev s)) =
      ws_written s @ (case written_text ev of None \<Rightarrow> [] | Some f \<Rightarrow> [f])"
  using assms by (cases "(k, ev, s)" rule: ws_step.cases; auto)+

lemma ws_step_ends:
  assumes "ws_ends ev"
  shows "\<not> fst (ws_step k ev s)"
    and "ws_commands (snd (ws_step k ev s)) = ws_commands s"
    and "ws_written (snd (ws_step k ev s)) =
      ws_written s @ (if closes_politely ev then [MsgClose] else [])"
  using assms by (cases "(k, ev, s)" rule: ws_step.cases; auto)+

lemma ws_loop_spec:
  assumes "ws_loop k evs s = (running, s')"
  shows "running \<longleftrightarrow> list_all (\<lambda>ev. \<not> ws_ends ev) evs"
    and "ws_commands s' = ws_commands s @ List.map_filter (received_text k) (before_end evs)"
    and "ws_written s' = ws_written s @ List.map_filter written_text (before_end evs) @ close_frames evs"
proof -
  have "(running \<longleftrightarrow> list_all (\<lambda>ev. \<not> ws_ends ev) evs) \<and>
    ws_commands s' = ws_commands s @ List.map_filter (received_text k) (before_end evs) \<and>
    ws_written s' = ws_written s @ List.map_filter written_text (before_end evs) @ close_frames evs"
    using assms
  proof (induction evs arbitrary: s)
    case Nil
    then show ?case by (simp add: before_end_def close_frames_def map_filter_simps)
  next
    case (Cons ev evs)
    show ?case
    proof (cases "ws_ends ev")
      case True
      with Cons.prems ws_step_ends [OF True, of k s] show ?thesis
        by (auto simp: before_end_def close_frames_def map_filter_simps split: prod.splits bool.splits)
    next
      case False
      obtain s1 where s1: "ws_step k ev s = (True, s1)"
        using ws_step_continues(1) [OF False, of k s] by (cases "ws_step k ev s") auto
      with Cons False ws_step_continues(2,3) [OF False, of k s] show ?thesis
        by (auto simp: before_end_def close_frames_def map_filter_simps split: option.splits)
    qed
  qed
  then show "running \<longleftrightarrow> list_all (\<lambda>ev. \<not> ws_ends ev) evs"
    and "ws_commands s' = ws_commands s @ List.map_filter (received_text k) (before_end evs)"
    and "ws_written s' = ws_written s @ List.map_filter written_text (before_end evs) @ close_frames evs"
    by blast+
qed


section \<open>From the state machine to the browser\<close>

lemma ws_loop_texts:
  "ws_loop k (map (\<lambda>v. WsOutput (Some v) True) (map SocketText ts)) s =
   (True, s\<lparr>ws_written := ws_written s @ map MsgText ts\<rparr>)"
  by (induction ts arbitrary: s) simp_all


definition sample_driver :: "(nat, sample_collider) driver" where
  "sample_driver = \<lparr>dr_collider = ([OText 7 ''a''], []), dr_sockets = [(7, socket_channel)],
     dr_sfu_sessions = [], dr_pending = [], dr_closed = [], dr_answers = []\<rparr>"

definition sample_session :: "nat ws_state" where
  "sample_session = \<lparr>ws_idle_deadline = 0, ws_written = [], ws_commands = []\<rparr>"

lemma sample_outs:
  "collider_outputs sample_collider_api ([OText 7 ''a''], []) outs c' \<Longrightarrow> outs = [OText 7 ''a'']"
  by (erule collider_outputs.cases; auto simp: sample_collider_api_def elim: collider_outputs.cases)


section \<open>Connection identifiers\<close>

lemma accept_loop_ids:
  assumes "ac_spawned a = map of_nat [1..<Suc n]" and "ac_next_connection_id a = of_nat (Suc n)"
    and "\<not> ac_stopped a"
  shows "\<exists>m. n \<le> m \<and> m \<le> n + length evs \<and> ac_spawned (accept_loop evs a) = map of_nat [1..<Suc m]"
  using assms
proof (induction evs arbitrary: a n)
  case (Cons ev evs)
  show ?case
  proof (cases ev)
    case Accepted
    with Cons.prems obtain m where "Suc n \<le> m" "m \<le> Suc n + length evs"
      "ac_spawned (accept_loop evs (accept_step ev a)) = map of_nat [1..<Suc m]"
      using Cons.IH [of "accept_step ev a" "Suc n"] by auto
    with Accepted Cons.prems(3) show ?thesis by (intro exI [of _ m]) (simp add: Let_def)
  next
    case AcceptStop
    with Cons.prems show ?thesis by (auto simp: Let_def)
  next
    case (TaskJoined f)
    with Cons.prems Cons.IH [of a n] show ?thesis by (auto simp: Let_def le_Suc_eq)
  next
    case (AcceptError e)
    with Cons.prems Cons.IH [of a n] show ?thesis by (auto simp: Let_def le_Suc_eq)
  qed
qed auto

text \<open>Every accepted connection has an identifier of its own, and zero is never one.\<close>

lemma connection_ids_distinct:
  assumes "length evs < 2 ^ 64 - 1"
  shows "distinct (ac_spawned (accept_loop evs new_acceptor)) \<and>
    0 \<notin> set (ac_spawned (accept_loop evs new_acceptor))"
proof -
  obtain m where m: "m \<le> length evs" "ac_spawned (accept_loop evs new_acceptor) = map of_nat [1..<Suc m]"
    using accept_loop_ids [of new_acceptor 0 evs] by (auto simp: new_acceptor_def)
  have unat: "unat (of_nat i :: u64) = i" if "i < Suc m" for i
    using that m(1) assms by (simp add: unat_of_nat)
  have "inj_on (of_nat :: nat \<Rightarrow> u64) (set [1..<Suc m])"
    by (rule inj_on_inverseI [where g = unat]) (use unat in auto)
  moreover have "(of_nat i :: u64) \<noteq> 0" if "0 < i" "i < Suc m" for i
    using unat [OF that(2)] that(1) by (metis neq0_conv unsigned_0)
  ultimately show ?thesis unfolding m(2) by (auto simp: distinct_map)
qed

end
