(* ===== verification/Endpoint.thy ===== *)
theory Endpoint
  imports Browser
begin

text \<open>
  The signaling process as a whole: browser sessions that feed the event loop, and its graceful stop.
  \<open>main\<close> of \<open>src/src/bin/signaling.rs\<close> stops the transports first, waits for their tasks and only then
  stops the event loop, so every command of every session reaches the loop before it closes; the
  theorem below takes such a run as its hypothesis.
\<close>

section \<open>Which connections have a socket\<close>

abbreviation socket_ids :: "('r, 'c) driver \<Rightarrow> u64 set" where
  "socket_ids d \<equiv> fst ` set (dr_sockets d)"

fun live_after :: "'r DriverCommand \<Rightarrow> u64 set \<Rightarrow> u64 set" where
  "live_after (Connected k channel) live = insert k live"
| "live_after (Disconnected k now) live = live - {k}"
| "live_after _ live = live"

lemma socket_ids_remove [simp]:
  "socket_ids (remove_socket k d) = socket_ids d - {k}" "socket_ids (close_socket k d) = socket_ids d - {k}"
  by (simp_all add: remove_socket_def close_socket_def set_keys_remove)

lemma socket_ids_command:
  "socket_ids (handle_command A c d) \<subseteq> live_after c (socket_ids d)"
  by (cases c)
    (auto simp: Let_def set_keys_insert set_keys_remove answer_def
      split: prod.splits option.splits sfu_input.splits)

lemma socket_ids_route_output: "socket_ids (fst (route_output out ds)) \<subseteq> socket_ids (fst ds)"
proof (cases ds)
  case (Pair d disconnected)
  have known: "k \<in> socket_ids d" if "hm_get (dr_sockets d) k = Some s" for k s
    using map_of_SomeD [OF that] by force
  show ?thesis
    unfolding Pair
    by (cases out) (auto simp: Let_def set_keys_insert known split: option.splits prod.splits)
qed

lemma socket_ids_route_outputs:
  assumes "route_outputs A ds = Some ds'"
  shows "socket_ids (fst ds') \<subseteq> socket_ids (fst ds)"
proof (rule route_outputs_induct [of "\<lambda>ds'. socket_ids (fst ds') \<subseteq> socket_ids (fst ds)", OF _ _ _ assms])
  show "socket_ids (fst (route_output out es)) \<subseteq> socket_ids (fst ds)"
    if "socket_ids (fst es) \<subseteq> socket_ids (fst ds)" for es :: "('a, 'b) driver \<times> u64 list" and out
    using socket_ids_route_output that by (rule order_trans)
qed simp_all

lemma socket_ids_disconnects: "socket_ids (fold (disconnect A now) ks d) \<subseteq> socket_ids d"
proof (induction ks arbitrary: d)
  case (Cons k ks)
  have "socket_ids (disconnect A now k d) \<subseteq> socket_ids d" by (auto simp: disconnect_def Let_def)
  with Cons [of "disconnect A now k d"] show ?case by auto
qed simp

lemma socket_ids_drain_outputs:
  assumes "drain_outputs A now d = Some d'"
  shows "socket_ids d' \<subseteq> socket_ids d"
proof -
  from assms obtain ds where ds: "route_outputs A (d, []) = Some ds"
    "d' = fold (disconnect A now) (remdups_adj (sort (snd ds))) (fst ds)"
    by (auto simp: drain_outputs_def split_def)
  have "socket_ids d' \<subseteq> socket_ids (fst ds)" unfolding ds(2) by (rule socket_ids_disconnects)
  also have "\<dots> \<subseteq> socket_ids d" using socket_ids_route_outputs [OF ds(1)] by simp
  finally show ?thesis .
qed

lemma sockets_drain_authority:
  assumes "drain_authority_responses A d = Some d'"
  shows "dr_sockets d' = dr_sockets d"
  by (rule drain_responses_induct [OF _ _ _ assms]) (simp_all add: answer_def)

lemma live_after_mono: "S \<subseteq> T \<Longrightarrow> live_after c S \<subseteq> live_after c T"
  by (cases c) auto

interpretation sockets: driver_invariant A "\<lambda>cs d. socket_ids d \<subseteq> fold live_after cs S" for A S
proof
  show "socket_ids (handle_command A c d) \<subseteq> fold live_after (cs @ [c]) S"
    if "socket_ids d \<subseteq> fold live_after cs S" for cs d c
    using order_trans [OF socket_ids_command live_after_mono [OF that]] by simp
  show "socket_ids d' \<subseteq> fold live_after cs S"
    if "socket_ids d \<subseteq> fold live_after cs S" "drain_outputs A now d = Some d'" for cs d now d'
    using socket_ids_drain_outputs [OF that(2)] that(1) by (rule order_trans)
  show "socket_ids d' \<subseteq> fold live_after cs S"
    if "socket_ids d \<subseteq> fold live_after cs S" "drain_authority_responses A d = Some d'" for cs d d'
    using sockets_drain_authority [OF that(2)] that(1) by simp
qed simp

section \<open>Runs that end with a stop\<close>

text \<open>The state machine's timeouts succeed, so that only a stop ends the loop.\<close>

definition timeouts_succeed :: "('r, 'c) collider_api \<Rightarrow> bool" where
  "timeouts_succeed A \<longleftrightarrow> (\<forall>c now. fst (handle_timeout A c now))"

fun goes_on :: "'r wake \<Rightarrow> bool" where
  "goes_on WakeDeadline = True"
| "goes_on (WakeCommand (Some c)) = True"
| "goes_on _ = False"

lemma driver_step_goes_on:
  assumes "timeouts_succeed A" and "goes_on w" and "driver_step A now w d = Some (d', b)"
  shows "b"
proof -
  have "fst (handle_timeout A (dr_collider d) now)" using assms(1) by (simp add: timeouts_succeed_def)
  with assms(2,3) show ?thesis
    by (cases w rule: goes_on.cases) (auto split: prod.splits if_splits)
qed

lemma handled_goes_on:
  assumes "timeouts_succeed A" and "list_all (goes_on \<circ> snd) ws"
    and "driver_run A (ws @ [(now, WakeStop)]) queued d = Some d'"
  shows "handled A (ws @ [(now, WakeStop)]) queued d = concat (map (wake_commands \<circ> snd) ws) @ queued"
  using assms(2,3)
proof (induction ws arbitrary: d)
  case (Cons tw ws)
  obtain t w where tw: "tw = (t, w)" by fastforce
  with Cons.prems obtain d1 b where d1: "driver_step A t w d = Some (d1, b)"
    by (auto split: option.splits)
  with driver_step_goes_on [OF assms(1) _ d1] Cons tw show ?case by simp
qed simp

section \<open>No socket outlives its session\<close>

fun about :: "u64 \<Rightarrow> 'r DriverCommand \<Rightarrow> bool" where
  "about k (Connected k' channel) = (k' = k)"
| "about k (Text k' t now) = (k' = k)"
| "about k (Disconnected k' now) = (k' = k)"
| "about k _ = False"

lemma live_after_other: "\<not> about k c \<Longrightarrow> k \<in> live_after c S \<longleftrightarrow> k \<in> S"
  by (cases c) auto

lemma live_after_same: "(k \<in> S \<longleftrightarrow> k \<in> T) \<Longrightarrow> k \<in> live_after c S \<longleftrightarrow> k \<in> live_after c T"
  by (cases c) auto

lemma fold_live_same: "(k \<in> S \<longleftrightarrow> k \<in> T) \<Longrightarrow> k \<in> fold live_after cs S \<longleftrightarrow> k \<in> fold live_after cs T"
proof (induction cs arbitrary: S T)
  case (Cons c cs)
  from Cons.IH [OF live_after_same [OF Cons.prems, of c]] show ?case by simp
qed simp

lemma fold_live_about:
  "k \<in> fold live_after cs S \<longleftrightarrow> k \<in> fold live_after (filter (about k) cs) S"
proof (induction cs arbitrary: S)
  case (Cons c cs)
  then show ?case
    using fold_live_same [OF live_after_other [of k c S], of "filter (about k) cs"] by auto
qed simp

lemma session_not_live:
  fixes s :: "'r ws_state"
  assumes "ws_session k start True evs ended True = (False, s)"
  shows "k \<notin> fold live_after (ws_commands s) S"
proof -
  obtain running and s' :: "'r ws_state" where
    "ws_loop k evs \<lparr>ws_idle_deadline = start + WS_IDLE_TIMEOUT, ws_written = [],
       ws_commands = [Connected k socket_channel]\<rparr> = (running, s')" by fastforce
  with assms have "ws_commands s = ws_commands s' @ [Disconnected k ended]"
    by (cases running) (auto simp: ws_session_def)
  then show ?thesis by simp
qed

text \<open>
  A graceful stop leaves no browser socket behind. Let the commands that reach the event loop,
  through wake-ups or from the queue at the stop, be any interleaving of the commands of browser
  sessions that have ended, with commands of other kinds in between, and let deadlines of the state
  machine fall anywhere between them. Then the run returns, and the loop holds no socket at its end.
\<close>
lemma graceful_stop_releases_sockets:
  assumes "outputs_finite A measure_outs measure_resps" and "timeouts_succeed A"
    and "list_all (goes_on \<circ> snd) ws" and "cs = concat (map (wake_commands \<circ> snd) ws) @ queued"
    and "\<forall>k. filter (about k) cs = [] \<or> (\<exists>start evs ended s.
      ws_session k start True evs ended True = (False, s) \<and> filter (about k) cs = ws_commands s)"
  shows "\<exists>d'. driver_run A (ws @ [(now, WakeStop)]) queued (new_driver collider) = Some d' \<and>
    dr_sockets d' = []"
proof -
  obtain d' where d': "driver_run A (ws @ [(now, WakeStop)]) queued (new_driver collider) = Some d'"
    using driver_run_returns [OF assms(1)] by blast
  have "k \<notin> fold live_after cs {}" for k
    using assms(5) [rule_format, of k] unfolding fold_live_about [of k cs "{}"]
    by (auto dest: session_not_live [where S = "{}"])
  moreover have "socket_ids d' \<subseteq> fold live_after cs {}"
    using sockets.run [where cs = "[]" and S = "{}", OF _ d'] handled_goes_on [OF assms(2,3) d'] assms(4)
    by (simp add: new_driver_def)
  ultimately have "dr_sockets d' = []" by (metis all_not_in_conv image_is_empty set_empty subsetD)
  with d' show ?thesis by blast
qed

lemma sample_timeouts_succeed: "timeouts_succeed sample_collider_api"
  by (simp add: timeouts_succeed_def sample_collider_api_def)

end
