(* ===== verification/Transitions.thy ===== *)
theory Transitions
  imports Prelude
begin

text \<open>
  Step relations: the interface the concurrent models share. A predicate that every step keeps holds in
  every state that can be reached from one in which it holds.
\<close>

locale step_invariant =
  fixes step :: "'s \<Rightarrow> 's \<Rightarrow> bool" and inv :: "'s \<Rightarrow> bool"
  assumes kept: "inv s \<Longrightarrow> step s s' \<Longrightarrow> inv s'"
begin

lemma reachable: "step\<^sup>*\<^sup>* s s' \<Longrightarrow> inv s \<Longrightarrow> inv s'"
  by (induction rule: rtranclp_induct) (auto intro: kept)

text \<open>A part of the state that no step changes while the invariant holds is never changed.\<close>

lemma frozen:
  assumes "\<And>s s'. inv s \<Longrightarrow> step s s' \<Longrightarrow> f s' = f s" and "step\<^sup>*\<^sup>* s s'" and "inv s"
  shows "f s' = f s"
  using assms(2)
proof (induction rule: rtranclp_induct)
  case (step t u)
  with assms(1) reachable [OF step(1) assms(3)] show ?case by metis
qed simp

end

end
