(* ===== verification/Signaling_Process.thy ===== *)
theory Signaling_Process
  imports Endpoint Transitions
begin

text \<open>
  The signaling process (\<open>src/src/bin/signaling.rs\<close>): \<open>main\<close>, the accept loop and the session tasks of
  the browsers, the gRPC server and the event loop, connected by one bounded channel of commands. A
  rule of \<open>process_step\<close> is what one task does between two points at which it can wait; a send on a full
  channel waits, and a send to an event loop that has ended fails.

  Browsers and their handshakes, the clock and the gRPC server are left open: the server sends any
  commands that do not concern browsers, at any time, and \<open>grpc_server::run\<close> may return at any time (the
  transport library decides when). What a session takes from its output channel is what the event loop
  put there: a channel that the loop still holds is in \<open>dr_sockets\<close>, one that it has dropped in
  \<open>dr_closed\<close>.
\<close>

section \<open>Tasks\<close>

text \<open>
  What \<open>main\<close> waits for: the signal to stop, then the accept loop, the gRPC server and the event loop.
  The transports are told to stop on the signal, the event loop only when both have returned.
\<close>

datatype main_phase = Serving | AwaitWs | AwaitGrpc | AwaitLoop | Down

text \<open>
  Where the task of a connection is: before the upgrade, about to announce the session, in the \<open>select!\<close>
  of \<open>ws_session\<close>, writing to the browser what it took from its output channel, past the loop and about
  to report the disconnection, or finished. A write takes as long as the browser makes it take, and the
  task does not look at the stop signal meanwhile.
\<close>

datatype 'r ws_task =
    TaskHandshake
  | TaskOpening
  | TaskSession "'r ws_state"
  | TaskWriting "'r ws_state" "SocketOutput option"
  | TaskClosing
  | TaskFinished

record ('r, 'c) process =
  pr_main :: main_phase
  pr_acceptor :: acceptor
  pr_tasks :: "(u64 \<times> 'r ws_task) list"
  pr_ws_done :: bool
  pr_grpc_done :: bool
  pr_queue :: "'r DriverCommand list"
  pr_running :: bool
  pr_driver :: "('r, 'c) driver"

definition new_process :: "'c \<Rightarrow> ('r, 'c) process" where
  "new_process collider = \<lparr>pr_main = Serving, pr_acceptor = new_acceptor, pr_tasks = [], pr_ws_done = False,
     pr_grpc_done = False, pr_queue = [], pr_running = True, pr_driver = new_driver collider\<rparr>"

definition transports_stopped :: "('r, 'c) process \<Rightarrow> bool" where
  "transports_stopped p \<longleftrightarrow> pr_main p \<noteq> Serving"

definition loop_stopped :: "('r, 'c) process \<Rightarrow> bool" where
  "loop_stopped p \<longleftrightarrow> pr_main p = AwaitLoop \<or> pr_main p = Down"

definition set_ws_task :: "nat \<Rightarrow> 'r ws_task \<Rightarrow> ('r, 'c) process \<Rightarrow> ('r, 'c) process" where
  "set_ws_task i task p = p\<lparr>pr_tasks := (pr_tasks p)[i := (fst (pr_tasks p ! i), task)]\<rparr>"

definition all_finished :: "('r, 'c) process \<Rightarrow> bool" where
  "all_finished p \<longleftrightarrow> (\<forall>i < length (pr_tasks p). snd (pr_tasks p ! i) = TaskFinished)"

definition has_room :: "('r, 'c) process \<Rightarrow> bool" where
  "has_room p \<longleftrightarrow> pr_running p \<and> length (pr_queue p) < COMMAND_CAPACITY"

definition post :: "'r DriverCommand list \<Rightarrow> ('r, 'c) process \<Rightarrow> ('r, 'c) process" where
  "post cs p = p\<lparr>pr_queue := pr_queue p @ cs\<rparr>"

section \<open>The output channel of a session\<close>

text \<open>\<open>outputs.recv()\<close>: a value, the end of the channel (\<open>Some None\<close>), or nothing yet (\<open>None\<close>).\<close>

definition take_output ::
  "u64 \<Rightarrow> bool \<Rightarrow> ('r, 'c) driver \<Rightarrow> (SocketOutput option \<times> ('r, 'c) driver) option" where
  "take_output k running d =
     (case hm_get (dr_sockets d) k of
        Some ch \<Rightarrow>
          (case ch_queue ch of
             m # ms \<Rightarrow> Some (Some m, d\<lparr>dr_sockets := hm_insert k (ch\<lparr>ch_queue := ms\<rparr>) (dr_sockets d)\<rparr>)
           | [] \<Rightarrow> if running then None else Some (None, d))
      | None \<Rightarrow>
          (case hm_get (dr_closed d) k of
             Some ch \<Rightarrow>
               (case ch_queue ch of
                  m # ms \<Rightarrow> Some (Some m, d\<lparr>dr_closed := hm_insert k (ch\<lparr>ch_queue := ms\<rparr>) (dr_closed d)\<rparr>)
                | [] \<Rightarrow> Some (None, d))
           | None \<Rightarrow> None))"

text \<open>At the end of its task the receiver is dropped, wherever the sender is by then.\<close>

fun drop_in_command :: "u64 \<Rightarrow> 'r DriverCommand \<Rightarrow> 'r DriverCommand" where
  "drop_in_command k (Connected k' ch) = Connected k' (if k' = k then ch\<lparr>ch_open := False\<rparr> else ch)"
| "drop_in_command k c = c"

definition drop_receiver :: "u64 \<Rightarrow> ('r, 'c) process \<Rightarrow> ('r, 'c) process" where
  "drop_receiver k p =
     (let d = pr_driver p
      in p\<lparr>pr_queue := map (drop_in_command k) (pr_queue p),
           pr_driver := (case hm_get (dr_sockets d) k of
             None \<Rightarrow> d
           | Some ch \<Rightarrow> d\<lparr>dr_sockets := hm_insert k (ch\<lparr>ch_open := False\<rparr>) (dr_sockets d)\<rparr>)\<rparr>)"

definition finish_task :: "nat \<Rightarrow> ('r, 'c) process \<Rightarrow> ('r, 'c) process" where
  "finish_task i p = set_ws_task i TaskFinished (drop_receiver (fst (pr_tasks p ! i)) p)"

section \<open>Steps\<close>

text \<open>When an event of a session's \<open>select!\<close> can occur; values of the output channel are taken apart.\<close>

fun ws_event_ready :: "('r, 'c) process \<Rightarrow> ws_event \<Rightarrow> bool" where
  "ws_event_ready p WsStop \<longleftrightarrow> transports_stopped p"
| "ws_event_ready p (WsOutput out ok) \<longleftrightarrow> False"
| "ws_event_ready p (WsIncoming message now later alive) \<longleftrightarrow> alive = pr_running p"
| "ws_event_ready p WsIdle \<longleftrightarrow> True"

text \<open>The commands that an event sends, and the task after it.\<close>

definition sent_by :: "'r ws_state \<Rightarrow> 'r ws_state \<Rightarrow> 'r DriverCommand list" where
  "sent_by s s' = drop (length (ws_commands s)) (ws_commands s')"

definition session_task :: "bool \<times> 'r ws_state \<Rightarrow> 'r ws_task" where
  "session_task gs = (if fst gs then TaskSession (snd gs) else TaskClosing)"

text \<open>What can wake the event loop, and the queue after it.\<close>

fun wake_ready ::
  "('r, 'c) collider_api \<Rightarrow> ('r, 'c) process \<Rightarrow> instant \<Rightarrow> 'r wake \<Rightarrow> 'r DriverCommand list \<Rightarrow> bool" where
  "wake_ready A p now WakeStop queue \<longleftrightarrow> loop_stopped p \<and> queue = pr_queue p"
| "wake_ready A p now WakeDeadline queue \<longleftrightarrow>
     (\<exists>deadline \<le> now. poll_timeout A (dr_collider (pr_driver p)) = Some deadline) \<and> queue = pr_queue p"
| "wake_ready A p now (WakeCommand (Some c)) queue \<longleftrightarrow> pr_queue p = c # queue"
| "wake_ready A p now (WakeCommand None) queue \<longleftrightarrow>
     pr_queue p = [] \<and> queue = [] \<and> pr_ws_done p \<and> pr_grpc_done p"

fun browser_command :: "'r DriverCommand \<Rightarrow> bool" where
  "browser_command (Connected k ch) = True"
| "browser_command (Text k t now) = True"
| "browser_command (Disconnected k now) = True"
| "browser_command _ = False"

inductive process_step ::
  "('r, 'c) collider_api \<Rightarrow> (string \<Rightarrow> string) \<Rightarrow> ('r, 'c) process \<Rightarrow> ('r, 'c) process \<Rightarrow> bool"
  for A derive_accept_key where
  ctrl_c: "pr_main p = Serving \<Longrightarrow> process_step A derive_accept_key p (p\<lparr>pr_main := AwaitWs\<rparr>)"
| ws_joined:
    "pr_main p = AwaitWs \<Longrightarrow> pr_ws_done p \<Longrightarrow> process_step A derive_accept_key p (p\<lparr>pr_main := AwaitGrpc\<rparr>)"
| grpc_joined:
    "pr_main p = AwaitGrpc \<Longrightarrow> pr_grpc_done p \<Longrightarrow> process_step A derive_accept_key p (p\<lparr>pr_main := AwaitLoop\<rparr>)"
| loop_joined:
    "pr_main p = AwaitLoop \<Longrightarrow> \<not> pr_running p \<Longrightarrow> process_step A derive_accept_key p (p\<lparr>pr_main := Down\<rparr>)"
| accepts:
    "\<not> ac_stopped (pr_acceptor p) \<Longrightarrow>
     process_step A derive_accept_key p (p\<lparr>pr_acceptor := accept_step Accepted (pr_acceptor p),
       pr_tasks := pr_tasks p @ [(ac_next_connection_id (pr_acceptor p), TaskHandshake)]\<rparr>)"
| accept_stops:
    "\<not> ac_stopped (pr_acceptor p) \<Longrightarrow> transports_stopped p \<Longrightarrow>
     process_step A derive_accept_key p (p\<lparr>pr_acceptor := accept_step AcceptStop (pr_acceptor p)\<rparr>)"
| ws_returns:
    "ac_stopped (pr_acceptor p) \<Longrightarrow> all_finished p \<Longrightarrow>
     process_step A derive_accept_key p (p\<lparr>pr_ws_done := True\<rparr>)"
| upgraded:
    "i < length (pr_tasks p) \<Longrightarrow> pr_tasks p ! i = (k, TaskHandshake) \<Longrightarrow>
     handle_connection derive_accept_key hs = ConnUpgraded response \<Longrightarrow>
     process_step A derive_accept_key p (set_ws_task i TaskOpening p)"
| not_upgraded:
    "i < length (pr_tasks p) \<Longrightarrow> pr_tasks p ! i = (k, TaskHandshake) \<Longrightarrow>
     (hs = HandshakeStop \<Longrightarrow> transports_stopped p) \<Longrightarrow>
     \<forall>response. handle_connection derive_accept_key hs \<noteq> ConnUpgraded response \<Longrightarrow>
     process_step A derive_accept_key p (set_ws_task i TaskFinished p)"
| announces:
    "i < length (pr_tasks p) \<Longrightarrow> pr_tasks p ! i = (k, TaskOpening) \<Longrightarrow> has_room p \<Longrightarrow>
     process_step A derive_accept_key p (set_ws_task i (TaskSession \<lparr>ws_idle_deadline = start + WS_IDLE_TIMEOUT,
         ws_written = [], ws_commands = [Connected k socket_channel]\<rparr>)
       (post [Connected k socket_channel] p))"
| unannounced:
    "i < length (pr_tasks p) \<Longrightarrow> pr_tasks p ! i = (k, TaskOpening) \<Longrightarrow> \<not> pr_running p \<Longrightarrow>
     process_step A derive_accept_key p (set_ws_task i TaskFinished p)"
| session_event:
    "i < length (pr_tasks p) \<Longrightarrow> pr_tasks p ! i = (k, TaskSession s) \<Longrightarrow> ws_event_ready p ev \<Longrightarrow>
     sent_by s (snd (ws_step k ev s)) = [] \<or> has_room p \<Longrightarrow>
     process_step A derive_accept_key p (set_ws_task i (session_task (ws_step k ev s))
       (post (sent_by s (snd (ws_step k ev s))) p))"
| session_output:
    "i < length (pr_tasks p) \<Longrightarrow> pr_tasks p ! i = (k, TaskSession s) \<Longrightarrow>
     take_output k (pr_running p) (pr_driver p) = Some (out, d') \<Longrightarrow>
     process_step A derive_accept_key p (set_ws_task i (TaskWriting s out) (p\<lparr>pr_driver := d'\<rparr>))"
| session_writes:
    "i < length (pr_tasks p) \<Longrightarrow> pr_tasks p ! i = (k, TaskWriting s out) \<Longrightarrow>
     process_step A derive_accept_key p (set_ws_task i (session_task (ws_step k (WsOutput out ok) s)) p)"
| disconnects:
    "i < length (pr_tasks p) \<Longrightarrow> pr_tasks p ! i = (k, TaskClosing) \<Longrightarrow> has_room p \<Longrightarrow>
     process_step A derive_accept_key p (finish_task i (post [Disconnected k now] p))"
| disconnects_in_vain:
    "i < length (pr_tasks p) \<Longrightarrow> pr_tasks p ! i = (k, TaskClosing) \<Longrightarrow> \<not> pr_running p \<Longrightarrow>
     process_step A derive_accept_key p (finish_task i p)"
| grpc_sends:
    "\<not> browser_command c \<Longrightarrow> has_room p \<Longrightarrow> process_step A derive_accept_key p (post [c] p)"
| grpc_returns: "process_step A derive_accept_key p (p\<lparr>pr_grpc_done := True\<rparr>)"
| loop_iterates:
    "pr_running p \<Longrightarrow> wake_ready A p now w queue \<Longrightarrow> driver_step A now w (pr_driver p) = Some (d', True) \<Longrightarrow>
     process_step A derive_accept_key p (p\<lparr>pr_driver := d', pr_queue := queue\<rparr>)"
| loop_ends:
    "pr_running p \<Longrightarrow> wake_ready A p now w queue \<Longrightarrow> driver_step A now w (pr_driver p) = Some (d1, False) \<Longrightarrow>
     driver_shutdown A now queue d1 = Some d' \<Longrightarrow>
     process_step A derive_accept_key p (p\<lparr>pr_driver := d', pr_queue := [], pr_running := False\<rparr>)"

abbreviation process_steps ::
  "('r, 'c) collider_api \<Rightarrow> (string \<Rightarrow> string) \<Rightarrow> ('r, 'c) process \<Rightarrow> ('r, 'c) process \<Rightarrow> bool" where
  "process_steps A derive_accept_key \<equiv> (process_step A derive_accept_key)\<^sup>*\<^sup>*"


section \<open>Which connections are live\<close>

text \<open>
  The connections that will have a socket once the queued commands are handled. Each of them belongs to
  a task that has announced itself and has not yet reported its disconnection.
\<close>

definition live :: "('r, 'c) process \<Rightarrow> u64 set" where
  "live p = fold live_after (pr_queue p) (socket_ids (pr_driver p))"

fun holds_socket :: "'r ws_task \<Rightarrow> bool" where
  "holds_socket (TaskSession s) = True"
| "holds_socket (TaskWriting s out) = True"
| "holds_socket TaskClosing = True"
| "holds_socket _ = False"

definition held :: "u64 \<Rightarrow> ('r, 'c) process \<Rightarrow> bool" where
  "held k p \<longleftrightarrow> (\<exists>i < length (pr_tasks p). fst (pr_tasks p ! i) = k \<and> holds_socket (snd (pr_tasks p ! i)))"

lemma fold_live_mono: "S \<subseteq> T \<Longrightarrow> fold live_after cs S \<subseteq> fold live_after cs T"
  by (induction cs arbitrary: S T) (simp_all add: live_after_mono)

lemma live_post [simp]: "live (post cs p) = fold live_after cs (live p)"
  by (simp add: live_def post_def)

lemma live_set_ws_task [simp]: "live (set_ws_task i task p) = live p"
  by (simp add: live_def set_ws_task_def)

lemma keys_known: "hm_get m k = Some v \<Longrightarrow> fst ` set (hm_insert k w m) = fst ` set m"
  using map_of_SomeD [of m k v] by (force simp: set_keys_insert)

lemma take_output_sockets:
  assumes "take_output k running d = Some (out, d')"
  shows "socket_ids d' = socket_ids d"
proof (cases "hm_get (dr_sockets d) k")
  case None
  with assms show ?thesis by (auto simp: take_output_def split: option.splits list.splits)
next
  case (Some ch)
  have "d' = d \<or> (\<exists>ch'. d' = d\<lparr>dr_sockets := hm_insert k ch' (dr_sockets d)\<rparr>)"
    using assms Some by (auto simp: take_output_def split: list.splits if_splits)
  with keys_known [OF Some] show ?thesis by (elim disjE exE) simp_all
qed

lemma live_drop_receiver [simp]: "live (drop_receiver k p) = live p"
proof -
  have "live_after (drop_in_command k c) = live_after c" for c :: "'a DriverCommand"
    by (cases c) (simp_all add: fun_eq_iff)
  then have "fold live_after (map (drop_in_command k) cs) S = fold live_after cs S"
    for cs :: "'a DriverCommand list" and S
    by (simp add: fold_map comp_def)
  then show ?thesis
    by (simp add: live_def drop_receiver_def Let_def keys_known split: option.split)
qed

lemma process_fields [simp]:
  "pr_main (set_ws_task i task p) = pr_main p" "pr_running (set_ws_task i task p) = pr_running p"
  "pr_ws_done (set_ws_task i task p) = pr_ws_done p" "pr_acceptor (set_ws_task i task p) = pr_acceptor p"
  "pr_driver (set_ws_task i task p) = pr_driver p" "pr_grpc_done (set_ws_task i task p) = pr_grpc_done p"
  "pr_queue (set_ws_task i task p) = pr_queue p"
  "pr_tasks (set_ws_task i task p) = (pr_tasks p)[i := (fst (pr_tasks p ! i), task)]"
  "pr_main (post cs p) = pr_main p" "pr_running (post cs p) = pr_running p"
  "pr_ws_done (post cs p) = pr_ws_done p" "pr_acceptor (post cs p) = pr_acceptor p"
  "pr_driver (post cs p) = pr_driver p" "pr_grpc_done (post cs p) = pr_grpc_done p"
  "pr_tasks (post cs p) = pr_tasks p" "pr_queue (post cs p) = pr_queue p @ cs"
  "pr_main (drop_receiver k p) = pr_main p" "pr_running (drop_receiver k p) = pr_running p"
  "pr_ws_done (drop_receiver k p) = pr_ws_done p" "pr_acceptor (drop_receiver k p) = pr_acceptor p"
  "pr_tasks (drop_receiver k p) = pr_tasks p" "pr_grpc_done (drop_receiver k p) = pr_grpc_done p"
  "pr_queue (drop_receiver k p) = map (drop_in_command k) (pr_queue p)"
  by (simp_all add: set_ws_task_def post_def drop_receiver_def Let_def)

lemma held_set_ws_task:
  assumes "held k p" and "i < length (pr_tasks p)"
    and "fst (pr_tasks p ! i) = k \<Longrightarrow> holds_socket (snd (pr_tasks p ! i)) \<Longrightarrow> holds_socket task"
  shows "held k (set_ws_task i task p)"
  using assms unfolding held_def by (auto simp: nth_list_update)

lemma held_own: "i < length (pr_tasks p) \<Longrightarrow> holds_socket task \<Longrightarrow> held (fst (pr_tasks p ! i)) (set_ws_task i task p)"
  unfolding held_def by (auto simp: nth_list_update)

lemma held_frame [simp]: "held k (post cs p) = held k p" "held k (drop_receiver k' p) = held k p"
  by (simp_all add: held_def)

lemma sent_by_ws_step:
  "sent_by s (snd (ws_step k ev s)) = [] \<or> (\<exists>t now. sent_by s (snd (ws_step k ev s)) = [Text k t now])"
  by (cases "(k, ev, s)" rule: ws_step.cases) (auto simp: sent_by_def)

lemma holds_session_task [simp]: "holds_socket (session_task gs)"
  by (simp add: session_task_def)


section \<open>The invariant of the process\<close>

definition process_inv :: "('r, 'c) process \<Rightarrow> bool" where
  "process_inv p \<longleftrightarrow>
     (pr_running p \<longrightarrow> (\<forall>k \<in> live p. held k p)) \<and>
     (\<not> pr_running p \<longrightarrow> dr_sockets (pr_driver p) = [] \<and> pr_ws_done p) \<and>
     (pr_main p = AwaitGrpc \<or> loop_stopped p \<longrightarrow> pr_ws_done p) \<and>
     (pr_ws_done p \<longrightarrow> ac_stopped (pr_acceptor p) \<and> all_finished p) \<and>
     (pr_main p = Down \<longrightarrow> \<not> pr_running p)"

lemma wake_ready_queue: "wake_ready A p now w queue \<Longrightarrow> pr_queue p = wake_commands w @ queue"
  by (cases "(A, p, now, w, queue)" rule: wake_ready.cases) auto

lemma ws_done_dead:
  assumes "process_inv p" and "pr_running p" and "pr_ws_done p"
  shows "live p = {}"
  using assms by (fastforce simp: process_inv_def held_def all_finished_def)

lemma step_live:
  assumes "driver_step A now w d = Some (d', b)"
  shows "socket_ids d' \<subseteq> fold live_after (wake_commands w) (socket_ids d)"
  using sockets.step [where cs = "[]" and S = "socket_ids d", OF _ assms] by simp

lemma shutdown_live:
  assumes "driver_shutdown A now queue d = Some d'"
  shows "socket_ids d' \<subseteq> fold live_after queue (socket_ids d)"
  using sockets.shutdown [where cs = "[]" and S = "socket_ids d", OF _ assms] by simp

text \<open>A step that replaces the task of a connection that holds no socket, and nothing else, keeps the invariant.\<close>

lemma process_inv_task:
  assumes "process_inv p" and "i < length (pr_tasks p)" and "snd (pr_tasks p ! i) \<noteq> TaskFinished"
    and "live p' \<subseteq> live p" and "pr_running p' = pr_running p" and "pr_main p' = pr_main p"
    and "pr_ws_done p' = pr_ws_done p" and "pr_acceptor p' = pr_acceptor p"
    and "pr_tasks p' = pr_tasks (set_ws_task i task p)"
    and "dr_sockets (pr_driver p) = [] \<Longrightarrow> dr_sockets (pr_driver p') = []"
    and "fst (pr_tasks p ! i) \<in> live p' \<Longrightarrow> holds_socket (snd (pr_tasks p ! i)) \<Longrightarrow> holds_socket task"
  shows "process_inv p'"
proof -
  have "\<not> pr_ws_done p"
    using assms(1-3) by (auto simp: process_inv_def all_finished_def)
  moreover have "held k p'" if "k \<in> live p'" "pr_running p" for k
  proof -
    have "held k p" using that assms(1,4) by (auto simp: process_inv_def)
    then have "held k (set_ws_task i task p)"
      by (rule held_set_ws_task [OF _ assms(2)]) (use that assms(11) in auto)
    then show ?thesis using assms(9) by (simp add: held_def)
  qed
  ultimately show ?thesis
    using assms(1,5-8,10) by (auto simp: process_inv_def loop_stopped_def)
qed


lemma loop_live:
  assumes "wake_ready A p now w queue" and "driver_step A now w (pr_driver p) = Some (d', b)"
  shows "fold live_after queue (socket_ids d') \<subseteq> live p"
  using fold_live_mono [OF step_live [OF assms(2)], of queue] wake_ready_queue [OF assms(1)]
  by (simp add: live_def)

lemma loop_ends_last:
  assumes "timeouts_succeed A" and "process_inv p" and "pr_running p" and "wake_ready A p now w queue"
    and "driver_step A now w (pr_driver p) = Some (d1, False)"
  shows "pr_ws_done p \<and> live p = {}"
proof -
  have "pr_ws_done p"
  proof (cases "(A, p, now, w, queue)" rule: wake_ready.cases)
    case (2 A' p' now' queue')
    have "fst (handle_timeout A (dr_collider (pr_driver p)) now)"
      using assms(1) by (simp add: timeouts_succeed_def)
    with 2 assms(5) show ?thesis by (auto split: prod.splits if_splits)
  qed (use assms(2,4,5) in \<open>auto simp: process_inv_def\<close>)
  with assms ws_done_dead show ?thesis by blast
qed

lemma process_inv_announces:
  assumes "process_inv p" and "i < length (pr_tasks p)" and "pr_tasks p ! i = (k, TaskOpening)"
    and "p' = set_ws_task i (TaskSession s) (post [Connected k socket_channel] p)"
  shows "process_inv p'"
proof -
  have "\<not> pr_ws_done p" using assms(1-3) by (auto simp: process_inv_def all_finished_def)
  moreover have "held k' p'" if "k' \<in> live p'" "pr_running p" for k'
  proof (cases "k' = k")
    case True
    with assms(2-4) show ?thesis using held_own [of i "post [Connected k socket_channel] p"] by simp
  next
    case False
    with that assms(1,4) have "held k' p" by (auto simp: process_inv_def)
    then show ?thesis unfolding assms(4) by (intro held_set_ws_task) (use assms(2,3) in auto)
  qed
  ultimately show ?thesis using assms by (auto simp: process_inv_def loop_stopped_def)
qed

lemma process_inv_loop_ends:
  assumes "timeouts_succeed A" and "process_inv p" and "pr_running p" and "wake_ready A p now w queue"
    and "driver_step A now w (pr_driver p) = Some (d1, False)" and "driver_shutdown A now queue d1 = Some d'"
  shows "process_inv (p\<lparr>pr_driver := d', pr_queue := [], pr_running := False\<rparr>)"
proof -
  have "socket_ids d' \<subseteq> live p"
    using shutdown_live [OF assms(6)] loop_live [OF assms(4,5)] by (rule order_trans)
  then have "dr_sockets d' = []" "pr_ws_done p" using loop_ends_last [OF assms(1-5)] by simp_all
  with assms(2) show ?thesis by (auto simp: process_inv_def loop_stopped_def all_finished_def)
qed

lemma process_inv_step:
  assumes "timeouts_succeed A" and "process_step A derive_accept_key p p'" and "process_inv p"
  shows "process_inv p'"
  using assms(2)
proof (cases rule: process_step.cases)
  case accepts
  have "held k p'" if "held k p" for k using that accepts by (auto simp: held_def nth_append)
  with assms(3) accepts show ?thesis by (auto simp: process_inv_def live_def loop_stopped_def)
next
  case (upgraded i k hs response)
  then show ?thesis by (intro process_inv_task [OF assms(3) upgraded(2)]) auto
next
  case (not_upgraded i k hs)
  then show ?thesis by (intro process_inv_task [OF assms(3) not_upgraded(2)]) auto
next
  case (announces i k start)
  show ?thesis by (rule process_inv_announces [OF assms(3) announces(2,3,1)])
next
  case (unannounced i k)
  then show ?thesis by (intro process_inv_task [OF assms(3) unannounced(2)]) auto
next
  case (session_event i k s ev)
  have "live p' = live p"
    using sent_by_ws_step [of s k ev] session_event(1) by auto
  with session_event show ?thesis by (intro process_inv_task [OF assms(3) session_event(2)]) auto
next
  case (session_output i k s out d')
  have "live p' = live p" using take_output_sockets [OF session_output(4)] session_output(1) by (simp add: live_def)
  moreover have "dr_sockets d' = []" if "dr_sockets (pr_driver p) = []"
    using take_output_sockets [OF session_output(4)] that by simp
  ultimately show ?thesis using session_output by (intro process_inv_task [OF assms(3) session_output(2)]) auto
next
  case (session_writes i k s out ok)
  then show ?thesis by (intro process_inv_task [OF assms(3) session_writes(2)]) auto
next
  case (disconnects i k now)
  have "live p' = live p - {k}" using disconnects(1) by (simp add: finish_task_def)
  with disconnects show ?thesis
    by (intro process_inv_task [OF assms(3) disconnects(2)])
      (auto simp: finish_task_def drop_receiver_def Let_def split: option.split)
next
  case (disconnects_in_vain i k)
  have "live p' = live p" using disconnects_in_vain(1) by (simp add: finish_task_def)
  with disconnects_in_vain assms(3) show ?thesis
    by (auto simp: process_inv_def all_finished_def loop_stopped_def finish_task_def drop_receiver_def Let_def)
next
  case (grpc_sends c)
  have "live p' = live p" using grpc_sends by (cases c) simp_all
  with assms(3) grpc_sends show ?thesis by (auto simp: process_inv_def loop_stopped_def all_finished_def)
next
  case (loop_iterates now w queue d')
  have "live p' \<subseteq> live p" using loop_live [OF loop_iterates(3,4)] loop_iterates(1) by (simp add: live_def)
  with assms(3) loop_iterates show ?thesis
    by (auto simp: process_inv_def loop_stopped_def all_finished_def held_def)
next
  case (loop_ends now w queue d1 d')
  show ?thesis unfolding loop_ends(1) by (rule process_inv_loop_ends [OF assms(1,3) loop_ends(2-5)])
qed (use assms(3) in \<open>auto simp: process_inv_def live_def loop_stopped_def all_finished_def held_def\<close>)


interpretation ordered: step_invariant "process_step A derive_accept_key"
  "\<lambda>p. timeouts_succeed A \<and> process_inv p" for A derive_accept_key
  by unfold_locales (use process_inv_step in blast)

lemma process_inv_reachable:
  assumes "timeouts_succeed A" and "process_steps A derive_accept_key (new_process collider) p"
  shows "process_inv p"
  using ordered.reachable [OF assms(2)] assms(1)
  by (simp add: process_inv_def new_process_def live_def new_driver_def loop_stopped_def)

section \<open>The process stops in order\<close>

text \<open>\<open>finishes i p p'\<close>: the task of connection \<open>i\<close> can finish, and nothing else changes but queue and driver.\<close>

definition finishes ::
  "('r, 'c) collider_api \<Rightarrow> (string \<Rightarrow> string) \<Rightarrow> nat \<Rightarrow> ('r, 'c) process \<Rightarrow> ('r, 'c) process \<Rightarrow> bool" where
  "finishes A derive_accept_key i p p' \<longleftrightarrow> process_steps A derive_accept_key p p' \<and> pr_main p' = pr_main p \<and>
     pr_acceptor p' = pr_acceptor p \<and> pr_tasks p' = (pr_tasks p)[i := (fst (pr_tasks p ! i), TaskFinished)]"

lemma queue_drains:
  assumes "outputs_finite A outs responses" and "pr_running p"
  shows "\<exists>d'. process_steps A derive_accept_key p (p\<lparr>pr_driver := d', pr_queue := []\<rparr>)"
  using assms(2)
proof (induction "pr_queue p" arbitrary: p)
  case Nil
  then have "p\<lparr>pr_driver := pr_driver p, pr_queue := []\<rparr> = p" by simp
  then show ?case by (metis rtranclp.rtrancl_refl)
next
  case (Cons c queue)
  obtain d1 where "drain_all A 0 (handle_command A c (pr_driver p)) = Some d1"
    using drain_all_returns [OF assms(1)] by blast
  then have "driver_step A 0 (WakeCommand (Some c)) (pr_driver p) = Some (d1, True)" by simp
  moreover have "wake_ready A p 0 (WakeCommand (Some c)) queue" using Cons(2) by simp
  ultimately have "process_step A derive_accept_key p (p\<lparr>pr_driver := d1, pr_queue := queue\<rparr>)"
    using Cons.prems by (intro process_step.loop_iterates)
  moreover obtain d' where "process_steps A derive_accept_key (p\<lparr>pr_driver := d1, pr_queue := queue\<rparr>)
      (p\<lparr>pr_driver := d1, pr_queue := queue, pr_driver := d', pr_queue := []\<rparr>)"
    using Cons(1) [of "p\<lparr>pr_driver := d1, pr_queue := queue\<rparr>"] Cons.prems by auto
  ultimately show ?case by (intro exI [of _ d']) (simp add: converse_rtranclp_into_rtranclp)
qed

lemma closing_finishes:
  assumes "outputs_finite A outs responses" and "i < length (pr_tasks p)" and "pr_tasks p ! i = (k, TaskClosing)"
  shows "\<exists>p'. finishes A derive_accept_key i p p'"
proof (cases "pr_running p")
  case True
  obtain d' where d': "process_steps A derive_accept_key p (p\<lparr>pr_driver := d', pr_queue := []\<rparr>)"
    using queue_drains [OF assms(1) True] by blast
  let ?p1 = "p\<lparr>pr_driver := d', pr_queue := []\<rparr>"
  have "process_step A derive_accept_key ?p1 (finish_task i (post [Disconnected k 0] ?p1))"
    by (rule process_step.disconnects) (use assms True in \<open>simp_all add: has_room_def COMMAND_CAPACITY_def\<close>)
  with d' show ?thesis
    by (intro exI [of _ "finish_task i (post [Disconnected k 0] ?p1)"])
      (auto simp: finishes_def finish_task_def)
next
  case False
  from process_step.disconnects_in_vain [OF assms(2,3) False, of A derive_accept_key] show ?thesis
    by (intro exI [of _ "finish_task i p"]) (auto simp: finishes_def finish_task_def)
qed

lemma finishes_after:
  assumes "process_steps A derive_accept_key p q" and "pr_main q = pr_main p" and "pr_acceptor q = pr_acceptor p"
    and "i < length (pr_tasks p)" and "pr_tasks q = pr_tasks (set_ws_task i task p)"
    and "\<exists>p'. finishes A derive_accept_key i q p'"
  shows "\<exists>p'. finishes A derive_accept_key i p p'"
proof -
  from assms(6) obtain p' where "finishes A derive_accept_key i q p'" by blast
  with assms(1-5) have "finishes A derive_accept_key i p p'"
    by (auto simp: finishes_def intro: rtranclp_trans)
  then show ?thesis by blast
qed

lemma session_finishes:
  assumes "outputs_finite A outs responses" and "transports_stopped p" and "i < length (pr_tasks p)"
    and "pr_tasks p ! i = (k, TaskSession s)"
  shows "\<exists>p'. finishes A derive_accept_key i p p'"
proof -
  let ?q = "set_ws_task i TaskClosing (post [] p)"
  have "process_step A derive_accept_key p ?q"
    using process_step.session_event [OF assms(3,4), of WsStop A derive_accept_key] assms(2)
    by (simp add: sent_by_def session_task_def)
  then have "process_steps A derive_accept_key p ?q" by simp
  moreover have "\<exists>p'. finishes A derive_accept_key i ?q p'"
    by (rule closing_finishes [OF assms(1)]) (use assms(3,4) in simp_all)
  ultimately show ?thesis using assms(3) by (intro finishes_after [of _ _ p ?q i TaskClosing]) simp_all
qed

lemma writing_finishes:
  assumes "outputs_finite A outs responses" and "i < length (pr_tasks p)"
    and "pr_tasks p ! i = (k, TaskWriting s out)"
  shows "\<exists>p'. finishes A derive_accept_key i p p'"
proof -
  have "session_task (ws_step k (WsOutput out False) s) = TaskClosing"
    by (cases "(k, WsOutput out False, s)" rule: ws_step.cases) (simp_all add: session_task_def)
  then have "process_steps A derive_accept_key p (set_ws_task i TaskClosing p)"
    using process_step.session_writes [OF assms(2,3), of A derive_accept_key False] by simp
  moreover have "\<exists>p'. finishes A derive_accept_key i (set_ws_task i TaskClosing p) p'"
    by (rule closing_finishes [OF assms(1)]) (use assms(2,3) in simp_all)
  ultimately show ?thesis using assms(2) by (intro finishes_after [of _ _ p _ i TaskClosing]) simp_all
qed

lemma opening_finishes:
  assumes "outputs_finite A outs responses" and "transports_stopped p" and "i < length (pr_tasks p)"
    and "pr_tasks p ! i = (k, TaskOpening)"
  shows "\<exists>p'. finishes A derive_accept_key i p p'"
proof (cases "pr_running p")
  case False
  from process_step.unannounced [OF assms(3,4) False] show ?thesis
    by (intro exI [of _ "set_ws_task i TaskFinished p"]) (auto simp: finishes_def)
next
  case True
  obtain d' where d': "process_steps A derive_accept_key p (p\<lparr>pr_driver := d', pr_queue := []\<rparr>)"
    using queue_drains [OF assms(1) True] by blast
  let ?p1 = "p\<lparr>pr_driver := d', pr_queue := []\<rparr>"
  let ?s = "\<lparr>ws_idle_deadline = 0 + WS_IDLE_TIMEOUT, ws_written = [],
    ws_commands = [Connected k socket_channel]\<rparr>"
  let ?p2 = "set_ws_task i (TaskSession ?s) (post [Connected k socket_channel] ?p1)"
  have "process_step A derive_accept_key ?p1 ?p2"
    by (rule process_step.announces)
      (use assms True in \<open>simp_all add: has_room_def COMMAND_CAPACITY_def\<close>)
  with d' have "process_steps A derive_accept_key p ?p2" by simp
  moreover have "\<exists>p'. finishes A derive_accept_key i ?p2 p'"
    by (rule session_finishes [OF assms(1)]) (use assms(2-4) in \<open>simp_all add: transports_stopped_def\<close>)
  ultimately show ?thesis using assms(3) by (intro finishes_after [of _ _ p ?p2 i "TaskSession ?s"]) simp_all
qed

lemma task_finishes:
  assumes "outputs_finite A outs responses" and "transports_stopped p" and "i < length (pr_tasks p)"
  shows "\<exists>p'. finishes A derive_accept_key i p p'"
proof -
  obtain k task where t: "pr_tasks p ! i = (k, task)" by fastforce
  show ?thesis
  proof (cases task)
    case TaskHandshake
    have "process_step A derive_accept_key p (set_ws_task i TaskFinished p)"
      by (rule process_step.not_upgraded [where hs = HandshakeStop]) (use assms t TaskHandshake in simp_all)
    then show ?thesis by (intro exI [of _ "set_ws_task i TaskFinished p"]) (auto simp: finishes_def)
  next
    case TaskOpening
    with assms t show ?thesis by (intro opening_finishes) simp_all
  next
    case (TaskSession s)
    with assms t show ?thesis by (intro session_finishes) simp_all
  next
    case (TaskWriting s out)
    with assms t show ?thesis by (intro writing_finishes) simp_all
  next
    case TaskClosing
    with assms t show ?thesis by (intro closing_finishes) simp_all
  next
    case TaskFinished
    with t have "finishes A derive_accept_key i p p" using list_update_id [of "pr_tasks p" i] by (simp add: finishes_def)
    then show ?thesis by blast
  qed
qed


lemma tasks_finish:
  assumes "outputs_finite A outs responses" and "transports_stopped p" and "n \<le> length (pr_tasks p)"
  shows "\<exists>p'. process_steps A derive_accept_key p p' \<and> pr_main p' = pr_main p \<and> pr_acceptor p' = pr_acceptor p \<and>
    length (pr_tasks p') = length (pr_tasks p) \<and> (\<forall>i < n. snd (pr_tasks p' ! i) = TaskFinished)"
  using assms(3)
proof (induction n)
  case (Suc n)
  then obtain p1 where p1: "process_steps A derive_accept_key p p1" "pr_main p1 = pr_main p"
    "pr_acceptor p1 = pr_acceptor p" "length (pr_tasks p1) = length (pr_tasks p)"
    "\<forall>i < n. snd (pr_tasks p1 ! i) = TaskFinished" by auto
  have "transports_stopped p1" using assms(2) p1(2) by (simp add: transports_stopped_def)
  from task_finishes [OF assms(1) this, of n derive_accept_key] obtain p2
    where "finishes A derive_accept_key n p1 p2" using p1(4) Suc.prems by auto
  with p1 Suc.prems show ?case
    by (intro exI [of _ p2]) (auto simp: finishes_def nth_list_update less_Suc_eq intro: rtranclp_trans)
qed blast

lemma accept_loop_returns:
  assumes "outputs_finite A outs responses" and "pr_main p = AwaitWs"
  shows "\<exists>p'. process_steps A derive_accept_key p p' \<and> pr_main p' = AwaitGrpc"
proof -
  have "\<exists>p1. process_steps A derive_accept_key p p1 \<and> pr_main p1 = AwaitWs \<and> ac_stopped (pr_acceptor p1)"
  proof (cases "ac_stopped (pr_acceptor p)")
    case False
    with assms(2) have "process_step A derive_accept_key p
        (p\<lparr>pr_acceptor := accept_step AcceptStop (pr_acceptor p)\<rparr>)"
      by (intro process_step.accept_stops) (simp_all add: transports_stopped_def)
    with assms(2) show ?thesis
      by (intro exI [of _ "p\<lparr>pr_acceptor := accept_step AcceptStop (pr_acceptor p)\<rparr>"]) auto
  qed (use assms(2) in blast)
  then obtain p1 where p1: "process_steps A derive_accept_key p p1" "pr_main p1 = AwaitWs"
    "ac_stopped (pr_acceptor p1)" by blast
  have "transports_stopped p1" using p1(2) by (simp add: transports_stopped_def)
  from tasks_finish [OF assms(1) this order_refl, of derive_accept_key] obtain p2 where
    p2: "process_steps A derive_accept_key p1 p2" "pr_main p2 = AwaitWs" "ac_stopped (pr_acceptor p2)"
    "all_finished p2" using p1 by (auto simp: all_finished_def)
  have "process_step A derive_accept_key p2 (p2\<lparr>pr_ws_done := True\<rparr>)"
    using p2(3,4) by (rule process_step.ws_returns)
  moreover have "process_step A derive_accept_key (p2\<lparr>pr_ws_done := True\<rparr>)
      (p2\<lparr>pr_ws_done := True, pr_main := AwaitGrpc\<rparr>)"
    using process_step.ws_joined [of "p2\<lparr>pr_ws_done := True\<rparr>"] p2(2) by simp
  ultimately have "process_steps A derive_accept_key p2 (p2\<lparr>pr_ws_done := True, pr_main := AwaitGrpc\<rparr>)"
    by (meson converse_rtranclp_into_rtranclp r_into_rtranclp)
  with p1(1) p2(1) show ?thesis
    by (intro exI [of _ "p2\<lparr>pr_ws_done := True, pr_main := AwaitGrpc\<rparr>"]) (auto intro: rtranclp_trans)
qed

lemma loop_returns:
  assumes "outputs_finite A outs responses" and "pr_main p = AwaitLoop"
  shows "\<exists>p'. process_steps A derive_accept_key p p' \<and> pr_main p' = Down"
proof (cases "pr_running p")
  case False
  with assms(2) have "process_step A derive_accept_key p (p\<lparr>pr_main := Down\<rparr>)"
    by (intro process_step.loop_joined)
  then show ?thesis by (intro exI [of _ "p\<lparr>pr_main := Down\<rparr>"]) auto
next
  case True
  obtain d' where "driver_shutdown A 0 (pr_queue p) (pr_driver p) = Some d'"
    using drain_all_returns [OF assms(1)] by (auto simp: driver_shutdown_def Let_def)
  with True assms(2) have "process_step A derive_accept_key p (p\<lparr>pr_driver := d', pr_queue := [], pr_running := False\<rparr>)"
    by (intro process_step.loop_ends [where w = WakeStop and now = 0 and queue = "pr_queue p"])
      (simp_all add: loop_stopped_def)
  moreover have "process_step A derive_accept_key (p\<lparr>pr_driver := d', pr_queue := [], pr_running := False\<rparr>)
      (p\<lparr>pr_driver := d', pr_queue := [], pr_running := False, pr_main := Down\<rparr>)"
    using process_step.loop_joined [of "p\<lparr>pr_driver := d', pr_queue := [], pr_running := False\<rparr>"] assms(2) by simp
  ultimately have "process_steps A derive_accept_key p
      (p\<lparr>pr_driver := d', pr_queue := [], pr_running := False, pr_main := Down\<rparr>)"
    by (meson converse_rtranclp_into_rtranclp r_into_rtranclp)
  then show ?thesis
    by (intro exI [of _ "p\<lparr>pr_driver := d', pr_queue := [], pr_running := False, pr_main := Down\<rparr>"]) simp
qed

lemma grpc_server_returns:
  assumes "pr_main p = AwaitGrpc"
  shows "\<exists>p'. process_steps A derive_accept_key p p' \<and> pr_main p' = AwaitLoop"
proof -
  have "process_step A derive_accept_key p (p\<lparr>pr_grpc_done := True\<rparr>)" by (rule process_step.grpc_returns)
  moreover have "process_step A derive_accept_key (p\<lparr>pr_grpc_done := True\<rparr>)
      (p\<lparr>pr_grpc_done := True, pr_main := AwaitLoop\<rparr>)"
    using process_step.grpc_joined [of "p\<lparr>pr_grpc_done := True\<rparr>"] assms by simp
  ultimately have "process_steps A derive_accept_key p (p\<lparr>pr_grpc_done := True, pr_main := AwaitLoop\<rparr>)"
    by (meson converse_rtranclp_into_rtranclp r_into_rtranclp)
  then show ?thesis by (intro exI [of _ "p\<lparr>pr_grpc_done := True, pr_main := AwaitLoop\<rparr>"]) simp
qed

lemma goes_down:
  assumes "outputs_finite A outs responses" and "pr_main p \<noteq> Serving"
  shows "\<exists>p'. process_steps A derive_accept_key p p' \<and> pr_main p' = Down"
proof (cases "pr_main p")
  case AwaitWs
  with accept_loop_returns [OF assms(1)] grpc_server_returns loop_returns [OF assms(1)] show ?thesis
    by (meson rtranclp_trans)
next
  case AwaitGrpc
  with grpc_server_returns loop_returns [OF assms(1)] show ?thesis by (meson rtranclp_trans)
next
  case AwaitLoop
  then show ?thesis by (rule loop_returns [OF assms(1)])
qed (use assms(2) in blast)+

text \<open>
  C15. The event loop is the last to go. However the tasks of the signaling process interleave, while its
  state machine's timeouts succeed: the loop ends only after the accept loop and every browser session
  have finished, so no session ever finds it gone; when it has ended it holds no browser socket; and
  when \<open>main\<close> returns, all of that has happened.
\<close>
theorem event_loop_ends_last:
  assumes "timeouts_succeed A" and "process_steps A derive_accept_key (new_process collider) p"
  shows "(\<not> pr_running p \<longrightarrow> pr_ws_done p \<and> all_finished p \<and> dr_sockets (pr_driver p) = []) \<and>
    (pr_main p = Down \<longrightarrow> \<not> pr_running p)"
  using process_inv_reachable [OF assms] by (auto simp: process_inv_def)

theorem event_loop_ends_last_witness:
  "\<exists>p. process_steps sample_collider_api id (new_process ([], [])) p \<and> pr_main p = Down \<and>
     \<not> pr_running p \<and> dr_sockets (pr_driver p) = []"
proof -
  let ?p0 = "(new_process ([], [])) :: (nat, sample_collider) process"
  have step: "process_step sample_collider_api id ?p0 (?p0\<lparr>pr_main := AwaitWs\<rparr>)"
    by (rule process_step.ctrl_c) (simp add: new_process_def)
  obtain p where p: "process_steps sample_collider_api id (?p0\<lparr>pr_main := AwaitWs\<rparr>) p" "pr_main p = Down"
    using goes_down [OF sample_outputs_finite, of "?p0\<lparr>pr_main := AwaitWs\<rparr>" id] by auto
  from step p(1) have "process_steps sample_collider_api id ?p0 p" by (rule converse_rtranclp_into_rtranclp)
  from event_loop_ends_last [OF sample_timeouts_succeed this] this p(2) show ?thesis by blast
qed

text \<open>
  A browser that does not read can hold up the stop: as long as the write of its session does not
  complete, \<open>main\<close> gets no further than waiting for the accept loop, and no other step, the signal to stop
  included, moves the session on. (The timeout of the close frame bounds only the write that follows the
  signal.)
\<close>

lemma stalled_browser_blocks_stop:
  assumes "timeouts_succeed A" and "process_steps A derive_accept_key (new_process collider) p"
    and "i < length (pr_tasks p)" and "pr_tasks p ! i = (k, TaskWriting s out)"
  shows "pr_main p = Serving \<or> pr_main p = AwaitWs"
    and "process_step A derive_accept_key p p' \<Longrightarrow> pr_tasks p' ! i = (k, TaskWriting s out) \<or>
      (\<exists>ok. p' = set_ws_task i (session_task (ws_step k (WsOutput out ok) s)) p)"
proof -
  have "\<not> pr_ws_done p" "pr_running p"
    using process_inv_reachable [OF assms(1,2)] assms(3,4) by (auto simp: process_inv_def all_finished_def)
  then show "pr_main p = Serving \<or> pr_main p = AwaitWs"
    using process_inv_reachable [OF assms(1,2)] by (cases "pr_main p") (auto simp: process_inv_def loop_stopped_def)
  show "pr_tasks p' ! i = (k, TaskWriting s out) \<or>
      (\<exists>ok. p' = set_ws_task i (session_task (ws_step k (WsOutput out ok) s)) p)"
    if "process_step A derive_accept_key p p'"
    using that assms(3,4)
    by cases (auto simp: finish_task_def nth_list_update nth_append drop_receiver_def Let_def split: if_splits)
qed



end
