(* ===== verification/Authority_Calls.thy ===== *)
theory Authority_Calls
  imports Execute Signaling_Server Transitions
begin

text \<open>
  The authority calls of the signaling service together with its event loop: concurrent calls of
  \<open>execute\<close> (\<open>src/src/grpc_server.rs\<close>) send their operations over the bounded command channel, the loop
  (\<open>src/src/signaling_server.rs\<close>) hands them to the state machine and answers each on the one-shot sender
  that came with it. The sender of a call has the call's number. Other commands, deadlines, time-outs
  and cancellations fall anywhere between the steps.
\<close>

section \<open>Calls and loop\<close>

text \<open>\<open>au_handled\<close> records the commands the loop has taken, \<open>au_draws\<close> how many identifiers were drawn.\<close>

record ('r, 'c) authority_system =
  au_service :: "'r service"
  au_queue :: "'r DriverCommand list"
  au_running :: bool
  au_driver :: "('r, 'c) driver"
  au_handled :: "'r DriverCommand list"
  au_draws :: nat

definition new_authority_system :: "'c \<Rightarrow> ('r, 'c) authority_system" where
  "new_authority_system collider = \<lparr>au_service = new_service, au_queue = [], au_running = True,
     au_driver = new_driver collider, au_handled = [], au_draws = 0\<rparr>"

text \<open>The steps of a call that do not touch the channels.\<close>

fun internal_label :: "'r exec_label \<Rightarrow> bool" where
  "internal_label (Draw i) = False"
| "internal_label (Issue i channel_open) = False"
| "internal_label (Respond i reply) = False"
| "internal_label _ = True"

fun authority_command :: "'r DriverCommand \<Rightarrow> bool" where
  "authority_command (Authority q op sender) = True"
| "authority_command _ = False"

text \<open>A one-shot sender is gone when it is neither under way, nor pending, nor used.\<close>

definition sender_gone :: "nat \<Rightarrow> ('r, 'c) authority_system \<Rightarrow> bool" where
  "sender_gone i y \<longleftrightarrow> i \<notin> fst ` set (senders (au_queue y)) \<and>
     (\<forall>q. hm_get (dr_pending (au_driver y)) q \<noteq> Some i \<or> \<not> au_running y) \<and>
     i \<notin> fst ` set (dr_answers (au_driver y))"

inductive authority_step ::
  "('r hash_item list \<Rightarrow> u64) \<Rightarrow> ('r, 'c) collider_api \<Rightarrow> ('r, 'c) authority_system \<Rightarrow>
   ('r, 'c) authority_system \<Rightarrow> bool" for H A where
  call_moves:
    "internal_label l \<Longrightarrow> exec_step H l (au_service y) = Some s' \<Longrightarrow>
     authority_step H A y (y\<lparr>au_service := s'\<rparr>)"
| call_draws:
    "exec_step H (Draw i) (au_service y) = Some s' \<Longrightarrow>
     authority_step H A y (y\<lparr>au_service := s', au_draws := Suc (au_draws y)\<rparr>)"
| call_issues:
    "au_running y \<Longrightarrow> length (au_queue y) < COMMAND_CAPACITY \<Longrightarrow>
     exec_step H (Issue i True) (au_service y) = Some s' \<Longrightarrow>
     sv_calls (au_service y) i = Some c \<Longrightarrow> cl_pc c = Drawn q \<Longrightarrow>
     authority_step H A y (y\<lparr>au_service := s', au_queue := au_queue y @ [Authority q (cl_operation c) i]\<rparr>)"
| call_finds_loop_gone:
    "\<not> au_running y \<Longrightarrow> exec_step H (Issue i False) (au_service y) = Some s' \<Longrightarrow>
     authority_step H A y (y\<lparr>au_service := s'\<rparr>)"
| call_answered:
    "(i, q, r) \<in> set (dr_answers (au_driver y)) \<Longrightarrow>
     exec_step H (Respond i (Reply q r)) (au_service y) = Some s' \<Longrightarrow>
     authority_step H A y (y\<lparr>au_service := s'\<rparr>)"
| call_times_out:
    "exec_step H (Respond i ReplyTimeout) (au_service y) = Some s' \<Longrightarrow>
     authority_step H A y (y\<lparr>au_service := s'\<rparr>)"
| call_unanswered:
    "sender_gone i y \<Longrightarrow> exec_step H (Respond i ReplyDropped) (au_service y) = Some s' \<Longrightarrow>
     authority_step H A y (y\<lparr>au_service := s'\<rparr>)"
| others_send:
    "au_running y \<Longrightarrow> length (au_queue y) < COMMAND_CAPACITY \<Longrightarrow> \<not> authority_command cmd \<Longrightarrow>
     authority_step H A y (y\<lparr>au_queue := au_queue y @ [cmd]\<rparr>)"
| loop_iterates:
    "au_running y \<Longrightarrow> au_queue y = wake_commands w @ queue \<Longrightarrow>
     driver_step A now w (au_driver y) = Some (d', True) \<Longrightarrow>
     authority_step H A y (y\<lparr>au_queue := queue, au_driver := d', au_handled := au_handled y @ wake_commands w\<rparr>)"
| loop_ends:
    "au_running y \<Longrightarrow> au_queue y = wake_commands w @ queue \<Longrightarrow>
     driver_step A now w (au_driver y) = Some (d1, False) \<Longrightarrow> driver_shutdown A now queue d1 = Some d' \<Longrightarrow>
     authority_step H A y (y\<lparr>au_queue := [], au_running := False, au_driver := d',
       au_handled := au_handled y @ wake_commands w @ queue\<rparr>)"

abbreviation authority_steps ::
  "('r hash_item list \<Rightarrow> u64) \<Rightarrow> ('r, 'c) collider_api \<Rightarrow> ('r, 'c) authority_system \<Rightarrow>
   ('r, 'c) authority_system \<Rightarrow> bool" where
  "authority_steps H A \<equiv> (authority_step H A)\<^sup>*\<^sup>*"

section \<open>A call that has sent its operation\<close>

fun sent_pc :: "u64 \<Rightarrow> call_pc \<Rightarrow> bool" where
  "sent_pc q (Sent q') = (q' = q)"
| "sent_pc q (Finishing r) = True"
| "sent_pc q (Returned r) = True"
| "sent_pc q Dropped = True"
| "sent_pc q _ = False"

text \<open>Whatever a call does, it stays the same call, and what it has sent stays sent.\<close>

lemma exec_step_keeps:
  assumes "exec_step H l s = Some s'" and "sv_calls s j = Some c"
  shows "\<exists>c'. sv_calls s' j = Some c' \<and> cl_key c' = cl_key c \<and> cl_operation c' = cl_operation c \<and>
    (sent_pc q (cl_pc c) \<longrightarrow> sent_pc q (cl_pc c'))"
  using assms by (elim exec_step_elim) (auto split: if_splits)

definition mismatch :: "(grpc_status, authority_result) result" where
  "mismatch = Inl (GrpcInternal, ''authority response correlation failed'')"

definition mismatched :: "call_pc \<Rightarrow> bool" where
  "mismatched pc \<longleftrightarrow> pc = Finishing mismatch \<or> pc = Returned mismatch"

section \<open>Answers stay given\<close>

lemma handle_command_answers: "set (dr_answers d) \<subseteq> set (dr_answers (handle_command A c d))"
proof (cases c)
  case (SfuConnected input outp)
  then show ?thesis by (cases input) (auto simp: Let_def split: prod.splits)
qed (auto simp: Let_def answer_def split: prod.splits option.splits)

lemma drain_responses_answers:
  assumes "drain_authority_responses A d = Some d'" and "S \<subseteq> set (dr_answers d)"
  shows "S \<subseteq> set (dr_answers d')"
  by (rule drain_responses_induct [of "\<lambda>d. S \<subseteq> set (dr_answers d)", OF _ _ assms(2,1)])
    (auto simp: answer_def)

interpretation given: driver_invariant A "\<lambda>cs d. S \<subseteq> set (dr_answers d)" for A S
proof
  show "S \<subseteq> set (dr_answers (handle_command A c d))" if "S \<subseteq> set (dr_answers d)" for c d
    using that handle_command_answers by blast
  show "S \<subseteq> set (dr_answers d')" if "S \<subseteq> set (dr_answers d)" "drain_outputs A now d = Some d'" for d now d'
    using that drain_outputs_answers [OF that(2)] by simp
  show "S \<subseteq> set (dr_answers d')" if "S \<subseteq> set (dr_answers d)" "drain_authority_responses A d = Some d'" for d d'
    by (rule drain_responses_answers [OF that(2,1)])
qed simp

section \<open>Every answer belongs to its call\<close>

definition answer_of ::
  "('r hash_item list \<Rightarrow> u64) \<Rightarrow> ('r, 'c) authority_system \<Rightarrow> RequestKey \<times> CachedResult \<Rightarrow> nat \<Rightarrow> u64 \<Rightarrow> bool" where
  "answer_of H y kr i q \<longleftrightarrow> (\<exists>c. sv_calls (au_service y) i = Some c \<and> cl_key c = fst kr \<and>
     cr_fingerprint (snd kr) = call_fp H c \<and> (i, q, cr_result (snd kr)) \<in> set (dr_answers (au_driver y)) \<and>
     Authority q (cl_operation c) i \<in> set (au_handled y))"

definition calls_inv :: "('r hash_item list \<Rightarrow> u64) \<Rightarrow> ('r, 'c) authority_system \<Rightarrow> bool" where
  "calls_inv H y \<longleftrightarrow>
     distinct (map fst (senders (au_handled y @ au_queue y))) \<and>
     answers_inv (senders (au_handled y)) (au_driver y) \<and>
     (\<forall>q op i. Authority q op i \<in> set (au_handled y @ au_queue y) \<longrightarrow>
        (\<exists>c. sv_calls (au_service y) i = Some c \<and> cl_operation c = op \<and> sent_pc q (cl_pc c))) \<and>
     (\<forall>i c. sv_calls (au_service y) i = Some c \<longrightarrow> \<not> mismatched (cl_pc c)) \<and>
     (\<forall>kr \<in> set (sv_answered (au_service y)). \<exists>i q. answer_of H y kr i q)"

lemma senders_append [simp]: "senders (cs @ cs') = senders cs @ senders cs'"
  by (simp add: senders_def)

lemma senders_single [simp]:
  "senders [Authority q op i] = [(i, q)]" "\<not> authority_command c \<Longrightarrow> senders [c] = []"
  by (auto simp: senders_def issued_def split: DriverCommand.split)

lemma in_senders: "(i, q) \<in> set (senders cs) \<longleftrightarrow> (\<exists>op. Authority q op i \<in> set cs)"
proof -
  have "(i, q) \<in> set (issued c) \<longleftrightarrow> (\<exists>op. c = Authority q op i)" for c :: "'r DriverCommand"
    by (cases c) (auto simp: issued_def)
  then show ?thesis by (auto simp: senders_def)
qed

text \<open>A step of the calls alone.\<close>

lemma calls_inv_exec:
  assumes "calls_inv H y" and "exec_step H l (au_service y) = Some s'"
    and "\<forall>i c. sv_calls s' i = Some c \<longrightarrow> \<not> mismatched (cl_pc c)"
    and "\<forall>kr \<in> set (sv_answered s'). \<exists>i q. answer_of H (y\<lparr>au_service := s'\<rparr>) kr i q"
  shows "calls_inv H (y\<lparr>au_service := s'\<rparr>)"
proof -
  have "\<exists>c. sv_calls s' i = Some c \<and> cl_operation c = op \<and> sent_pc q (cl_pc c)"
    if "Authority q op i \<in> set (au_handled y @ au_queue y)" for q op i
  proof -
    from that assms(1) obtain c where "sv_calls (au_service y) i = Some c" "cl_operation c = op" "sent_pc q (cl_pc c)"
      unfolding calls_inv_def by blast
    with exec_step_keeps [OF assms(2), of i c q] show ?thesis by auto
  qed
  with assms(1,3,4) show ?thesis by (simp add: calls_inv_def)
qed

lemma answer_of_exec:
  assumes "answer_of H y kr i q" and "exec_step H l (au_service y) = Some s'"
  shows "answer_of H (y\<lparr>au_service := s'\<rparr>) kr i q"
proof -
  from assms(1) obtain c where c: "sv_calls (au_service y) i = Some c" unfolding answer_of_def by blast
  from assms exec_step_keeps [OF assms(2) c] c show ?thesis by (fastforce simp: answer_of_def)
qed

text \<open>The three kinds of steps, as far as answers are concerned.\<close>

lemma exec_internal:
  assumes "exec_step H l s = Some s'" and "internal_label l"
  shows "sv_answered s' = sv_answered s" and "sv_next_authority s' = sv_next_authority s"
    and "\<forall>i c. sv_calls s i = Some c \<longrightarrow> \<not> mismatched (cl_pc c) \<Longrightarrow>
      \<forall>i c. sv_calls s' i = Some c \<longrightarrow> \<not> mismatched (cl_pc c)"
proof -
  have next_set_pc: "sv_next_authority (set_pc i pc t) = sv_next_authority t" for i pc and t :: "'a service"
    by (simp add: set_pc_def)
  show "sv_answered s' = sv_answered s" "sv_next_authority s' = sv_next_authority s"
    using assms by (elim exec_step_elim; simp add: next_set_pc)+
  show "\<forall>i c. sv_calls s' i = Some c \<longrightarrow> \<not> mismatched (cl_pc c)"
    if "\<forall>i c. sv_calls s i = Some c \<longrightarrow> \<not> mismatched (cl_pc c)"
    using assms that by (elim exec_step_elim) (auto simp: mismatched_def mismatch_def)
qed

lemma exec_draw:
  assumes "exec_step H (Draw i) s = Some s'"
  shows "\<exists>c q. sv_calls s i = Some c \<and> cl_pc c = Owner \<and> sv_answered s' = sv_answered s \<and>
    next_authority_request_id (sv_next_authority s) = (q, sv_next_authority s') \<and>
    sv_calls s' = (sv_calls s)(i \<mapsto> c\<lparr>cl_pc := Drawn q\<rparr>)"
  using assms by (elim exec_step_elim) (auto simp: set_pc_def intro: sym)

lemma exec_issue:
  assumes "exec_step H (Issue i ok) s = Some s'"
  shows "\<exists>c q. sv_calls s i = Some c \<and> cl_pc c = Drawn q \<and> sv_answered s' = sv_answered s \<and>
    sv_next_authority s' = sv_next_authority s \<and>
    sv_calls s' = (sv_calls s)(i \<mapsto> c\<lparr>cl_pc :=
      if ok then Sent q else Finishing (Inl (Unavailable, ''signaling authority stopped''))\<rparr>)"
  using assms by (elim exec_step_elim) (auto simp: set_pc_def)

lemma exec_respond:
  assumes "exec_step H (Respond i reply) s = Some s'"
  shows "\<exists>c q. sv_calls s i = Some c \<and> cl_pc c = Sent q \<and> sv_next_authority s' = sv_next_authority s \<and>
    sv_calls s' = (sv_calls s)(i \<mapsto> c\<lparr>cl_pc := Finishing (execute_outcome q reply)\<rparr>) \<and>
    sv_answered s' = sv_answered s @ (case execute_outcome q reply of
      Inl _ \<Rightarrow> [] | Inr r \<Rightarrow> [(cl_key c, \<lparr>cr_fingerprint = call_fp H c, cr_result = r\<rparr>)])"
proof -
  obtain c q where "sv_calls s i = Some c" "cl_pc c = Sent q"
    using assms by (auto simp: exec_step_def split: option.splits elim: call_step.elims)
  with assms show ?thesis
    by (auto simp: exec_step_def Let_def set_pc_def split: sum.splits)
qed

lemma calls_invD:
  assumes "calls_inv H y"
  shows "distinct (map fst (senders (au_handled y @ au_queue y)))"
    and "answers_inv (senders (au_handled y)) (au_driver y)"
    and "\<And>q op i. Authority q op i \<in> set (au_handled y @ au_queue y) \<Longrightarrow>
      \<exists>c. sv_calls (au_service y) i = Some c \<and> cl_operation c = op \<and> sent_pc q (cl_pc c)"
    and "\<forall>i c. sv_calls (au_service y) i = Some c \<longrightarrow> \<not> mismatched (cl_pc c)"
    and "\<And>kr. kr \<in> set (sv_answered (au_service y)) \<Longrightarrow> \<exists>i q. answer_of H y kr i q"
  using assms unfolding calls_inv_def by blast+

lemma calls_inv_unanswered:
  assumes "calls_inv H y" and "exec_step H l (au_service y) = Some s'"
    and "sv_answered s' = sv_answered (au_service y)"
    and "\<forall>i c. sv_calls s' i = Some c \<longrightarrow> \<not> mismatched (cl_pc c)"
  shows "calls_inv H (y\<lparr>au_service := s'\<rparr>)"
  using calls_invD(5) [OF assms(1)] answer_of_exec [OF _ assms(2)] assms(3)
  by (intro calls_inv_exec [OF assms(1,2,4)]) fastforce

text \<open>A call that has not sent its operation yet has no sender under way.\<close>

lemma drawn_not_sender:
  assumes "calls_inv H y" and "sv_calls (au_service y) i = Some c" and "cl_pc c = Drawn q"
  shows "i \<notin> fst ` set (senders (au_handled y @ au_queue y))"
proof
  assume "i \<in> fst ` set (senders (au_handled y @ au_queue y))"
  then obtain q' op where "Authority q' op i \<in> set (au_handled y @ au_queue y)"
    by (metis imageE in_senders prod.collapse)
  from calls_invD(3) [OF assms(1) this] assms(2,3) show False by simp
qed

lemma calls_inv_issue:
  assumes "calls_inv H y" and "exec_step H (Issue i ok) (au_service y) = Some s'"
  shows "calls_inv H (y\<lparr>au_service := s'\<rparr>)"
  using exec_issue [OF assms(2)] calls_invD(4) [OF assms(1)]
  by (intro calls_inv_unanswered [OF assms]) (auto simp: mismatched_def mismatch_def split: if_splits)

lemma calls_inv_sent:
  assumes "calls_inv H y" and "exec_step H (Issue i True) (au_service y) = Some s'"
    and "sv_calls (au_service y) i = Some c" and "cl_pc c = Drawn q"
  shows "calls_inv H (y\<lparr>au_service := s', au_queue := au_queue y @ [Authority q (cl_operation c) i]\<rparr>)"
proof -
  have "sv_calls s' i = Some (c\<lparr>cl_pc := Sent q\<rparr>)"
    using exec_issue [OF assms(2)] assms(3,4) by auto
  with calls_inv_issue [OF assms(1,2)] drawn_not_sender [OF assms(1,3,4)] show ?thesis
    by (auto simp: calls_inv_def answer_of_def)
qed

lemma calls_inv_respond:
  assumes "calls_inv H y" and "exec_step H (Respond i reply) (au_service y) = Some s'"
    and "\<And>q' r. reply = Reply q' r \<Longrightarrow> (i, q', r) \<in> set (dr_answers (au_driver y))"
  shows "calls_inv H (y\<lparr>au_service := s'\<rparr>)"
proof -
  obtain c q where c: "sv_calls (au_service y) i = Some c" "cl_pc c = Sent q"
    "sv_calls s' = (sv_calls (au_service y))(i \<mapsto> c\<lparr>cl_pc := Finishing (execute_outcome q reply)\<rparr>)"
    "sv_answered s' = sv_answered (au_service y) @ (case execute_outcome q reply of
      Inl _ \<Rightarrow> [] | Inr r \<Rightarrow> [(cl_key c, \<lparr>cr_fingerprint = call_fp H c, cr_result = r\<rparr>)])"
    using exec_respond [OF assms(2)] by blast
  have own: "q' = q \<and> Authority q (cl_operation c) i \<in> set (au_handled y)" if "reply = Reply q' r" for q' r
  proof -
    have "(i, q') \<in> set (senders (au_handled y))"
      using assms(3) [OF that] calls_invD(2) [OF assms(1)] by (auto simp: answers_inv_def)
    then obtain op where op: "Authority q' op i \<in> set (au_handled y)" by (auto simp: in_senders)
    with calls_invD(3) [OF assms(1), of q' op i] c(1,2) show ?thesis by auto
  qed
  have match: "execute_outcome q reply \<noteq> mismatch"
    using own by (cases reply) (auto simp: mismatch_def)
  have "\<exists>j q'. answer_of H (y\<lparr>au_service := s'\<rparr>) kr j q'" if "kr \<in> set (sv_answered s')" for kr
  proof (cases "kr \<in> set (sv_answered (au_service y))")
    case True
    from calls_invD(5) [OF assms(1) this] answer_of_exec [OF _ assms(2)] show ?thesis by blast
  next
    case False
    with that c(4) obtain r where r: "execute_outcome q reply = Inr r"
      "kr = (cl_key c, \<lparr>cr_fingerprint = call_fp H c, cr_result = r\<rparr>)"
      by (auto split: sum.splits)
    then have "reply = Reply q r" using own by (cases reply) (auto split: if_splits)
    with own assms(3) r(2) c(3) have "answer_of H (y\<lparr>au_service := s'\<rparr>) kr i q"
      by (simp add: answer_of_def)
    then show ?thesis by blast
  qed
  with match c(3) calls_invD(4) [OF assms(1)] show ?thesis
    by (intro calls_inv_exec [OF assms(1,2)]) (auto simp: mismatched_def)
qed

text \<open>A step of the loop.\<close>

lemma calls_inv_loop:
  assumes "calls_inv H y" and "answers_inv (senders cs) d'" and "au_handled y @ au_queue y = cs @ queue"
    and "prefix (au_handled y) cs" and "set (dr_answers (au_driver y)) \<subseteq> set (dr_answers d')"
  shows "calls_inv H (y\<lparr>au_queue := queue, au_running := b, au_driver := d', au_handled := cs\<rparr>)"
proof -
  have "answer_of H (y\<lparr>au_queue := queue, au_running := b, au_driver := d', au_handled := cs\<rparr>) kr i q"
    if "answer_of H y kr i q" for kr i q
    using that assms(4,5) set_mono_prefix [OF assms(4)] by (auto simp: answer_of_def)
  with assms(1,2) show ?thesis unfolding calls_inv_def by (simp add: assms(3) flip: assms(3)) blast
qed

lemma calls_inv_step:
  assumes "authority_step H A y y'" and "calls_inv H y"
  shows "calls_inv H y'"
  using assms(1)
proof cases
  case (call_moves l s')
  show ?thesis
    unfolding call_moves(1) by (rule calls_inv_unanswered [OF assms(2) call_moves(3)
      exec_internal(1) [OF call_moves(3,2)] exec_internal(3) [OF call_moves(3,2) calls_invD(4) [OF assms(2)]]])
next
  case (call_draws i s')
  have "calls_inv H (y\<lparr>au_service := s'\<rparr>)"
    using exec_draw [OF call_draws(2)] calls_invD(4) [OF assms(2)]
    by (intro calls_inv_unanswered [OF assms(2) call_draws(2)]) (auto simp: mismatched_def split: if_splits)
  with call_draws(1) show ?thesis by (simp add: calls_inv_def answer_of_def)
next
  case (call_issues i s' c q)
  show ?thesis unfolding call_issues(1) by (rule calls_inv_sent [OF assms(2) call_issues(4-6)])
next
  case (call_finds_loop_gone i s')
  show ?thesis unfolding call_finds_loop_gone(1) by (rule calls_inv_issue [OF assms(2) call_finds_loop_gone(3)])
next
  case (call_answered i q r s')
  show ?thesis unfolding call_answered(1)
    by (rule calls_inv_respond [OF assms(2) call_answered(3)]) (use call_answered(2) in simp)
next
  case (call_times_out i s')
  show ?thesis unfolding call_times_out(1) by (rule calls_inv_respond [OF assms(2) call_times_out(2)]) simp
next
  case (call_unanswered i s')
  show ?thesis unfolding call_unanswered(1) by (rule calls_inv_respond [OF assms(2) call_unanswered(3)]) simp
next
  case (others_send cmd)
  then have "Authority q op i \<noteq> cmd" for q op i by auto
  with assms(2) others_send show ?thesis by (auto simp: calls_inv_def answer_of_def)
next
  case (loop_iterates w queue now d')
  have "distinct (map fst (senders (au_handled y @ wake_commands w)))"
    using calls_invD(1) [OF assms(2)] loop_iterates(3) by auto
  then have "answers_inv (senders (au_handled y @ wake_commands w)) d'"
    using answers.step [of "au_handled y", OF _ loop_iterates(4)] calls_invD(2) [OF assms(2)] by blast
  from calls_inv_loop [OF assms(2) this, of queue "au_running y"] given.step [OF _ loop_iterates(4)]
    loop_iterates(1,3) show ?thesis by simp
next
  case (loop_ends w queue now d1 d')
  have "distinct (map fst (senders (au_handled y @ wake_commands w)))"
    and all: "distinct (map fst (senders ((au_handled y @ wake_commands w) @ queue)))"
    using calls_invD(1) [OF assms(2)] loop_ends(3) by auto
  then have "answers_inv (senders (au_handled y @ wake_commands w)) d1"
    using answers.step [of "au_handled y", OF _ loop_ends(4)] calls_invD(2) [OF assms(2)] by blast
  then have "answers_inv (senders ((au_handled y @ wake_commands w) @ queue)) d'"
    using answers.shutdown [of "au_handled y @ wake_commands w", OF _ loop_ends(5)] all by blast
  moreover have "set (dr_answers (au_driver y)) \<subseteq> set (dr_answers d')"
    by (rule given.shutdown [OF given.step [OF order_refl loop_ends(4)] loop_ends(5)])
  ultimately show ?thesis
    using calls_inv_loop [OF assms(2), of "(au_handled y @ wake_commands w) @ queue" d' "[]" False] loop_ends(1,3)
    by simp
qed

section \<open>Identifiers are not reused\<close>

text \<open>
  Identifiers are drawn from a counter of 64 bits that starts at one; until it has gone round they are
  all different.
\<close>

definition drawn_ids :: "'r service \<Rightarrow> (nat \<times> u64) set" where
  "drawn_ids s = {(i, q). \<exists>c. sv_calls s i = Some c \<and> cl_pc c = Drawn q}"

definition ids_apart :: "u64 list \<Rightarrow> (nat \<times> u64) set \<Rightarrow> nat \<Rightarrow> bool" where
  "ids_apart sent held n \<longleftrightarrow> distinct sent \<and> inj_on snd held \<and> set sent \<inter> snd ` held = {} \<and>
     (\<forall>q \<in> set sent \<union> snd ` held. unat q \<le> n)"

abbreviation sent_ids :: "('r, 'c) authority_system \<Rightarrow> u64 list" where
  "sent_ids y \<equiv> map snd (senders (au_handled y @ au_queue y))"

definition ids_inv :: "('r, 'c) authority_system \<Rightarrow> bool" where
  "ids_inv y \<longleftrightarrow> sv_next_authority (au_service y) = of_nat (Suc (au_draws y)) \<and>
     (Suc (au_draws y) < 2 ^ 64 \<longrightarrow> ids_apart (sent_ids y) (drawn_ids (au_service y)) (au_draws y))"

lemma ids_apart_subset: "ids_apart sent held n \<Longrightarrow> held' \<subseteq> held \<Longrightarrow> ids_apart sent held' n"
  unfolding ids_apart_def using inj_on_subset [of snd held held'] image_mono [of held' held snd] by blast

lemma ids_apart_draw: "ids_apart sent held n \<Longrightarrow> unat q = Suc n \<Longrightarrow> ids_apart sent (insert (i, q) held) (Suc n)"
  unfolding ids_apart_def by (force simp: le_SucI)

lemma ids_apart_send:
  assumes "ids_apart sent held n" and "(i, q) \<in> held" and "held' \<subseteq> held - {(i, q)}"
  shows "ids_apart (sent @ [q]) held' n"
proof -
  have "p = (i, q)" if "p \<in> held" "snd p = q" for p
    using inj_onD [of snd held p "(i, q)"] assms(1,2) that by (simp add: ids_apart_def)
  then have "q \<notin> snd ` held'" using assms(3) by blast
  moreover have "ids_apart sent held' n" by (rule ids_apart_subset [OF assms(1)]) (use assms(3) in blast)
  moreover have "q \<in> snd ` held" using assms(2) by force
  then have "q \<notin> set sent" "unat q \<le> n" using assms(1) by (auto simp: ids_apart_def)
  ultimately show ?thesis by (auto simp: ids_apart_def)
qed

text \<open>The next identifier is larger than every one drawn so far.\<close>

lemma next_id_fresh:
  assumes "ids_inv y" and "Suc (au_draws y) < 2 ^ 64"
    and "next_authority_request_id (sv_next_authority (au_service y)) = (q, counter)"
  shows "unat q = Suc (au_draws y)" and "counter = of_nat (Suc (Suc (au_draws y)))"
proof -
  have n: "unat (of_nat (Suc (au_draws y)) :: u64) = Suc (au_draws y)"
    using assms(2) by (simp only: unat_of_nat) simp
  have "q = max (of_nat (Suc (au_draws y))) 1"
    using assms(1,3) by (simp add: ids_inv_def next_authority_request_id_def)
  moreover have "(1 :: u64) \<le> of_nat (Suc (au_draws y))"
    unfolding word_le_nat_alt n by simp
  ultimately have "q = of_nat (Suc (au_draws y))" by (simp only: max_absorb1)
  with n show "unat q = Suc (au_draws y)" by (simp only:)
  show "counter = of_nat (Suc (Suc (au_draws y)))"
    using assms(1,3) by (auto simp: ids_inv_def next_authority_request_id_def)
qed

text \<open>A step that draws nothing and sends nothing.\<close>

lemma exec_not_drawn:
  assumes "exec_step H l s = Some s'" and "\<forall>i. l \<noteq> Draw i"
  shows "drawn_ids s' \<subseteq> drawn_ids s"
  using assms by (elim exec_step_elim) (auto simp: drawn_ids_def split: if_splits)

lemma ids_inv_exec:
  assumes "ids_inv y" and "exec_step H l (au_service y) = Some s'" and "\<forall>i. l \<noteq> Draw i"
    and "sv_next_authority s' = sv_next_authority (au_service y)"
  shows "ids_inv (y\<lparr>au_service := s'\<rparr>)"
  using assms(1,4) ids_apart_subset [OF _ exec_not_drawn [OF assms(2,3)]] by (simp add: ids_inv_def)

lemma ids_inv_draw:
  assumes "ids_inv y" and "exec_step H (Draw i) (au_service y) = Some s'"
  shows "ids_inv (y\<lparr>au_service := s', au_draws := Suc (au_draws y)\<rparr>)"
proof -
  from exec_draw [OF assms(2)] obtain c q where c: "sv_calls (au_service y) i = Some c" "cl_pc c = Owner"
    "next_authority_request_id (sv_next_authority (au_service y)) = (q, sv_next_authority s')"
    "sv_calls s' = (sv_calls (au_service y))(i \<mapsto> c\<lparr>cl_pc := Drawn q\<rparr>)" by blast
  have "drawn_ids s' \<subseteq> insert (i, q) (drawn_ids (au_service y))"
    using c(4) by (auto simp: drawn_ids_def split: if_splits)
  note apart = ids_apart_subset [OF ids_apart_draw this]
  have "sv_next_authority s' = of_nat (Suc (Suc (au_draws y)))"
    using assms(1) c(3) by (auto simp: ids_inv_def next_authority_request_id_def)
  with assms(1) apart next_id_fresh(1) [OF assms(1) _ c(3)] show ?thesis
    unfolding ids_inv_def by (simp del: of_nat_Suc)
qed

lemma ids_inv_sent:
  assumes "ids_inv y" and "exec_step H (Issue i True) (au_service y) = Some s'"
    and "sv_calls (au_service y) i = Some c" and "cl_pc c = Drawn q"
  shows "ids_inv (y\<lparr>au_service := s', au_queue := au_queue y @ [Authority q op i]\<rparr>)"
proof -
  have s': "sv_next_authority s' = sv_next_authority (au_service y)"
    "sv_calls s' = (sv_calls (au_service y))(i \<mapsto> c\<lparr>cl_pc := Sent q\<rparr>)"
    using exec_issue [OF assms(2)] assms(3,4) by auto
  have "(i, q) \<in> drawn_ids (au_service y)" "drawn_ids s' \<subseteq> drawn_ids (au_service y) - {(i, q)}"
    using assms(3,4) s'(2) by (auto simp: drawn_ids_def split: if_splits)
  note apart = ids_apart_send [OF _ this]
  have "sent_ids (y\<lparr>au_service := s', au_queue := au_queue y @ [Authority q op i]\<rparr>) = sent_ids y @ [q]" by simp
  with assms(1) apart s'(1) show ?thesis unfolding ids_inv_def by (simp del: of_nat_Suc senders_append)
qed

lemma ids_inv_step:
  assumes "authority_step H A y y'" and "ids_inv y"
  shows "ids_inv y'"
  using assms(1)
proof cases
  case (call_moves l s')
  show ?thesis unfolding call_moves(1)
    by (rule ids_inv_exec [OF assms(2) call_moves(3) _ exec_internal(2) [OF call_moves(3,2)]])
      (use call_moves(2) in auto)
next
  case (call_draws i s')
  show ?thesis unfolding call_draws(1) by (rule ids_inv_draw [OF assms(2) call_draws(2)])
next
  case (call_issues i s' c q)
  show ?thesis unfolding call_issues(1) by (rule ids_inv_sent [OF assms(2) call_issues(4-6)])
next
  case (call_finds_loop_gone i s')
  show ?thesis unfolding call_finds_loop_gone(1)
    by (rule ids_inv_exec [OF assms(2) call_finds_loop_gone(3)]) (use exec_issue [OF call_finds_loop_gone(3)] in auto)
next
  case (call_answered i q r s')
  show ?thesis unfolding call_answered(1)
    by (rule ids_inv_exec [OF assms(2) call_answered(3)]) (use exec_respond [OF call_answered(3)] in auto)
next
  case (call_times_out i s')
  show ?thesis unfolding call_times_out(1)
    by (rule ids_inv_exec [OF assms(2) call_times_out(2)]) (use exec_respond [OF call_times_out(2)] in auto)
next
  case (call_unanswered i s')
  show ?thesis unfolding call_unanswered(1)
    by (rule ids_inv_exec [OF assms(2) call_unanswered(3)]) (use exec_respond [OF call_unanswered(3)] in auto)
qed (use assms(2) in \<open>simp_all add: ids_inv_def\<close>)

interpretation calls: step_invariant "authority_step H A" "calls_inv H" for H A
  by unfold_locales (rule calls_inv_step)

interpretation ids: step_invariant "authority_step H A" ids_inv for H A
  by unfold_locales (rule ids_inv_step)

lemma authority_reachable:
  assumes "authority_steps H A (new_authority_system collider) y"
  shows "calls_inv H y" and "ids_inv y"
proof -
  note defs = new_authority_system_def new_service_def new_driver_def answers_inv_def senders_def
  show "calls_inv H y"
    by (rule calls.reachable [OF assms]) (simp add: calls_inv_def defs)
  show "ids_inv y"
    by (rule ids.reachable [OF assms]) (simp add: ids_inv_def ids_apart_def drawn_ids_def defs)
qed

text \<open>
  C28. However calls of the service and the event loop interleave, with time-outs, cancellations, other
  commands and the end of the loop anywhere between them: no call ever fails because its answer carries
  another identifier than it sent, and every result that reaches a client (and the cache) is what the
  loop answered to that client's own operation, under the identifier of the call that sent it. As long as
  fewer than \<open>2^64 - 1\<close> identifiers have been drawn, no other command the loop has handled bears that
  identifier.
\<close>
theorem answers_are_own:
  assumes "authority_steps H A (new_authority_system collider) y"
  shows "(\<forall>i c. sv_calls (au_service y) i = Some c \<longrightarrow>
      (let failed = Inl (GrpcInternal, ''authority response correlation failed'')
       in cl_pc c \<noteq> Finishing failed \<and> cl_pc c \<noteq> Returned failed)) \<and>
    (\<forall>(key, cached) \<in> set (sv_answered (au_service y)). \<exists>i c q.
       sv_calls (au_service y) i = Some c \<and> cl_key c = key \<and>
       cr_fingerprint cached = operation_fingerprint H (cl_operation c) \<and>
       (i, q, cr_result cached) \<in> set (dr_answers (au_driver y)) \<and>
       Authority q (cl_operation c) i \<in> set (au_handled y) \<and>
       (Suc (au_draws y) < 2 ^ 64 \<longrightarrow> (\<forall>op j. Authority q op j \<in> set (au_handled y) \<longrightarrow> j = i)))"
proof -
  note inv = authority_reachable [OF assms]
  have unique: "j = i" if "Suc (au_draws y) < 2 ^ 64" "Authority q op i \<in> set (au_handled y)"
    "Authority q op' j \<in> set (au_handled y)" for q op op' i j
  proof -
    have "(i, q) \<in> set (senders (au_handled y))" "(j, q) \<in> set (senders (au_handled y))"
      using that(2,3) by (auto simp: in_senders)
    moreover have "distinct (map snd (senders (au_handled y)))"
      using inv(2) that(1) by (simp add: ids_inv_def ids_apart_def)
    ultimately show ?thesis by (metis distinct_map inj_onD prod.inject snd_conv)
  qed
  show ?thesis
  proof (intro conjI ballI)
    show "\<forall>i c. sv_calls (au_service y) i = Some c \<longrightarrow>
      (let failed = Inl (GrpcInternal, ''authority response correlation failed'')
       in cl_pc c \<noteq> Finishing failed \<and> cl_pc c \<noteq> Returned failed)"
      using calls_invD(4) [OF inv(1)] by (auto simp: mismatched_def mismatch_def)
  next
    fix kr assume "kr \<in> set (sv_answered (au_service y))"
    from calls_invD(5) [OF inv(1) this] obtain i q c where
      "sv_calls (au_service y) i = Some c" "cl_key c = fst kr" "cr_fingerprint (snd kr) = call_fp H c"
      "(i, q, cr_result (snd kr)) \<in> set (dr_answers (au_driver y))"
      "Authority q (cl_operation c) i \<in> set (au_handled y)" unfolding answer_of_def by blast
    with unique show "case kr of (key, cached) \<Rightarrow> \<exists>i c q.
       sv_calls (au_service y) i = Some c \<and> cl_key c = key \<and>
       cr_fingerprint cached = operation_fingerprint H (cl_operation c) \<and>
       (i, q, cr_result cached) \<in> set (dr_answers (au_driver y)) \<and>
       Authority q (cl_operation c) i \<in> set (au_handled y) \<and>
       (Suc (au_draws y) < 2 ^ 64 \<longrightarrow> (\<forall>op j. Authority q op j \<in> set (au_handled y) \<longrightarrow> j = i))"
      by (cases kr) (simp only: prod.case fst_conv snd_conv, blast)
  qed
qed

text \<open>A call that is answered by the loop: it starts, owns its request, sends it, and takes the answer.\<close>

definition sample_call :: "call_pc \<Rightarrow> nat call" where
  "sample_call pc = \<lparr>cl_key = \<lparr>rk_instance_id = ''a'', rk_request_id = 5\<rparr>,
     cl_operation = Occupancy ''r'', cl_pc = pc\<rparr>"

lemma sample_loop_answers:
  "\<exists>d'. driver_step sample_collider_api 0 (WakeCommand (Some (Authority 1 (Occupancy ''r'') 0)))
     (new_driver ([], [])) = Some (d', True) \<and> dr_answers d' = [(0, 1, Removed)]"
proof -
  let ?A = sample_collider_api
  let ?d = "(new_driver ([], [(1, Removed)]))\<lparr>dr_pending := [(1, 0)]\<rparr> :: (nat, sample_collider) driver"
  let ?d' = "answer 0 (1, Removed) ((new_driver ([], []))\<lparr>dr_pending := []\<rparr>)"
  have "handle_command ?A (Authority 1 (Occupancy ''r'') 0) (new_driver ([], [])) = ?d"
    by (simp add: sample_collider_api_def new_driver_def)
  moreover have "drain_outputs ?A 0 ?d = Some ?d"
    unfolding drain_outputs_def by (subst route_outputs.simps) (simp add: sample_collider_api_def new_driver_def Let_def)
  moreover have "drain_authority_responses ?A ?d' = Some ?d'"
    by (subst drain_authority_responses.simps) (simp add: sample_collider_api_def new_driver_def answer_def Let_def)
  then have "drain_authority_responses ?A ?d = Some ?d'"
    by (subst drain_authority_responses.simps)
      (simp add: sample_collider_api_def new_driver_def answer_def Let_def AList.delete_eq)
  ultimately show ?thesis
    by (intro exI [of _ ?d']) (simp add: drain_all_def answer_def new_driver_def)
qed

theorem answers_are_own_witness:
  "\<exists>y. authority_steps (\<lambda>_. 0) sample_collider_api (new_authority_system ([], [])) y \<and>
     sv_answered (au_service y) \<noteq> [] \<and> (\<exists>i q. (i, q, Removed) \<in> set (dr_answers (au_driver y)) \<and>
       Authority q (Occupancy ''r'') i \<in> set (au_handled y))"
proof -
  let ?A = sample_collider_api and ?H = "(\<lambda>_. 0) :: nat hash_item list \<Rightarrow> u64"
  let ?op = "Occupancy ''r'' :: nat authority_operation" and ?key = "\<lparr>rk_instance_id = ''a'', rk_request_id = 5\<rparr>"
  let ?fp = "operation_fingerprint ?H ?op"
  let ?y0 = "new_authority_system ([], []) :: (nat, sample_collider) authority_system"
  let ?s1 = "new_service\<lparr>sv_calls := [0 \<mapsto> sample_call Looking]\<rparr>"
  let ?s2 = "new_service\<lparr>sv_calls := [0 \<mapsto> sample_call Owner], sv_in_flight := [(?key, (?fp, 0))]\<rparr>"
  let ?s2' = "?s2\<lparr>sv_calls := [0 \<mapsto> sample_call (Drawn 1)], sv_next_authority := 2\<rparr>"
  let ?s3 = "?s2'\<lparr>sv_calls := [0 \<mapsto> sample_call (Sent 1)], sv_sent := [(1, ?op)]\<rparr>"
  let ?s4 = "?s3\<lparr>sv_calls := [0 \<mapsto> sample_call (Finishing (Inr Removed))],
    sv_answered := [(?key, \<lparr>cr_fingerprint = ?fp, cr_result = Removed\<rparr>)]\<rparr>"
  note defs = exec_step_def new_service_def sample_call_def set_pc_def Let_def
  obtain d where d: "driver_step ?A 0 (WakeCommand (Some (Authority 1 ?op 0))) (new_driver ([], [])) = Some (d, True)"
    "dr_answers d = [(0, 1, Removed)]" using sample_loop_answers by blast
  let ?y2 = "?y0\<lparr>au_service := ?s2', au_draws := 1\<rparr>"
  let ?y3 = "?y2\<lparr>au_service := ?s3, au_queue := [Authority 1 ?op 0]\<rparr>"
  let ?y4 = "?y3\<lparr>au_queue := [], au_driver := d, au_handled := [Authority 1 ?op 0]\<rparr>"
  let ?y5 = "?y4\<lparr>au_service := ?s4\<rparr>"
  have "exec_step ?H (StartCall 0 ?key ?op) new_service = Some ?s1" by (simp add: defs)
  then have step1: "authority_step ?H ?A ?y0 (?y0\<lparr>au_service := ?s1\<rparr>)"
    by (intro authority_step.call_moves [where l = "StartCall 0 ?key ?op"]) (simp_all add: new_authority_system_def)
  have "exec_step ?H (Lookup 0) ?s1 = Some ?s2"
    by (simp add: defs execute_lookup_def)
  then have step2: "authority_step ?H ?A (?y0\<lparr>au_service := ?s1\<rparr>) (?y0\<lparr>au_service := ?s2\<rparr>)"
    using authority_step.call_moves [of "Lookup 0" ?H "?y0\<lparr>au_service := ?s1\<rparr>"] by simp
  have "exec_step ?H (Draw 0) ?s2 = Some ?s2'"
    by (simp add: defs next_authority_request_id_def)
  then have step2': "authority_step ?H ?A (?y0\<lparr>au_service := ?s2\<rparr>) ?y2"
    using authority_step.call_draws [of ?H 0 "?y0\<lparr>au_service := ?s2\<rparr>" ?s2' ?A]
    by (simp add: new_authority_system_def)
  have "exec_step ?H (Issue 0 True) ?s2' = Some ?s3" by (simp add: defs)
  then have step3: "authority_step ?H ?A ?y2 ?y3"
    using authority_step.call_issues [of ?y2 ?H 0 ?s3 "sample_call (Drawn 1)" 1 ?A]
    by (simp add: new_authority_system_def COMMAND_CAPACITY_def sample_call_def new_service_def)
  have step4: "authority_step ?H ?A ?y3 ?y4"
    using authority_step.loop_iterates [of ?y3 "WakeCommand (Some (Authority 1 ?op 0))" "[]" ?A 0 d ?H] d(1)
    by (simp add: new_authority_system_def)
  have "exec_step ?H (Respond 0 (Reply 1 Removed)) ?s3 = Some ?s4" by (simp add: defs)
  then have step5: "authority_step ?H ?A ?y4 ?y5"
    using authority_step.call_answered [of 0 1 Removed ?y4 ?H ?s4 ?A] d(2) by simp
  have "authority_steps ?H ?A ?y0 (?y0\<lparr>au_service := ?s1\<rparr>)" using step1 by (rule r_into_rtranclp)
  from this step2 have "authority_steps ?H ?A ?y0 (?y0\<lparr>au_service := ?s2\<rparr>)"
    by (rule rtranclp.rtrancl_into_rtrancl)
  from this step2' have "authority_steps ?H ?A ?y0 ?y2" by (rule rtranclp.rtrancl_into_rtrancl)
  from this step3 have "authority_steps ?H ?A ?y0 ?y3" by (rule rtranclp.rtrancl_into_rtrancl)
  from this step4 have "authority_steps ?H ?A ?y0 ?y4" by (rule rtranclp.rtrancl_into_rtrancl)
  from this step5 have run: "authority_steps ?H ?A ?y0 ?y5" by (rule rtranclp.rtrancl_into_rtrancl)
  have "(?key, \<lparr>cr_fingerprint = ?fp, cr_result = Removed\<rparr>) \<in> set (sv_answered (au_service ?y5))" by simp
  from bspec [OF answers_are_own [OF run, THEN conjunct2] this, unfolded prod.case] obtain i c q where
    own: "sv_calls (au_service ?y5) i = Some c" "(i, q, cr_result \<lparr>cr_fingerprint = ?fp, cr_result = Removed\<rparr>)
      \<in> set (dr_answers (au_driver ?y5))" "Authority q (cl_operation c) i \<in> set (au_handled ?y5)" by blast
  from own(1) have "cl_operation c = ?op" by (auto simp: sample_call_def split: if_splits)
  with own(2,3) have "(i, q, Removed) \<in> set (dr_answers (au_driver ?y5)) \<and> Authority q ?op i \<in> set (au_handled ?y5)"
    by simp
  with run show ?thesis by (intro exI [of _ ?y5]) auto
qed

end
