(* ===== verification/Sfu_Flow.thy ===== *)
theory Sfu_Flow
  imports Sfu_Session Transitions
begin

text \<open>
  The tasks of the worker and the channels between them (\<open>run\<close>, \<open>run_session\<close>, \<open>dispatch_command\<close> and
  \<open>media_loop\<close> of \<open>src/src/sfu_server.rs\<close>). The session task and the shard tasks run concurrently: a
  shard receives commands on its own channel and sends events on one channel that all shards share;
  the session sends its messages on a channel from which the transport takes them. All are bounded, and
  a send on a full channel waits. A rule of \<open>task_step\<close> is what one task does between two points at which
  it can wait, so the interleavings of the rules are those of the tasks.

  What the transport does (connections, responses, incoming messages, packets, timers, when it takes an
  outgoing message, when it drops the stream) is left open.
\<close>

section \<open>Tasks and channels\<close>

definition CHANNEL_CAPACITY :: nat where "CHANNEL_CAPACITY = 1024"

text \<open>
  Where the task of a shard is: in the \<open>select!\<close> of \<open>media_loop\<close>, at the start of \<open>drain_engine\<close>, at
  the head of its event loop, waiting in \<open>events.send\<close>, or finished.
\<close>

datatype shard_phase = Selecting | Pumping | Draining | Sending sfu_event_msg | Stopped

record ('r, 'e) shard_task =
  sk_shard :: "('r, 'e) shard"
  sk_inbox :: "sfu_command list"
  sk_phase :: shard_phase

text \<open>
  Where the task of \<open>run\<close> is: connecting, waiting for the answer to its registration, sending the events
  that are still pending, in the \<open>select!\<close> of a session, waiting for the reply of a shard in
  \<open>dispatch_command\<close> (with the request identifier of the command), waiting in \<open>outgoing_tx.send\<close> with a
  message, sleeping before the next session, or past its loop. Only the \<open>select!\<close> and the sleep look at the
  stop signal.
\<close>

datatype session_phase =
    Opening "(u64, sfu_event_msg) hashmap"
  | Registering u64 session
  | Resending "sfu_event_msg list" session
  | InSession session
  | Awaiting session nat u64
  | Queueing sfu_to_signaling session
  | Sleeping "(u64, sfu_event_msg) hashmap"
  | Over

text \<open>
  \<open>fw_taken\<close> counts the messages the transport has taken from the session's outgoing channel; \<open>fw_incoming\<close>
  is what it has delivered and the session has not read yet.
\<close>

record ('r, 'e) flow =
  fw_shards :: "('r, 'e) shard_task list"
  fw_metrics :: metrics
  fw_next_event_id :: u64
  fw_events :: "sfu_event_msg list"
  fw_events_open :: bool
  fw_session :: session_phase
  fw_taken :: nat
  fw_incoming :: "(string, signaling_to_sfu option option) result list"
  fw_stop :: bool

definition initial_flow :: "'e list \<Rightarrow> ('r, 'e) flow" where
  "initial_flow engines =
     \<lparr>fw_shards = map (\<lambda>e. \<lparr>sk_shard = new_shard e, sk_inbox = [], sk_phase = Selecting\<rparr>) engines,
      fw_metrics = \<lparr>mt_rooms = 0, mt_clients = 0\<rparr>, fw_next_event_id = 1, fw_events = [],
      fw_events_open = True, fw_session = Opening [], fw_taken = 0, fw_incoming = [], fw_stop = False\<rparr>"

section \<open>Steps\<close>

definition set_task :: "nat \<Rightarrow> ('r, 'e) shard_task \<Rightarrow> ('r, 'e) flow \<Rightarrow> ('r, 'e) flow" where
  "set_task i t w = w\<lparr>fw_shards := (fw_shards w)[i := t]\<rparr>"

definition with_engine :: "('r, 'e) shard_task \<Rightarrow> 'e \<Rightarrow> shard_phase \<Rightarrow> ('r, 'e) shard_task" where
  "with_engine t e phase = t\<lparr>sk_shard := (sk_shard t)\<lparr>sh_engine := e\<rparr>, sk_phase := phase\<rparr>"

abbreviation engine_of :: "('r, 'e) shard_task \<Rightarrow> 'e" where
  "engine_of t \<equiv> sh_engine (sk_shard t)"

text \<open>A shard's reply goes to the session that waits for this shard.\<close>

fun reply_to :: "nat \<Rightarrow> sfu_command_result \<Rightarrow> session_phase \<Rightarrow> session_phase" where
  "reply_to i result (Awaiting s j request_id) =
     (if j = i then Queueing (CommandResultMsg result) s else Awaiting s j request_id)"
| "reply_to i result phase = phase"

text \<open>\<open>dispatch_command\<close> up to the send to the shard: an immediate answer, or the shard's index.\<close>

definition dispatch_target ::
  "('r, 'e, 'sdp, 'z) sfu_api_scheme \<Rightarrow> sfu_command \<Rightarrow> ('r, 'e) shard_task list \<Rightarrow>
   sfu_command_result + nat" where
  "dispatch_target A cmd media =
     (let request_id = cmd_request_id cmd
      in case command_room_id A cmd of
           None \<Rightarrow> Inl (command_error request_id InvalidRequest ''unsupported command'')
         | Some room_id \<Rightarrow>
             (let i = shard_index A room_id (length media)
              in if length media \<le> i
                 then Inl (command_error request_id WorkerUnavailable ''media shard unavailable'')
                 else if sk_phase (media ! i) = Stopped
                 then Inl (command_error request_id WorkerUnavailable ''media shard stopped'')
                 else Inr i))"

text \<open>How the task of \<open>run\<close> goes on after a step of its session.\<close>

fun session_goes_on :: "session_end option \<Rightarrow> session \<Rightarrow> session_phase" where
  "session_goes_on None s = InSession s"
| "session_goes_on (Some (SessionOk True)) s = Over"
| "session_goes_on (Some _) s = Sleeping (ss_pending s)"

text \<open>A send on the outgoing channel that does not wait: it has room, or the transport has dropped it.\<close>

definition outgoing_ready :: "nat \<Rightarrow> session \<Rightarrow> bool" where
  "outgoing_ready taken s \<longleftrightarrow> \<not> ss_out_open s \<or> length (ss_outgoing s) < taken + CHANNEL_CAPACITY"

definition send_message :: "sfu_to_signaling \<Rightarrow> session \<Rightarrow> session_phase" where
  "send_message msg s =
     (case finish_send (send_out msg s) () of (fin, s', _) \<Rightarrow> session_goes_on fin s')"

text \<open>The parts of \<open>run_session\<close> before its loop, from one wait to the next.\<close>

definition open_session :: "sfu_config \<Rightarrow> u64 \<Rightarrow> (u64, sfu_event_msg) hashmap \<Rightarrow> session" where
  "open_session config registration_request_id pending =
     \<lparr>ss_pending = pending, ss_outgoing = [RegisterMsg
        \<lparr>rg_context = Some \<lparr>ctx_app_id = Known AppId_Sfu, ctx_instance_id = cf_instance_id config,
           ctx_request_id = registration_request_id\<rparr>,
         rg_capacity = Some (capacity config)\<rparr>], ss_out_open = True\<rparr>"

definition registration_answer ::
  "(string, signaling_to_sfu option option) result \<Rightarrow> u64 \<Rightarrow> (string, u64 \<times> bool) result" where
  "registration_answer incoming registration_request_id =
     (case incoming of
        Inl err \<Rightarrow> Inl err
      | Inr None \<Rightarrow> Inl ''SFU session closed before registration response''
      | Inr (Some registered) \<Rightarrow> decode_registration registered registration_request_id)"

definition resend_event :: "sfu_event_msg \<Rightarrow> sfu_event_msg list \<Rightarrow> session \<Rightarrow> session_phase" where
  "resend_event event events s =
     (case send_out (EventMsg event) s of
        (Inl err, s') \<Rightarrow> Sleeping (ss_pending s')
      | (Inr _, s') \<Rightarrow> Resending events s')"

text \<open>\<open>queue_health\<close> up to its send.\<close>

definition health_event :: "sfu_config \<Rightarrow> metrics \<Rightarrow> u64 \<Rightarrow> sfu_event_msg" where
  "health_event config mt request_id =
     \<lparr>ev_request_id = request_id,
      ev_event = Some (HealthEv \<lparr>hl_state = Known StateReady,
        hl_capacity = Some (capacity config), hl_current_rooms = mt_rooms mt,
        hl_current_clients = mt_clients mt\<rparr>)\<rparr>"

definition queue_event :: "sfu_event_msg \<Rightarrow> session \<Rightarrow> session_phase" where
  "queue_event event s =
     Queueing (EventMsg event) (s\<lparr>ss_pending := hm_insert (ev_request_id event) event (ss_pending s)\<rparr>)"

text \<open>The session of a phase, for what the transport does to its outgoing channel.\<close>

fun phase_session :: "session_phase \<Rightarrow> session option" where
  "phase_session (Registering q s) = Some s"
| "phase_session (Resending events s) = Some s"
| "phase_session (InSession s) = Some s"
| "phase_session (Awaiting s i q) = Some s"
| "phase_session (Queueing msg s) = Some s"
| "phase_session _ = None"

fun drop_outgoing :: "session_phase \<Rightarrow> session_phase" where
  "drop_outgoing (Registering q s) = Registering q (s\<lparr>ss_out_open := False\<rparr>)"
| "drop_outgoing (Resending events s) = Resending events (s\<lparr>ss_out_open := False\<rparr>)"
| "drop_outgoing (InSession s) = InSession (s\<lparr>ss_out_open := False\<rparr>)"
| "drop_outgoing (Awaiting s i q) = Awaiting (s\<lparr>ss_out_open := False\<rparr>) i q"
| "drop_outgoing (Queueing msg s) = Queueing msg (s\<lparr>ss_out_open := False\<rparr>)"
| "drop_outgoing phase = phase"

text \<open>The messages of the signaling service that are not commands.\<close>

fun no_command :: "(string, signaling_to_sfu option option) result \<Rightarrow> bool" where
  "no_command (Inr (Some (Some (CommandMsg cmd)))) = False"
| "no_command _ = True"

text \<open>A step of the session that does not touch the shards.\<close>

definition session_takes ::
  "('r, 'e, 'sdp, 'z) sfu_api_scheme \<Rightarrow> sfu_config \<Rightarrow> session_input \<Rightarrow> session \<Rightarrow> metrics \<Rightarrow> session_phase" where
  "session_takes A config inp s mt =
     (case session_step A config inp s ([], mt) of (fin, s', _) \<Rightarrow> session_goes_on fin s')"

inductive task_step ::
  "('r, 'e, 'sdp, 'z) sfu_api_scheme \<Rightarrow> sfu_config \<Rightarrow> ('r, 'e) flow \<Rightarrow> ('r, 'e) flow \<Rightarrow> bool"
  for A config where
  stop_signal: "task_step A config w (w\<lparr>fw_stop := True\<rparr>)"
| shard_stops:
    "i < length (fw_shards w) \<Longrightarrow> t = fw_shards w ! i \<Longrightarrow> sk_phase t = Selecting \<Longrightarrow> fw_stop w \<Longrightarrow>
     shard_stop A (sk_shard t, fw_metrics w) = (s', mt') \<Longrightarrow>
     task_step A config w (set_task i (t\<lparr>sk_shard := s', sk_inbox := [], sk_phase := Stopped\<rparr>)
       (w\<lparr>fw_metrics := mt'\<rparr>))"
| shard_commanded:
    "i < length (fw_shards w) \<Longrightarrow> t = fw_shards w ! i \<Longrightarrow> sk_phase t = Selecting \<Longrightarrow>
     sk_inbox t = cmd # inbox \<Longrightarrow> shard_command A cmd (sk_shard t, fw_metrics w) = (result, s', mt') \<Longrightarrow>
     task_step A config w (set_task i (t\<lparr>sk_shard := s', sk_inbox := inbox, sk_phase := Pumping\<rparr>)
       (w\<lparr>fw_metrics := mt', fw_session := reply_to i result (fw_session w)\<rparr>))"
| shard_packet:
    "i < length (fw_shards w) \<Longrightarrow> t = fw_shards w ! i \<Longrightarrow> sk_phase t = Selecting \<Longrightarrow>
     task_step A config w (set_task i (with_engine t (handle_read A (engine_of t) d) Pumping) w)"
| shard_packet_failed:
    "i < length (fw_shards w) \<Longrightarrow> t = fw_shards w ! i \<Longrightarrow> sk_phase t = Selecting \<Longrightarrow>
     task_step A config w (set_task i (t\<lparr>sk_phase := Pumping\<rparr>) w)"
| shard_timer:
    "i < length (fw_shards w) \<Longrightarrow> t = fw_shards w ! i \<Longrightarrow> sk_phase t = Selecting \<Longrightarrow>
     task_step A config w (set_task i (with_engine t (handle_timeout A (engine_of t)) Pumping) w)"
| shard_pumps:
    "i < length (fw_shards w) \<Longrightarrow> t = fw_shards w ! i \<Longrightarrow> sk_phase t = Pumping \<Longrightarrow>
     drain_reads A (engine_of t) = Some e1 \<Longrightarrow> drain_writes A e1 [] = Some (e2, datagrams) \<Longrightarrow>
     task_step A config w (set_task i (with_engine t e2 Draining) w)"
| shard_drained:
    "i < length (fw_shards w) \<Longrightarrow> t = fw_shards w ! i \<Longrightarrow> sk_phase t = Draining \<Longrightarrow>
     poll_event A (engine_of t) = (None, e') \<Longrightarrow>
     task_step A config w (set_task i (with_engine t e' Selecting) w)"
| shard_skips:
    "i < length (fw_shards w) \<Longrightarrow> t = fw_shards w ! i \<Longrightarrow> sk_phase t = Draining \<Longrightarrow>
     poll_event A (engine_of t) = (Some ev, e') \<Longrightarrow>
     encode_engine_event A (sh_projection (sk_shard t)) ev = None \<Longrightarrow>
     task_step A config w (set_task i (with_engine t e' Draining) w)"
| shard_encodes:
    "i < length (fw_shards w) \<Longrightarrow> t = fw_shards w ! i \<Longrightarrow> sk_phase t = Draining \<Longrightarrow>
     poll_event A (engine_of t) = (Some ev, e') \<Longrightarrow>
     encode_engine_event A (sh_projection (sk_shard t)) ev = Some kind \<Longrightarrow>
     next_nonzero (fw_next_event_id w) = (request_id, next_event_id') \<Longrightarrow>
     task_step A config w (set_task i
       (with_engine t e' (Sending \<lparr>ev_request_id = request_id, ev_event = Some kind\<rparr>))
       (w\<lparr>fw_next_event_id := next_event_id'\<rparr>))"
| shard_sends:
    "i < length (fw_shards w) \<Longrightarrow> t = fw_shards w ! i \<Longrightarrow> sk_phase t = Sending msg \<Longrightarrow>
     fw_events_open w \<Longrightarrow> length (fw_events w) < CHANNEL_CAPACITY \<Longrightarrow>
     task_step A config w (set_task i (t\<lparr>sk_phase := Draining\<rparr>) (w\<lparr>fw_events := fw_events w @ [msg]\<rparr>))"
| shard_send_fails:
    "i < length (fw_shards w) \<Longrightarrow> t = fw_shards w ! i \<Longrightarrow> sk_phase t = Sending msg \<Longrightarrow>
     \<not> fw_events_open w \<Longrightarrow> task_step A config w (set_task i (t\<lparr>sk_phase := Selecting\<rparr>) w)"
| session_unreachable:
    "fw_session w = Opening pending \<Longrightarrow> task_step A config w (w\<lparr>fw_session := Sleeping pending\<rparr>)"
| session_connects:
    "fw_session w = Opening pending \<Longrightarrow> next_nonzero (fw_next_event_id w) = (request_id, next_event_id') \<Longrightarrow>
     task_step A config w (w\<lparr>fw_session := Registering request_id (open_session config request_id pending),
       fw_taken := 0, fw_incoming := [], fw_next_event_id := next_event_id'\<rparr>)"
| session_registers:
    "fw_session w = Registering request_id s \<Longrightarrow> fw_incoming w = msg # incoming \<Longrightarrow>
     registration_answer msg request_id = Inr registered \<Longrightarrow>
     task_step A config w (w\<lparr>fw_session := Resending (map snd (ss_pending s)) s, fw_incoming := incoming\<rparr>)"
| session_refused:
    "fw_session w = Registering request_id s \<Longrightarrow> fw_incoming w = msg # incoming \<Longrightarrow>
     registration_answer msg request_id = Inl err \<Longrightarrow>
     task_step A config w (w\<lparr>fw_session := Sleeping (ss_pending s), fw_incoming := incoming\<rparr>)"
| session_resends:
    "fw_session w = Resending (event # events) s \<Longrightarrow> outgoing_ready (fw_taken w) s \<Longrightarrow>
     task_step A config w (w\<lparr>fw_session := resend_event event events s\<rparr>)"
| session_resent:
    "fw_session w = Resending [] s \<Longrightarrow> next_nonzero (fw_next_event_id w) = (request_id, next_event_id') \<Longrightarrow>
     task_step A config w (w\<lparr>fw_session := queue_event (health_event config (fw_metrics w) request_id) s,
       fw_next_event_id := next_event_id'\<rparr>)"
| session_sends:
    "fw_session w = Queueing msg s \<Longrightarrow> outgoing_ready (fw_taken w) s \<Longrightarrow>
     task_step A config w (w\<lparr>fw_session := send_message msg s\<rparr>)"
| session_wakes:
    "fw_session w = Sleeping pending \<Longrightarrow> task_step A config w (w\<lparr>fw_session := Opening pending\<rparr>)"
| session_stops_asleep:
    "fw_session w = Sleeping pending \<Longrightarrow> fw_stop w \<Longrightarrow> task_step A config w (w\<lparr>fw_session := Over\<rparr>)"
| session_stops:
    "fw_session w = InSession s \<Longrightarrow> fw_stop w \<Longrightarrow>
     task_step A config w (w\<lparr>fw_session := session_takes A config StopSignal s (fw_metrics w)\<rparr>)"
| session_ticks:
    "fw_session w = InSession s \<Longrightarrow> next_nonzero (fw_next_event_id w) = (request_id, next_event_id') \<Longrightarrow>
     task_step A config w (w\<lparr>fw_session := queue_event (health_event config (fw_metrics w) request_id) s,
       fw_next_event_id := next_event_id'\<rparr>)"
| session_event:
    "fw_session w = InSession s \<Longrightarrow> fw_events w = event # events \<Longrightarrow>
     task_step A config w (w\<lparr>fw_session := queue_event event s, fw_events := events\<rparr>)"
| session_no_shards:
    "fw_session w = InSession s \<Longrightarrow> fw_events w = [] \<Longrightarrow> \<forall>t \<in> set (fw_shards w). sk_phase t = Stopped \<Longrightarrow>
     task_step A config w (w\<lparr>fw_session := session_takes A config (MediaEvent None) s (fw_metrics w)\<rparr>)"
| session_message:
    "fw_session w = InSession s \<Longrightarrow> fw_incoming w = msg # incoming \<Longrightarrow> no_command msg \<Longrightarrow>
     task_step A config w (w\<lparr>fw_session := session_takes A config (Incoming msg) s (fw_metrics w),
       fw_incoming := incoming\<rparr>)"
| session_rejects:
    "fw_session w = InSession s \<Longrightarrow> fw_incoming w = Inr (Some (Some (CommandMsg cmd))) # incoming \<Longrightarrow>
     dispatch_target A cmd (fw_shards w) = Inl result \<Longrightarrow>
     task_step A config w (w\<lparr>fw_session := Queueing (CommandResultMsg result) s, fw_incoming := incoming\<rparr>)"
| session_dispatches:
    "fw_session w = InSession s \<Longrightarrow> fw_incoming w = Inr (Some (Some (CommandMsg cmd))) # incoming \<Longrightarrow>
     dispatch_target A cmd (fw_shards w) = Inr i \<Longrightarrow> t = fw_shards w ! i \<Longrightarrow> length (sk_inbox t) < CHANNEL_CAPACITY \<Longrightarrow>
     task_step A config w (set_task i (t\<lparr>sk_inbox := sk_inbox t @ [cmd]\<rparr>)
       (w\<lparr>fw_session := Awaiting s i (cmd_request_id cmd), fw_incoming := incoming\<rparr>))"
| session_loses_shard:
    "fw_session w = Awaiting s i request_id \<Longrightarrow> sk_phase (fw_shards w ! i) = Stopped \<Longrightarrow>
     task_step A config w (w\<lparr>fw_session := Queueing (CommandResultMsg
       (command_error request_id WorkerUnavailable ''media shard stopped'')) s\<rparr>)"
| run_drops_events:
    "fw_session w = Over \<Longrightarrow> task_step A config w (w\<lparr>fw_events_open := False, fw_events := []\<rparr>)"

text \<open>
  What the transport does to the session: it takes a message to send, delivers something from the
  stream (a message, an error or the end), or drops the stream.
\<close>

inductive transport_step :: "('r, 'e) flow \<Rightarrow> ('r, 'e) flow \<Rightarrow> bool" where
  transport_takes:
    "phase_session (fw_session w) = Some s \<Longrightarrow> ss_out_open s \<Longrightarrow> fw_taken w < length (ss_outgoing s) \<Longrightarrow>
     transport_step w (w\<lparr>fw_taken := Suc (fw_taken w)\<rparr>)"
| transport_delivers: "transport_step w (w\<lparr>fw_incoming := fw_incoming w @ [msg]\<rparr>)"
| transport_drops: "transport_step w (w\<lparr>fw_session := drop_outgoing (fw_session w)\<rparr>)"

definition flow_step ::
  "('r, 'e, 'sdp, 'z) sfu_api_scheme \<Rightarrow> sfu_config \<Rightarrow> ('r, 'e) flow \<Rightarrow> ('r, 'e) flow \<Rightarrow> bool" where
  "flow_step A config w w' \<longleftrightarrow> task_step A config w w' \<or> transport_step w w'"

abbreviation task_steps ::
  "('r, 'e, 'sdp, 'z) sfu_api_scheme \<Rightarrow> sfu_config \<Rightarrow> ('r, 'e) flow \<Rightarrow> ('r, 'e) flow \<Rightarrow> bool" where
  "task_steps A config \<equiv> (task_step A config)\<^sup>*\<^sup>*"

abbreviation flow_steps ::
  "('r, 'e, 'sdp, 'z) sfu_api_scheme \<Rightarrow> sfu_config \<Rightarrow> ('r, 'e) flow \<Rightarrow> ('r, 'e) flow \<Rightarrow> bool" where
  "flow_steps A config \<equiv> (flow_step A config)\<^sup>*\<^sup>*"


lemma fw_set_task [simp]:
  "fw_shards (set_task i t w) = (fw_shards w)[i := t]" "fw_metrics (set_task i t w) = fw_metrics w"
  "fw_next_event_id (set_task i t w) = fw_next_event_id w" "fw_events (set_task i t w) = fw_events w"
  "fw_events_open (set_task i t w) = fw_events_open w" "fw_session (set_task i t w) = fw_session w"
  "fw_stop (set_task i t w) = fw_stop w" "fw_taken (set_task i t w) = fw_taken w"
  "fw_incoming (set_task i t w) = fw_incoming w"
  by (simp_all add: set_task_def)

lemma with_engine_simps [simp]:
  "sk_phase (with_engine t e phase) = phase" "sk_inbox (with_engine t e phase) = sk_inbox t"
  "sk_shard (with_engine t e phase) = (sk_shard t)\<lparr>sh_engine := e\<rparr>"
  by (simp_all add: with_engine_def)

text \<open>
  The atomic \<open>dispatch_command\<close> of the sequential model is the send to the shard followed by the shard's
  reply, as long as the tasks that have ended are those of the stopped shards.
\<close>

definition phases_agree :: "('r, 'e) flow \<Rightarrow> bool" where
  "phases_agree w \<longleftrightarrow> (\<forall>i < length (fw_shards w).
     sk_phase (fw_shards w ! i) = Stopped \<longleftrightarrow> \<not> sh_running (sk_shard (fw_shards w ! i)))"

lemma dispatch_target_index: "dispatch_target A cmd media = Inr i \<Longrightarrow> i < length media"
  by (auto simp: dispatch_target_def Let_def split: option.splits if_splits)

lemma phases_agree_step:
  assumes "task_step A config w w'" and "phases_agree w"
  shows "phases_agree w'"
  using assms
  by (cases rule: task_step.cases)
    (auto simp: phases_agree_def nth_list_update shard_stop_def dispatch_target_index
      dest: shard_command_running)

interpretation phases: step_invariant "flow_step A config" phases_agree for A config
proof
  show "phases_agree w'" if "phases_agree w" "flow_step A config w w'" for w w'
    using that phases_agree_step [of A config w w']
    by (auto simp: flow_step_def phases_agree_def elim!: transport_step.cases)
qed

lemma phases_agree_reachable: "flow_steps A config (initial_flow engines) w \<Longrightarrow> phases_agree w"
  by (erule phases.reachable) (simp add: phases_agree_def initial_flow_def new_shard_def)

lemma dispatch_command_target:
  assumes "phases_agree w"
  shows "dispatch_command A cmd (map sk_shard (fw_shards w), mt) =
    (case dispatch_target A cmd (fw_shards w) of
       Inl result \<Rightarrow> (result, map sk_shard (fw_shards w), mt)
     | Inr i \<Rightarrow>
         (case shard_command A cmd (sk_shard (fw_shards w ! i), mt) of
            (result, s, mt') \<Rightarrow> (result, (map sk_shard (fw_shards w))[i := s], mt')))"
  using assms
  by (auto simp: dispatch_command_def dispatch_target_def phases_agree_def Let_def
      split: option.splits prod.splits)

text \<open>The sends of the sequential model, where they do not have to wait.\<close>

lemma queue_health_event:
  assumes "next_nonzero next_event_id = (request_id, next_event_id')"
  shows "queue_health config mt next_event_id s =
    (case send_out (EventMsg (health_event config mt request_id))
       (s\<lparr>ss_pending := hm_insert request_id (health_event config mt request_id) (ss_pending s)\<rparr>) of
       (r, s') \<Rightarrow> (r, next_event_id', s'))"
  by (simp add: queue_health_def health_event_def assms split: prod.splits)

lemma queued_event_flows:
  assumes "fw_session w = queue_event event s" and "outgoing_ready (fw_taken w) s"
    and "finish_send (send_out (EventMsg event)
      (s\<lparr>ss_pending := hm_insert (ev_request_id event) event (ss_pending s)\<rparr>)) () = (fin, s', ())"
  shows "task_step A config w (w\<lparr>fw_session := session_goes_on fin s'\<rparr>)"
proof -
  let ?s = "s\<lparr>ss_pending := hm_insert (ev_request_id event) event (ss_pending s)\<rparr>"
  have "task_step A config w (w\<lparr>fw_session := send_message (EventMsg event) ?s\<rparr>)"
    by (rule task_step.session_sends) (use assms(1,2) in \<open>simp_all add: queue_event_def outgoing_ready_def\<close>)
  with assms(3) show ?thesis by (simp add: send_message_def)
qed

lemma resending_flows:
  assumes "fw_session w = Resending events s" and "ss_out_open s"
    and "length (ss_outgoing s) + length events \<le> fw_taken w + CHANNEL_CAPACITY"
  shows "task_steps A config w (w\<lparr>fw_session :=
    Resending [] (s\<lparr>ss_outgoing := ss_outgoing s @ map EventMsg events\<rparr>)\<rparr>)"
  using assms
proof (induction events arbitrary: w s)
  case Nil
  then have "w\<lparr>fw_session := Resending [] s\<rparr> = w" by simp
  then show ?case by simp
next
  case (Cons event events)
  let ?s = "s\<lparr>ss_outgoing := ss_outgoing s @ [EventMsg event]\<rparr>"
  have "task_step A config w (w\<lparr>fw_session := resend_event event events s\<rparr>)"
    by (rule task_step.session_resends) (use Cons.prems in \<open>simp_all add: outgoing_ready_def\<close>)
  moreover have "resend_event event events s = Resending events ?s"
    using Cons.prems(2) by (simp add: resend_event_def send_out_def)
  ultimately show ?case
    using Cons.IH [of "w\<lparr>fw_session := Resending events ?s\<rparr>" ?s] Cons.prems
    by (simp add: converse_rtranclp_into_rtranclp)
qed

lemma session_start_answer:
  assumes "next_nonzero next_event_id = (q, n1)" and "next_nonzero n1 = (q2, n2)"
  shows "session_start config mt next_event_id incoming pending =
    (let s0 = open_session config q pending; event = health_event config mt q2
     in case registration_answer (incoming q) q of
          Inl err \<Rightarrow> (Inl err, n1, s0)
        | Inr registered \<Rightarrow> (Inr registered, n2, s0\<lparr>ss_pending := hm_insert q2 event pending,
            ss_outgoing := ss_outgoing s0 @ map EventMsg (map snd pending) @ [EventMsg event]\<rparr>))"
proof (cases "incoming q")
  case (Inr response)
  then show ?thesis
    by (cases response; cases "decode_registration (the response) q")
      (simp_all add: session_start_def assms(1) queue_health_event [OF assms(2)] open_session_def
        registration_answer_def send_events_open send_out_def Let_def split: prod.splits)
qed (simp add: session_start_def assms(1) open_session_def registration_answer_def)

lemma tasks_flow: "task_steps A config w w' \<Longrightarrow> flow_steps A config w w'"
  by (rule rtranclp_mono [THEN predicate2D]) (auto simp: flow_step_def)

lemma session_start_flows:
  assumes "fw_session w = Opening pending" and "length pending + 2 \<le> CHANNEL_CAPACITY"
    and start: "session_start config (fw_metrics w) (fw_next_event_id w) incoming pending = (Inr registered, next', s)"
  shows "flow_steps A config w (w\<lparr>fw_taken := 0, fw_incoming := [], fw_next_event_id := next', fw_session := InSession s\<rparr>)"
proof -
  obtain q n1 where q: "next_nonzero (fw_next_event_id w) = (q, n1)" by fastforce
  obtain q2 n2 where q2: "next_nonzero n1 = (q2, n2)" by fastforce
  let ?s0 = "open_session config q pending"
  let ?s1 = "?s0\<lparr>ss_outgoing := ss_outgoing ?s0 @ map EventMsg (map snd pending)\<rparr>"
  let ?event = "health_event config (fw_metrics w) q2"
  have answer: "registration_answer (incoming q) q = Inr registered" and s: "next' = n2"
    "finish_send (send_out (EventMsg ?event)
      (?s1\<lparr>ss_pending := hm_insert (ev_request_id ?event) ?event (ss_pending ?s1)\<rparr>)) () = (None, s, ())"
    using start
    by (auto simp: session_start_answer [OF q q2] open_session_def Let_def send_out_def finish_send_def
        health_event_def split: sum.splits)
  let ?v = "w\<lparr>fw_session := Registering q ?s0, fw_taken := 0, fw_incoming := [], fw_next_event_id := n1\<rparr>"
  let ?w0 = "?v\<lparr>fw_incoming := [incoming q]\<rparr>"
  let ?w1 = "?w0\<lparr>fw_session := Resending (map snd (ss_pending ?s0)) ?s0, fw_incoming := []\<rparr>"
  let ?w2 = "?w1\<lparr>fw_session := Resending [] ?s1\<rparr>"
  let ?w3 = "?w2\<lparr>fw_session := queue_event ?event ?s1, fw_next_event_id := n2\<rparr>"
  have "flow_step A config w ?v"
    unfolding flow_step_def by (rule disjI1 [OF task_step.session_connects [OF assms(1) q]])
  moreover have "flow_step A config ?v ?w0"
    using transport_step.transport_delivers [of ?v "incoming q"] by (simp add: flow_step_def)
  moreover have "task_step A config ?w0 ?w1"
    by (rule task_step.session_registers [OF _ _ answer]) simp_all
  moreover have "task_steps A config ?w1 ?w2"
    using resending_flows [of ?w1 "map snd pending" ?s0 A config] assms(2) by (simp add: open_session_def)
  moreover have "task_step A config ?w2 ?w3"
    using task_step.session_resent [of ?w2 ?s1 q2 n2 A config] q2 by simp
  moreover have "task_step A config ?w3 (?w3\<lparr>fw_session := session_goes_on None s\<rparr>)"
    by (rule queued_event_flows [OF _ _ s(2)])
      (use assms(2) in \<open>simp_all add: outgoing_ready_def open_session_def\<close>)
  ultimately have run: "task_steps A config ?w0 (?w3\<lparr>fw_session := session_goes_on None s\<rparr>)"
    "flow_steps A config w ?w0"
    by (meson converse_rtranclp_into_rtranclp rtranclp.rtrancl_into_rtrancl rtranclp_trans r_into_rtranclp)+
  from rtranclp_trans [OF run(2) tasks_flow [OF run(1)]] s(1) show ?thesis by simp
qed

section \<open>A full event channel can jam the worker\<close>

text \<open>
  The session waits for the reply of a shard, the shard waits for room in the event channel, and only
  the session takes events out of that channel.
\<close>

fun awaited :: "session_phase \<Rightarrow> (nat \<times> u64) option" where
  "awaited (Awaiting s i request_id) = Some (i, request_id)"
| "awaited _ = None"

definition jammed :: "nat \<Rightarrow> ('r, 'e) flow \<Rightarrow> bool" where
  "jammed i w \<longleftrightarrow> i < length (fw_shards w) \<and>
     (\<exists>msg. sk_phase (fw_shards w ! i) = Sending msg) \<and> sk_inbox (fw_shards w ! i) \<noteq> [] \<and>
     fw_events_open w \<and> \<not> length (fw_events w) < CHANNEL_CAPACITY \<and>
     (\<exists>request_id. awaited (fw_session w) = Some (i, request_id))"

lemma awaited_Some: "awaited phase = Some (i, q) \<longleftrightarrow> (\<exists>s. phase = Awaiting s i q)"
  by (cases phase) auto

lemma jammed_step:
  assumes "flow_step A config w w'" and "jammed i w"
  shows "jammed i w' \<and> awaited (fw_session w') = awaited (fw_session w) \<and> fw_events w' = fw_events w \<and>
    fw_shards w' ! i = fw_shards w ! i"
  using assms(1) unfolding flow_step_def
proof
  assume "task_step A config w w'"
  from this assms(2) show ?thesis
    by (cases rule: task_step.cases) (auto simp: jammed_def nth_list_update awaited_Some)
next
  assume "transport_step w w'"
  from this assms(2) show ?thesis
    by (cases rule: transport_step.cases) (auto simp: jammed_def awaited_Some)
qed

interpretation jam: step_invariant "flow_step A config" "jammed i" for A config i
  by unfold_locales (use jammed_step in blast)

text \<open>
  C11. When the event channel is full, a shard waits for room in it and the session waits for that shard's
  reply, the worker is stuck for good: whatever arrives afterwards, packets, timers and the stop signal
  included, and even when the transport drops the session's stream, the session never leaves its wait,
  the command is never answered, no event is ever taken from the channel, and the worker never stops.
\<close>
theorem jam_is_permanent:
  assumes "jammed i w" and "flow_steps A config w w'"
  shows "(\<forall>s q. fw_session w = Awaiting s i q \<longrightarrow> (\<exists>s'. fw_session w' = Awaiting s' i q)) \<and>
    fw_session w' \<noteq> Over \<and> fw_events w' = fw_events w \<and> fw_shards w' ! i = fw_shards w ! i"
proof -
  have "awaited (fw_session w') = awaited (fw_session w)" "fw_events w' = fw_events w"
    "fw_shards w' ! i = fw_shards w ! i"
    by (rule jam.frozen [OF _ assms(2,1)], use jammed_step in blast)+
  moreover have "jammed i w'" by (rule jam.reachable [OF assms(2,1)])
  ultimately show ?thesis by (auto simp: jammed_def awaited_Some)
qed

text \<open>
  Such a state is reachable: an engine that reports 1025 failures when a member joins fills the channel
  after the join was answered, and the next command to its shard is never answered.
\<close>

definition burst_api :: "(uuid16, nat, RTCSdpType) sfu_api" where
  "burst_api = \<lparr>as_bytes = as_bytes uuid16_api, from_bytes = from_bytes uuid16_api,
     as_u128 = as_u128 uuid16_api, is_room_uuid = is_room_uuid uuid16_api,
     handle_event = (\<lambda>n ev. (True, case ev of EJoin q r c \<Rightarrow> n + 1025 | _ \<Rightarrow> n)),
     handle_read = (\<lambda>n d. n), handle_timeout = id, engine_close = id, poll_read = (\<lambda>n. (False, n)),
     poll_write = (\<lambda>n. (None, n)),
     poll_event = (\<lambda>n. if n = 0 then (None, 0)
       else (Some (EErr 9 (Some sample_room) (Some 7) ''overload''), n - 1)),
     event_room_id = map_option fst \<circ> sample_event_member,
     event_client_id = map_option snd \<circ> sample_event_member, leave_reason_debug = (\<lambda>_. ''User''),
     candidate_default = candidate_default sample_api, json_from_str = (\<lambda>_. None),
     json_to_string = (\<lambda>_. []), sdp_from_value = (\<lambda>_. None), sdp_to_value = (\<lambda>_. JNull), sdp_type = id\<rparr>"

text \<open>The worker after \<open>n\<close> of the failures went into the channel.\<close>

definition bursting :: "nat \<Rightarrow> (uuid16, nat) flow \<Rightarrow> bool" where
  "bursting n w \<longleftrightarrow> (\<exists>s t. fw_shards w = [t] \<and> sk_inbox t = [] \<and> sk_phase t = Draining \<and>
     engine_of t = 1025 - n \<and> sh_projection (sk_shard t) = [((sample_room, 7), (1, 1))] \<and>
     fw_events_open w \<and> length (fw_events w) = n \<and> fw_session w = InSession s \<and> fw_incoming w = [])"

lemma burst_room_id: "room_id_from_bytes burst_api sample_bytes = Some sample_room"
  using sample_room_decodes by (simp add: room_id_from_bytes_def burst_api_def split: if_splits)

lemma burst_target: "sk_phase t \<noteq> Stopped \<Longrightarrow> dispatch_target burst_api sample_join [t] = Inr 0"
  by (simp add: dispatch_target_def command_room_id_def sample_join_def sample_member_def burst_room_id
      shard_index_def)

lemma burst_encodes:
  "\<exists>kind. encode_engine_event burst_api [((sample_room, 7), (1, 1))]
     (EErr 9 (Some sample_room) (Some 7) ''overload'') = Some kind"
  by (simp add: encode_engine_event_def burst_api_def)

lemma burst_step:
  assumes "bursting n w" and "n < 1024"
  shows "\<exists>w'. task_steps burst_api config w w' \<and> bursting (Suc n) w'"
proof -
  from assms(1) obtain s t where w: "fw_shards w = [t]" "sk_inbox t = []" "sk_phase t = Draining"
    "engine_of t = 1025 - n" "sh_projection (sk_shard t) = [((sample_room, 7), (1, 1))]"
    "fw_events_open w" "length (fw_events w) = n" "fw_session w = InSession s" "fw_incoming w = []"
    unfolding bursting_def by blast
  obtain kind where kind: "encode_engine_event burst_api [((sample_room, 7), (1, 1))]
     (EErr 9 (Some sample_room) (Some 7) ''overload'') = Some kind" using burst_encodes by blast
  obtain q c where qc: "next_nonzero (fw_next_event_id w) = (q, c)" by fastforce
  have poll: "poll_event burst_api (1025 - n) =
      (Some (EErr 9 (Some sample_room) (Some 7) ''overload''), 1024 - n)"
    using assms(2) by (simp add: burst_api_def)
  let ?t1 = "with_engine t (1024 - n) (Sending \<lparr>ev_request_id = q, ev_event = Some kind\<rparr>)"
  let ?w1 = "set_task 0 ?t1 (w\<lparr>fw_next_event_id := c\<rparr>)"
  have "task_step burst_api config w ?w1"
    by (rule task_step.shard_encodes [of 0 w t]) (use w poll kind qc in simp_all)
  moreover let ?w2 = "set_task 0 (?t1\<lparr>sk_phase := Draining\<rparr>)
      (?w1\<lparr>fw_events := fw_events ?w1 @ [\<lparr>ev_request_id = q, ev_event = Some kind\<rparr>]\<rparr>)"
  have "task_step burst_api config ?w1 ?w2"
    by (rule task_step.shard_sends [of 0 ?w1]) (use w assms(2) in \<open>simp_all add: CHANNEL_CAPACITY_def\<close>)
  ultimately have "task_steps burst_api config w ?w2"
    by (meson converse_rtranclp_into_rtranclp r_into_rtranclp)
  moreover have "bursting (Suc n) ?w2"
    unfolding bursting_def using w by (simp add: bursting_def)
  ultimately show ?thesis by blast
qed


lemma burst_joins:
  "\<exists>result s mt. shard_command burst_api sample_join (new_shard 0, \<lparr>mt_rooms = 0, mt_clients = 0\<rparr>) = (result, s, mt) \<and>
     sh_engine s = 1025 \<and> sh_projection s = [((sample_room, 7), (1, 1))]"
proof -
  have "apply_command burst_api 0 [] sample_join =
      (command_outcome 1 (Inr (MemberJoined (sample_member 7 1 1))), 1025, [((sample_room, 7), (1, 1))])"
    by (simp add: apply_command_def sample_join_def sample_member_def burst_room_id apply_join_def)
      (simp add: burst_api_def)
  then show ?thesis
    by (simp add: shard_command_def new_shard_def sample_join_def split: prod.splits)
qed

lemma burst_starts: "\<exists>w. flow_steps burst_api sample_config (initial_flow [0]) w \<and> bursting 0 w"
proof -
  let ?t = "\<lparr>sk_shard = new_shard 0, sk_inbox = [], sk_phase = Selecting\<rparr> :: (uuid16, nat) shard_task"
  let ?mt = "\<lparr>mt_rooms = 0, mt_clients = 0\<rparr>"
  let ?w0 = "initial_flow [0] :: (uuid16, nat) flow"
  let ?incoming = "\<lambda>q. Inr (Some (Some (RegisteredMsg
    \<lparr>rr_context = Some q, rr_result = Some (RegisteredOk 5 False)\<rparr>)))"
  obtain s next' where s: "session_start sample_config ?mt 1 ?incoming [] = (Inr (5, False), next', s)"
    "ss_out_open s" "length (ss_outgoing s) = 2"
    by (simp add: session_start_def next_nonzero_eq decode_registration_def send_out_def
        queue_health_def Let_def)
  have w0: "fw_session ?w0 = Opening []" "fw_metrics ?w0 = ?mt" "fw_next_event_id ?w0 = 1"
    "fw_shards ?w0 = [?t]" "fw_events ?w0 = []" "fw_events_open ?w0"
    by (simp_all add: initial_flow_def)
  let ?w1 = "?w0\<lparr>fw_taken := 0, fw_incoming := [], fw_next_event_id := next', fw_session := InSession s\<rparr>"
  have 1: "flow_steps burst_api sample_config ?w0 ?w1"
    by (rule session_start_flows) (use w0 s(1) in \<open>simp_all add: CHANNEL_CAPACITY_def\<close>)
  let ?v1 = "?w1\<lparr>fw_incoming := [Inr (Some (Some (CommandMsg sample_join)))]\<rparr>"
  have "flow_step burst_api sample_config ?w1 ?v1"
    using transport_step.transport_delivers [of ?w1 "Inr (Some (Some (CommandMsg sample_join)))"] w0
    by (simp add: flow_step_def)
  with 1 have 1: "flow_steps burst_api sample_config ?w0 ?v1" by (rule rtranclp.rtrancl_into_rtrancl)
  let ?t1 = "?t\<lparr>sk_inbox := sk_inbox ?t @ [sample_join]\<rparr>"
  let ?w2 = "set_task 0 ?t1 (?v1\<lparr>fw_session := Awaiting s 0 (cmd_request_id sample_join), fw_incoming := []\<rparr>)"
  have 2: "task_step burst_api sample_config ?v1 ?w2"
    by (rule task_step.session_dispatches)
      (use w0 in \<open>simp_all add: CHANNEL_CAPACITY_def burst_target\<close>)
  obtain result s1 mt1 where c: "shard_command burst_api sample_join (new_shard 0, ?mt) = (result, s1, mt1)"
    "sh_engine s1 = 1025" "sh_projection s1 = [((sample_room, 7), (1, 1))]" using burst_joins by blast
  let ?t2 = "?t1\<lparr>sk_shard := s1, sk_inbox := [], sk_phase := Pumping\<rparr>"
  let ?w3 = "set_task 0 ?t2 (?w2\<lparr>fw_metrics := mt1, fw_session := reply_to 0 result (fw_session ?w2)\<rparr>)"
  have 3: "task_step burst_api sample_config ?w2 ?w3"
    by (rule task_step.shard_commanded [of 0 ?w2 ?t1]) (use w0 c in simp_all)
  let ?w4 = "?w3\<lparr>fw_session := send_message (CommandResultMsg result) s\<rparr>"
  have 4: "task_step burst_api sample_config ?w3 ?w4"
    by (rule task_step.session_sends) (use w0 s(3) in \<open>simp_all add: outgoing_ready_def CHANNEL_CAPACITY_def\<close>)
  let ?w5 = "set_task 0 (with_engine ?t2 1025 Draining) ?w4"
  have "drain_reads burst_api 1025 = Some 1025"
    by (subst drain_reads.simps) (simp add: burst_api_def)
  moreover have "drain_writes burst_api 1025 [] = Some (1025, [])"
    by (subst drain_writes.simps) (simp add: burst_api_def)
  ultimately have 5: "task_step burst_api sample_config ?w4 ?w5"
    using c(2) w0 by (intro task_step.shard_pumps [of 0 ?w4 ?t2]) simp_all
  have "task_steps burst_api sample_config ?v1 ?w5"
    using 2 3 4 5 by (meson converse_rtranclp_into_rtranclp r_into_rtranclp)
  from rtranclp_trans [OF 1 tasks_flow [OF this]] have "flow_steps burst_api sample_config ?w0 ?w5" .
  moreover have "bursting 0 ?w5"
    unfolding bursting_def using w0 c s(2) by (simp add: send_message_def send_out_def finish_send_def)
  ultimately show ?thesis by blast
qed

lemma burst_fills: "n \<le> 1024 \<Longrightarrow> \<exists>w. flow_steps burst_api sample_config (initial_flow [0]) w \<and> bursting n w"
proof (induction n)
  case (Suc n)
  then obtain w where "flow_steps burst_api sample_config (initial_flow [0]) w" "bursting n w" by auto
  with burst_step [of n w sample_config] Suc.prems show ?case by (meson Suc_le_lessD rtranclp_trans tasks_flow)
qed (rule burst_starts)

lemma burst_jams: "\<exists>w. flow_steps burst_api sample_config (initial_flow [0]) w \<and> jammed 0 w"
proof -
  obtain w where reach: "flow_steps burst_api sample_config (initial_flow [0]) w" and "bursting 1024 w"
    using burst_fills [of 1024] by auto
  then obtain s t where w: "fw_shards w = [t]" "sk_inbox t = []" "sk_phase t = Draining"
    "engine_of t = 1" "sh_projection (sk_shard t) = [((sample_room, 7), (1, 1))]"
    "fw_events_open w" "length (fw_events w) = 1024" "fw_session w = InSession s" "fw_incoming w = []"
    unfolding bursting_def by auto
  obtain kind where kind: "encode_engine_event burst_api [((sample_room, 7), (1, 1))]
     (EErr 9 (Some sample_room) (Some 7) ''overload'') = Some kind" using burst_encodes by blast
  obtain q c where qc: "next_nonzero (fw_next_event_id w) = (q, c)" by fastforce
  let ?t1 = "with_engine t 0 (Sending \<lparr>ev_request_id = q, ev_event = Some kind\<rparr>)"
  let ?w1 = "set_task 0 ?t1 (w\<lparr>fw_next_event_id := c\<rparr>)"
  have 1: "task_step burst_api sample_config w ?w1"
    by (rule task_step.shard_encodes [of 0 w t])
      (use w kind qc in \<open>simp_all add: burst_api_def\<close>)
  let ?v1 = "?w1\<lparr>fw_incoming := fw_incoming ?w1 @ [Inr (Some (Some (CommandMsg sample_join)))]\<rparr>"
  have deliver: "flow_step burst_api sample_config ?w1 ?v1"
    unfolding flow_step_def by (rule disjI2 [OF transport_step.transport_delivers])
  let ?w2 = "set_task 0 (?t1\<lparr>sk_inbox := sk_inbox ?t1 @ [sample_join]\<rparr>)
      (?v1\<lparr>fw_session := Awaiting s 0 (cmd_request_id sample_join), fw_incoming := []\<rparr>)"
  have 2: "task_step burst_api sample_config ?v1 ?w2"
    by (rule task_step.session_dispatches)
      (use w in \<open>simp_all add: CHANNEL_CAPACITY_def burst_target\<close>)
  have "jammed 0 ?w2" using w by (simp add: jammed_def CHANNEL_CAPACITY_def)
  moreover have "flow_steps burst_api sample_config (initial_flow [0]) ?w2"
    by (rule rtranclp.rtrancl_into_rtrancl [OF rtranclp.rtrancl_into_rtrancl
          [OF rtranclp.rtrancl_into_rtrancl [OF reach] deliver]])
      (unfold flow_step_def, rule disjI1 [OF 1], rule disjI1 [OF 2])
  ultimately show ?thesis by blast
qed

theorem jam_is_permanent_witness:
  "\<exists>w. flow_steps burst_api sample_config (initial_flow [0]) w \<and>
     (\<forall>w'. flow_steps burst_api sample_config (w\<lparr>fw_stop := True\<rparr>) w' \<longrightarrow> fw_session w' \<noteq> Over)"
proof -
  obtain w where w: "flow_steps burst_api sample_config (initial_flow [0]) w" "jammed 0 w"
    using burst_jams by blast
  have "jammed 0 (w\<lparr>fw_stop := True\<rparr>)" using w(2) by (simp add: jammed_def)
  from jam_is_permanent [OF this] w(1) show ?thesis by blast
qed


section \<open>Stopping the worker\<close>

text \<open>\<open>stops_task A config i w w'\<close>: from \<open>w\<close> shard \<open>i\<close> can end on its own, and nothing else moves but counters.\<close>

definition stops_task ::
  "('r, 'e, 'sdp, 'z) sfu_api_scheme \<Rightarrow> sfu_config \<Rightarrow> nat \<Rightarrow> ('r, 'e) flow \<Rightarrow> ('r, 'e) flow \<Rightarrow> bool" where
  "stops_task A config i w w' \<longleftrightarrow> task_steps A config w w' \<and> fw_session w' = fw_session w \<and>
     fw_stop w' = fw_stop w \<and> fw_events_open w' = fw_events_open w \<and>
     (\<exists>t. fw_shards w' = (fw_shards w)[i := t] \<and> sk_phase t = Stopped)"

lemma stops_task_step:
  assumes "task_step A config w (set_task i t (w\<lparr>fw_next_event_id := n\<rparr>))"
    and "stops_task A config i (set_task i t (w\<lparr>fw_next_event_id := n\<rparr>)) w'"
  shows "stops_task A config i w w'"
  using assms by (auto simp: stops_task_def intro: converse_rtranclp_into_rtranclp)

lemma stops_task_engine:
  assumes "task_step A config w (set_task i t w)" and "\<exists>w'. stops_task A config i (set_task i t w) w'"
  shows "\<exists>w'. stops_task A config i w w'"
  using assms stops_task_step [of A config w i t "fw_next_event_id w"] by auto

lemma selecting_stops:
  assumes "i < length (fw_shards w)" and "fw_stop w" and "sk_phase (fw_shards w ! i) = Selecting"
  shows "\<exists>w'. stops_task A config i w w'"
proof -
  let ?t = "fw_shards w ! i"
  obtain s mt where "shard_stop A (sk_shard ?t, fw_metrics w) = (s, mt)" by fastforce
  from task_step.shard_stops [OF assms(1) refl assms(3,2) this, of config]
  have "stops_task A config i w (set_task i (?t\<lparr>sk_shard := s, sk_inbox := [], sk_phase := Stopped\<rparr>)
      (w\<lparr>fw_metrics := mt\<rparr>))"
    unfolding stops_task_def by auto
  then show ?thesis by blast
qed

lemma draining_stops:
  assumes "polls_finite A reads writes pending" and "i < length (fw_shards w)" and "fw_stop w"
    and "\<not> fw_events_open w" and "sk_phase (fw_shards w ! i) = Draining"
  shows "\<exists>w'. stops_task A config i w w'"
  using assms(2-5)
proof (induction "pending (engine_of (fw_shards w ! i))" arbitrary: w rule: less_induct)
  case less
  let ?t = "fw_shards w ! i"
  obtain o_ev e' where poll: "poll_event A (engine_of ?t) = (o_ev, e')" by fastforce
  show ?case
  proof (cases o_ev)
    case None
    note step = task_step.shard_drained [OF less.prems(1) refl less.prems(4) poll [unfolded None]]
    show ?thesis by (rule stops_task_engine [OF step], rule selecting_stops) (use less.prems in simp_all)
  next
    case (Some ev)
    with assms(1) poll have dec: "pending e' < pending (engine_of ?t)" by (auto simp: polls_finite_def)
    show ?thesis
    proof (cases "encode_engine_event A (sh_projection (sk_shard ?t)) ev")
      case None
      note step = task_step.shard_skips [OF less.prems(1) refl less.prems(4) poll [unfolded Some] None]
      show ?thesis
        by (rule stops_task_engine [OF step], rule less.hyps) (use less.prems dec in simp_all)
    next
      case encoded: (Some kind)
      obtain q n where q: "next_nonzero (fw_next_event_id w) = (q, n)" by fastforce
      let ?msg = "\<lparr>ev_request_id = q, ev_event = Some kind\<rparr>"
      let ?w1 = "set_task i (with_engine ?t e' (Sending ?msg)) (w\<lparr>fw_next_event_id := n\<rparr>)"
      let ?t1 = "with_engine ?t e' (Sending ?msg)"
      have t1: "fw_shards ?w1 ! i = ?t1" using less.prems(1) by simp
      have step: "task_step A config ?w1 (set_task i (?t1\<lparr>sk_phase := Selecting\<rparr>) ?w1)"
        by (rule task_step.shard_send_fails [where msg = ?msg]) (use less.prems t1 in simp_all)
      have "\<exists>w'. stops_task A config i ?w1 w'"
        by (rule stops_task_engine [OF step], rule selecting_stops) (use less.prems in simp_all)
      with task_step.shard_encodes [OF less.prems(1) refl less.prems(4) poll [unfolded Some] encoded q]
      show ?thesis by (blast intro: stops_task_step)
    qed
  qed
qed


lemma shard_stops_once_closed:
  assumes "polls_finite A reads writes pending" and "i < length (fw_shards w)" and "fw_stop w"
    and "\<not> fw_events_open w"
  shows "\<exists>w'. stops_task A config i w w'"
proof (cases "sk_phase (fw_shards w ! i)")
  case Selecting
  with assms show ?thesis by (intro selecting_stops)
next
  case Pumping
  obtain e1 where e1: "drain_reads A (engine_of (fw_shards w ! i)) = Some e1"
    using drain_reads_returns [OF assms(1)] by blast
  obtain e2 ds where e2: "drain_writes A e1 [] = Some (e2, ds)"
    using drain_writes_returns [OF assms(1), of e1 "[]"] by auto
  note step = task_step.shard_pumps [OF assms(2) refl Pumping e1 e2]
  show ?thesis
    by (rule stops_task_engine [OF step], rule draining_stops [OF assms(1)]) (use assms in simp_all)
next
  case Draining
  with assms show ?thesis by (intro draining_stops [OF assms(1)])
next
  case (Sending msg)
  note step = task_step.shard_send_fails [OF assms(2) refl Sending assms(4)]
  show ?thesis by (rule stops_task_engine [OF step], rule selecting_stops) (use assms in simp_all)
next
  case Stopped
  then have "stops_task A config i w w"
    unfolding stops_task_def by (intro conjI exI [of _ "fw_shards w ! i"]) simp_all
  then show ?thesis by blast
qed

lemma all_shards_stop:
  assumes "polls_finite A reads writes pending" and "fw_stop w" and "\<not> fw_events_open w"
    and "k \<le> length (fw_shards w)"
  shows "\<exists>w'. task_steps A config w w' \<and> fw_session w' = fw_session w \<and> fw_stop w' \<and> \<not> fw_events_open w' \<and>
    length (fw_shards w') = length (fw_shards w) \<and> (\<forall>i < k. sk_phase (fw_shards w' ! i) = Stopped)"
  using assms(4)
proof (induction k)
  case (Suc k)
  then obtain w1 where w1: "task_steps A config w w1" "fw_session w1 = fw_session w" "fw_stop w1"
    "\<not> fw_events_open w1" "length (fw_shards w1) = length (fw_shards w)"
    "\<forall>i < k. sk_phase (fw_shards w1 ! i) = Stopped" by auto
  moreover obtain w2 where "stops_task A config k w1 w2"
    using shard_stops_once_closed [OF assms(1), of k w1 config] w1 Suc.prems by auto
  ultimately show ?case
    using Suc.prems
    by (intro exI [of _ w2]) (auto simp: stops_task_def nth_list_update less_Suc_eq intro: rtranclp_trans)
qed (use assms in blast)

text \<open>The phases that look at the stop signal, or come to one that does without help from outside.\<close>

fun hears_stop :: "nat \<Rightarrow> session_phase \<Rightarrow> bool" where
  "hears_stop taken (InSession s) = True"
| "hears_stop taken (Queueing msg s) = outgoing_ready taken s"
| "hears_stop taken (Sleeping pending) = True"
| "hears_stop taken Over = True"
| "hears_stop taken _ = False"

lemma session_over:
  assumes "fw_stop w" and "hears_stop (fw_taken w) (fw_session w)"
  shows "task_steps A config w (w\<lparr>fw_session := Over\<rparr>)"
proof -
  have asleep: "task_step A config v (v\<lparr>fw_session := Over\<rparr>)" if "fw_session v = Sleeping p" "fw_stop v" for v p
    using that by (rule task_step.session_stops_asleep)
  have insession: "task_step A config v (v\<lparr>fw_session := Over\<rparr>)" if "fw_session v = InSession s" "fw_stop v" for v s
    using task_step.session_stops [OF that, of A config] by (simp add: session_takes_def)
  show ?thesis
  proof (cases "fw_session w")
    case (Queueing msg s)
    let ?w1 = "w\<lparr>fw_session := send_message msg s\<rparr>"
    have "task_step A config w ?w1"
      by (rule task_step.session_sends) (use Queueing assms(2) in simp_all)
    moreover have "task_step A config ?w1 (?w1\<lparr>fw_session := Over\<rparr>)"
    proof (cases "ss_out_open s")
      case True
      then show ?thesis
        using assms(1) by (intro insession) (simp_all add: send_message_def send_out_def finish_send_def)
    next
      case False
      then show ?thesis
        using assms(1) by (intro asleep) (simp_all add: send_message_def send_out_def finish_send_def)
    qed
    ultimately show ?thesis by (auto intro: converse_rtranclp_into_rtranclp)
  next
    case Over
    then have "w\<lparr>fw_session := Over\<rparr> = w" by simp
    then show ?thesis by simp
  qed (use assms asleep insession in \<open>auto intro: r_into_rtranclp\<close>)
qed

text \<open>
  C14. A stop gets through as soon as the session's task looks at it: from a session in its loop, from the
  sleep between two sessions, and from a send for which the outgoing channel has room or is closed, the
  worker can run to its end on its own, without any help of the transport, with the session over and
  every shard stopped, whatever the shards are doing, events that wait for room in a full channel
  included.
\<close>
theorem worker_can_stop:
  assumes "polls_finite A reads writes pending" and "fw_stop w" and "hears_stop (fw_taken w) (fw_session w)"
  shows "\<exists>w'. task_steps A config w w' \<and> fw_session w' = Over \<and> \<not> fw_events_open w' \<and>
    (\<forall>t \<in> set (fw_shards w'). sk_phase t = Stopped)"
proof -
  let ?w1 = "w\<lparr>fw_session := Over\<rparr>"
  let ?w2 = "?w1\<lparr>fw_events_open := False, fw_events := []\<rparr>"
  have "task_steps A config w ?w1" using assms(2,3) by (rule session_over)
  moreover have "task_step A config ?w1 ?w2" by (rule task_step.run_drops_events) simp
  moreover obtain w' where "task_steps A config ?w2 w'" "fw_session w' = fw_session ?w2" "\<not> fw_events_open w'"
    "length (fw_shards w') = length (fw_shards ?w2)"
    "\<forall>i < length (fw_shards ?w2). sk_phase (fw_shards w' ! i) = Stopped"
    using all_shards_stop [OF assms(1), of ?w2 "length (fw_shards ?w2)" config] assms(2) by auto
  ultimately show ?thesis
    by (intro exI [of _ w']) (auto simp: in_set_conv_nth intro: rtranclp_trans)
qed

text \<open>At a worker whose shard waits for room in the event channel.\<close>

lemma burst_polls_finite: "polls_finite burst_api (\<lambda>_. 0) (\<lambda>_. 0) id"
  by (auto simp: polls_finite_def burst_api_def split: if_splits)

theorem worker_can_stop_witness:
  "\<exists>w'. task_steps burst_api sample_config
     ((initial_flow [0])\<lparr>fw_session := Sleeping [], fw_stop := True,
       fw_shards := [\<lparr>sk_shard = new_shard 3, sk_inbox = [], sk_phase = Sending sample_event\<rparr>],
       fw_events := replicate 1024 sample_event\<rparr>) w' \<and>
     fw_session w' = Over \<and> \<not> fw_events_open w' \<and> (\<forall>t \<in> set (fw_shards w'). sk_phase t = Stopped)"
  by (rule worker_can_stop [OF burst_polls_finite]) simp_all

end
