(* ===== verification/Sfu_Link.thy ===== *)
theory Sfu_Link
  imports Sfu_Flow Grpc_Service Signaling_Server
begin

text \<open>
  One worker session across the two processes: the tasks of the worker (\<open>Sfu_Flow\<close>, \<open>src/src/sfu_server.rs\<close>),
  the transport in both directions, the task of the session in the signaling service
  (\<open>open_sfu_session\<close> of \<open>src/src/grpc_server.rs\<close>) and its channels to and from the event loop. Every channel
  is bounded, and so is what the transport holds in each direction (\<open>window\<close>, its flow control); a send
  waits for room.

  What the state machine emits for the connection, the commands of others, the end of the loop and the
  loss of the connection are left open and can happen at any time.
\<close>

section \<open>Two tasks and five channels\<close>

text \<open>
  Where the task of the session is: waiting for the first message, sending the registration, in its
  \<open>select!\<close>, waiting in \<open>commands.send\<close> with an input, waiting in \<open>wire_tx.send\<close>, reporting the
  disconnection, or finished.
\<close>

datatype 'r stream_phase =
    StreamOpening
  | StreamConnecting "'r sfu_input"
  | StreamSelecting
  | StreamForwarding "'r sfu_input"
  | StreamReplying "(grpc_status, signaling_to_sfu) result"
  | StreamLeaving
  | StreamOver

text \<open>
  \<open>lk_up\<close> is under way to the service; what is under way to the worker is \<open>fw_incoming\<close> of its tasks.
  \<open>lk_commands\<close> is the command channel of the event loop, \<open>lk_outputs\<close> the channel of outputs for this
  connection, \<open>lk_wire\<close> the channel of responses. \<open>lk_read\<close>, \<open>lk_handled\<close>, \<open>lk_emitted\<close> and \<open>lk_delivered\<close>
  record what the task has read, the loop has taken, the loop has emitted and the worker was given.
\<close>

record ('r, 'e) link =
  lk_worker :: "('r, 'e) flow"
  lk_alive :: bool
  lk_up :: "sfu_to_signaling list"
  lk_stream :: "'r stream_phase"
  lk_connection :: u64
  lk_instance :: string
  lk_commands :: "'r DriverCommand list"
  lk_running :: bool
  lk_outputs :: "'r sfu_output list"
  lk_outputs_open :: bool
  lk_wire :: "(grpc_status, signaling_to_sfu) result list"
  lk_read :: "sfu_to_signaling list"
  lk_handled :: "'r DriverCommand list"
  lk_emitted :: "'r sfu_output list"
  lk_delivered :: "signaling_to_sfu list"

text \<open>A worker that has connected and sent its registration; the service has drawn \<open>connection\<close> for it.\<close>

definition new_link :: "u64 \<Rightarrow> ('r, 'e) flow \<Rightarrow> ('r, 'e) link" where
  "new_link connection w = \<lparr>lk_worker = w, lk_alive = True, lk_up = [], lk_stream = StreamOpening,
     lk_connection = connection, lk_instance = [], lk_commands = [], lk_running = True, lk_outputs = [],
     lk_outputs_open = True, lk_wire = [], lk_read = [], lk_handled = [], lk_emitted = [], lk_delivered = []\<rparr>"

definition connected_worker :: "sfu_config \<Rightarrow> ('r, 'e) flow \<Rightarrow> bool" where
  "connected_worker config w \<longleftrightarrow> (\<exists>q pending. fw_session w = Registering q (open_session config q pending)) \<and>
     fw_taken w = 0 \<and> fw_incoming w = []"

fun command_inputs :: "'r DriverCommand \<Rightarrow> 'r sfu_input list" where
  "command_inputs (SfuConnected input output) = [input]"
| "command_inputs (SfuInput input) = [input]"
| "command_inputs _ = []"

text \<open>The inputs of a connection among the commands of the loop.\<close>

definition inputs_of :: "u64 \<Rightarrow> 'r DriverCommand list \<Rightarrow> 'r sfu_input list" where
  "inputs_of connection commands =
     filter (\<lambda>input. fst (input_source input) = connection) (concat (map command_inputs commands))"

abbreviation commands_ready :: "('r, 'e) link \<Rightarrow> bool" where
  "commands_ready k \<equiv> lk_running k \<and> length (lk_commands k) < COMMAND_CAPACITY"

text \<open>What the first read of the session can give, apart from a valid registration.\<close>

fun first_reads :: "('r, 'e) link \<Rightarrow> first_read \<Rightarrow> bool" where
  "first_reads k ReadTimeout = True"
| "first_reads k (ReadFailed status) = (\<not> lk_alive k)"
| "first_reads k ReadEnd = (phase_session (fw_session (lk_worker k)) = None \<and> lk_up k = [])"
| "first_reads k (ReadMessage msg) = (lk_up k \<noteq> [] \<and> msg = Some (hd (lk_up k)))"

text \<open>
  What the task does with a message of the worker and with an output of the state machine; the output
  that has no encoding is the close.
\<close>

definition stream_takes ::
  "('r, 'z) uuid_api_scheme \<Rightarrow> instant \<Rightarrow> sfu_to_signaling \<Rightarrow> ('r, 'e) link \<Rightarrow> 'r stream_phase" where
  "stream_takes U now msg k =
     (case decode_sfu_input U now (lk_connection k) (lk_instance k) (Some msg) of
        Inr input \<Rightarrow> StreamForwarding input
      | Inl status \<Rightarrow> StreamReplying (Inl status))"

definition stream_encodes :: "('r, 'z) uuid_api_scheme \<Rightarrow> 'r sfu_output \<Rightarrow> 'r stream_phase" where
  "stream_encodes U output =
     (case encode_sfu_output U output of
        None \<Rightarrow> StreamLeaving
      | Some msg \<Rightarrow> StreamReplying (Inr msg))"

definition new_output_channel :: "'r sfu_output channel" where
  "new_output_channel = \<lparr>ch_queue = [], ch_capacity = COMMAND_CAPACITY, ch_open = True\<rparr>"

abbreviation set_incoming :: "(string, signaling_to_sfu option option) result \<Rightarrow> ('r, 'e) link \<Rightarrow> ('r, 'e) flow" where
  "set_incoming item k \<equiv> (lk_worker k)\<lparr>fw_incoming := fw_incoming (lk_worker k) @ [item]\<rparr>"

inductive link_step ::
  "('r, 'y) uuid_api_scheme \<Rightarrow> ('r, 'e, 'sdp, 'z) sfu_api_scheme \<Rightarrow> sfu_config \<Rightarrow> nat \<Rightarrow>
   ('r, 'e) link \<Rightarrow> ('r, 'e) link \<Rightarrow> bool" for U A config window where
  worker_acts:
    "\<forall>pending. fw_session (lk_worker k) \<noteq> Opening pending \<Longrightarrow> task_step A config (lk_worker k) w' \<Longrightarrow>
     link_step U A config window k (k\<lparr>lk_worker := w'\<rparr>)"
| connection_breaks: "link_step U A config window k (k\<lparr>lk_alive := False\<rparr>)"
| outgoing_dropped:
    "\<not> lk_alive k \<Longrightarrow> link_step U A config window k (k\<lparr>lk_worker := (lk_worker k)
       \<lparr>fw_session := drop_outgoing (fw_session (lk_worker k))\<rparr>\<rparr>)"
| incoming_fails:
    "\<not> lk_alive k \<Longrightarrow> link_step U A config window k (k\<lparr>lk_worker := set_incoming (Inl err) k\<rparr>)"
| message_leaves:
    "lk_alive k \<Longrightarrow> phase_session (fw_session (lk_worker k)) = Some s \<Longrightarrow> ss_out_open s \<Longrightarrow>
     fw_taken (lk_worker k) < length (ss_outgoing s) \<Longrightarrow> length (lk_up k) < window \<Longrightarrow>
     link_step U A config window k (k\<lparr>lk_worker := (lk_worker k)\<lparr>fw_taken := Suc (fw_taken (lk_worker k))\<rparr>,
       lk_up := lk_up k @ [ss_outgoing s ! fw_taken (lk_worker k)]\<rparr>)"
| message_arrives:
    "lk_alive k \<Longrightarrow> lk_wire k = Inr msg # wire \<Longrightarrow> length (fw_incoming (lk_worker k)) < window \<Longrightarrow>
     link_step U A config window k (k\<lparr>lk_worker := set_incoming (Inr (Some (Some msg))) k,
       lk_wire := wire, lk_delivered := lk_delivered k @ [msg]\<rparr>)"
| status_arrives:
    "lk_alive k \<Longrightarrow> lk_wire k = Inl status # wire \<Longrightarrow>
     link_step U A config window k (k\<lparr>lk_worker := set_incoming (Inl err) k, lk_wire := wire\<rparr>)"
| end_arrives:
    "lk_alive k \<Longrightarrow> lk_stream k = StreamOver \<Longrightarrow> lk_wire k = [] \<Longrightarrow>
     link_step U A config window k (k\<lparr>lk_worker := set_incoming (Inr None) k\<rparr>)"
| stream_registers:
    "lk_alive k \<Longrightarrow> lk_stream k = StreamOpening \<Longrightarrow> lk_up k = msg # up \<Longrightarrow>
     open_sfu_session True (ReadMessage (Some msg)) counter = (Inr (lk_connection k, instance_id, input), counter') \<Longrightarrow>
     link_step U A config window k (k\<lparr>lk_up := up, lk_stream := StreamConnecting input,
       lk_instance := instance_id, lk_read := lk_read k @ [msg]\<rparr>)"
| stream_refuses:
    "lk_stream k = StreamOpening \<Longrightarrow> first_reads k first \<Longrightarrow> validate_registration first = Inl status \<Longrightarrow>
     link_step U A config window k (k\<lparr>lk_stream := StreamOver, lk_wire := lk_wire k @ [Inl status]\<rparr>)"
| stream_connects:
    "lk_stream k = StreamConnecting input \<Longrightarrow> commands_ready k \<Longrightarrow>
     link_step U A config window k (k\<lparr>lk_stream := StreamSelecting,
       lk_commands := lk_commands k @ [SfuConnected input new_output_channel]\<rparr>)"
| stream_rejected:
    "lk_stream k = StreamConnecting input \<Longrightarrow> \<not> lk_running k \<Longrightarrow>
     link_step U A config window k (k\<lparr>lk_stream := StreamOver,
       lk_wire := lk_wire k @ [Inl (Unavailable, ''signaling authority stopped'')]\<rparr>)"
| handler_dropped:
    "\<not> lk_alive k \<Longrightarrow> lk_stream k = StreamOpening \<or> lk_stream k = StreamConnecting input \<Longrightarrow>
     link_step U A config window k (k\<lparr>lk_stream := StreamOver\<rparr>)"
| stream_reads:
    "lk_alive k \<Longrightarrow> lk_stream k = StreamSelecting \<Longrightarrow> lk_up k = msg # up \<Longrightarrow>
     link_step U A config window k (k\<lparr>lk_up := up, lk_stream := stream_takes U now msg k,
       lk_read := lk_read k @ [msg]\<rparr>)"
| stream_read_ends:
    "lk_stream k = StreamSelecting \<Longrightarrow>
     \<not> lk_alive k \<or> phase_session (fw_session (lk_worker k)) = None \<and> lk_up k = [] \<Longrightarrow>
     link_step U A config window k (k\<lparr>lk_stream := StreamLeaving\<rparr>)"
| stream_forwards:
    "lk_stream k = StreamForwarding input \<Longrightarrow> commands_ready k \<Longrightarrow>
     link_step U A config window k (k\<lparr>lk_stream := StreamSelecting, lk_commands := lk_commands k @ [SfuInput input]\<rparr>)"
| stream_forward_fails:
    "lk_stream k = StreamForwarding input \<Longrightarrow> \<not> lk_running k \<Longrightarrow>
     link_step U A config window k (k\<lparr>lk_stream := StreamLeaving\<rparr>)"
| stream_output:
    "lk_stream k = StreamSelecting \<Longrightarrow> lk_outputs k = output # outputs \<Longrightarrow>
     link_step U A config window k (k\<lparr>lk_outputs := outputs, lk_stream := stream_encodes U output\<rparr>)"
| stream_outputs_end:
    "lk_stream k = StreamSelecting \<Longrightarrow> lk_outputs k = [] \<Longrightarrow> \<not> lk_outputs_open k \<Longrightarrow>
     link_step U A config window k (k\<lparr>lk_stream := StreamLeaving\<rparr>)"
| stream_replies:
    "lk_stream k = StreamReplying item \<Longrightarrow> lk_alive k \<Longrightarrow> length (lk_wire k) < COMMAND_CAPACITY \<Longrightarrow>
     link_step U A config window k (k\<lparr>lk_wire := lk_wire k @ [item],
       lk_stream := (case item of Inr _ \<Rightarrow> StreamSelecting | Inl _ \<Rightarrow> StreamLeaving)\<rparr>)"
| stream_reply_fails:
    "lk_stream k = StreamReplying item \<Longrightarrow> \<not> lk_alive k \<Longrightarrow>
     link_step U A config window k (k\<lparr>lk_stream := StreamLeaving\<rparr>)"
| stream_leaves:
    "lk_stream k = StreamLeaving \<Longrightarrow> commands_ready k \<Longrightarrow>
     link_step U A config window k (k\<lparr>lk_stream := StreamOver,
       lk_commands := lk_commands k @ [SfuInput (InDisconnected (lk_connection k) (lk_instance k) now)]\<rparr>)"
| stream_leaves_alone:
    "lk_stream k = StreamLeaving \<Longrightarrow> \<not> lk_running k \<Longrightarrow>
     link_step U A config window k (k\<lparr>lk_stream := StreamOver\<rparr>)"
| others_send:
    "commands_ready k \<Longrightarrow> inputs_of (lk_connection k) [cmd] = [] \<Longrightarrow>
     link_step U A config window k (k\<lparr>lk_commands := lk_commands k @ [cmd]\<rparr>)"
| loop_takes:
    "lk_running k \<Longrightarrow> lk_commands k = cmd # commands \<Longrightarrow>
     link_step U A config window k (k\<lparr>lk_commands := commands, lk_handled := lk_handled k @ [cmd]\<rparr>)"
| loop_emits:
    "lk_running k \<Longrightarrow> lk_outputs_open k \<Longrightarrow> inputs_of (lk_connection k) (lk_handled k) \<noteq> [] \<Longrightarrow>
     sfu_output_connection_id output = lk_connection k \<Longrightarrow> length (lk_outputs k) < COMMAND_CAPACITY \<Longrightarrow>
     link_step U A config window k (k\<lparr>lk_outputs := lk_outputs k @ [output], lk_emitted := lk_emitted k @ [output]\<rparr>)"
| loop_drops_session:
    "link_step U A config window k (k\<lparr>lk_outputs_open := False\<rparr>)"
| loop_ends:
    "lk_running k \<Longrightarrow> link_step U A config window k (k\<lparr>lk_running := False, lk_commands := [],
       lk_handled := lk_handled k @ lk_commands k, lk_outputs_open := False\<rparr>)"

abbreviation link_steps ::
  "('r, 'y) uuid_api_scheme \<Rightarrow> ('r, 'e, 'sdp, 'z) sfu_api_scheme \<Rightarrow> sfu_config \<Rightarrow> nat \<Rightarrow>
   ('r, 'e) link \<Rightarrow> ('r, 'e) link \<Rightarrow> bool" where
  "link_steps U A config window \<equiv> (link_step U A config window)\<^sup>*\<^sup>*"


section \<open>Messages cross in order\<close>

text \<open>The input the task makes of a message: its registration for the first, its decoding for the others.\<close>

definition relays :: "('r, 'z) uuid_api_scheme \<Rightarrow> u64 \<Rightarrow> string \<Rightarrow> sfu_to_signaling \<Rightarrow> 'r sfu_input \<Rightarrow> bool" where
  "relays U connection instance_id msg input \<longleftrightarrow>
     (\<exists>counter counter'. open_sfu_session True (ReadMessage (Some msg)) counter =
        (Inr (connection, instance_id, input), counter')) \<or>
     (\<exists>now. decode_sfu_input U now connection instance_id (Some msg) = Inr input)"

abbreviation relays_all ::
  "('r, 'z) uuid_api_scheme \<Rightarrow> ('r, 'e) link \<Rightarrow> sfu_to_signaling list \<Rightarrow> 'r sfu_input list \<Rightarrow> bool" where
  "relays_all U k \<equiv> list_all2 (relays U (lk_connection k) (lk_instance k))"

abbreviation link_inputs :: "('r, 'e) link \<Rightarrow> 'r sfu_input list" where
  "link_inputs k \<equiv> inputs_of (lk_connection k) (lk_handled k @ lk_commands k)"

lemma inputs_of_append [simp]: "inputs_of c (xs @ ys) = inputs_of c xs @ inputs_of c ys"
  by (simp add: inputs_of_def)

lemma inputs_of_Nil [simp]: "inputs_of c [] = []"
  by (simp add: inputs_of_def)

lemma inputs_of_Cons: "inputs_of c (x # xs) = inputs_of c [x] @ inputs_of c xs"
  by (simp add: inputs_of_def)

lemma open_sfu_session_source:
  "open_sfu_session True first counter = (Inr (c, i, input), counter') \<Longrightarrow> input_source input = (c, i)"
  by (auto simp: open_sfu_session_def next_sfu_connection_id_def Let_def split: sum.splits)

lemma relays_source: "relays U c i msg input \<Longrightarrow> input_source input = (c, i)"
  by (auto simp: relays_def dest: decode_sfu_input_source open_sfu_session_source)

lemma inputs_of_own [simp]:
  "relays U c i msg input \<Longrightarrow> inputs_of c [SfuConnected input ch] = [input]"
  "relays U c i msg input \<Longrightarrow> inputs_of c [SfuInput input] = [input]"
  "inputs_of c [SfuInput (InDisconnected c i now)] = [InDisconnected c i now]"
  by (auto simp: inputs_of_def dest: relays_source)

text \<open>What the worker has sent: a step of its tasks only appends to it.\<close>

lemma task_step_session:
  assumes "task_step A config w w'" and "\<forall>pending. fw_session w \<noteq> Opening pending"
    and "phase_session (fw_session w') = Some s'"
  shows "fw_taken w' = fw_taken w \<and> (\<exists>s. phase_session (fw_session w) = Some s \<and> prefix (ss_outgoing s) (ss_outgoing s'))"
proof -
  have goes_on: "prefix (ss_outgoing s) (ss_outgoing s')"
    if "phase_session (send_message msg s) = Some s'" for msg s
    using that by (auto simp: send_message_def send_out_def finish_send_def split: if_splits)
  have resends: "prefix (ss_outgoing s) (ss_outgoing s')"
    if "phase_session (resend_event event events s) = Some s'" for event events s
    using that by (auto simp: resend_event_def send_out_def split: if_splits)
  have takes: "prefix (ss_outgoing s) (ss_outgoing s')"
    if "phase_session (session_takes A config (Incoming msg) s mt) = Some s'" "no_command msg" for msg s mt
    using that
    by (cases "(A, config, Incoming msg, s, ([], mt) :: ('a, 'b) shard list \<times> metrics)" rule: session_step.cases)
      (auto simp: session_takes_def)
  have replies: "\<exists>s. phase_session phase = Some s \<and> prefix (ss_outgoing s) (ss_outgoing s')"
    if "phase_session (reply_to i result phase) = Some s'" for i result phase
    using that by (cases "(i, result, phase)" rule: reply_to.cases) (auto split: if_splits)
  have ends: "phase_session (session_takes A config StopSignal s mt) = None"
    "phase_session (session_takes A config (MediaEvent None) s mt) = None" for s mt
    by (simp_all add: session_takes_def)
  show ?thesis
    using assms by (cases rule: task_step.cases)
      (auto simp: queue_event_def ends dest: goes_on resends takes replies)
qed

definition up_inv :: "('r, 'e) link \<Rightarrow> bool" where
  "up_inv k \<longleftrightarrow> (\<forall>s. phase_session (fw_session (lk_worker k)) = Some s \<longrightarrow>
     fw_taken (lk_worker k) \<le> length (ss_outgoing s) \<and>
     lk_read k @ lk_up k = take (fw_taken (lk_worker k)) (ss_outgoing s))"

lemma drop_outgoing_session:
  "phase_session (drop_outgoing phase) = map_option (\<lambda>s. s\<lparr>ss_out_open := False\<rparr>) (phase_session phase)"
  by (cases phase) simp_all

lemma up_inv_step:
  assumes "link_step U A config window k k'" and "up_inv k"
  shows "up_inv k'"
  using assms(1)
proof cases
  case (worker_acts w')
  have "fw_taken w' \<le> length (ss_outgoing s') \<and> lk_read k @ lk_up k = take (fw_taken w') (ss_outgoing s')"
    if "phase_session (fw_session w') = Some s'" for s'
  proof -
    from task_step_session [OF worker_acts(3,2) that] obtain s where s: "fw_taken w' = fw_taken (lk_worker k)"
      "phase_session (fw_session (lk_worker k)) = Some s" "prefix (ss_outgoing s) (ss_outgoing s')" by blast
    with assms(2) have "fw_taken w' \<le> length (ss_outgoing s)" "lk_read k @ lk_up k = take (fw_taken w') (ss_outgoing s)"
      by (simp_all add: up_inv_def)
    with s(3) show ?thesis by (auto simp: prefix_def)
  qed
  with worker_acts(1) show ?thesis by (simp add: up_inv_def)
qed (use assms(2) in \<open>auto simp: up_inv_def drop_outgoing_session take_Suc_conv_app_nth\<close>)


text \<open>What the task has sent to the loop, by where it is.\<close>

definition relays_some ::
  "('r, 'z) uuid_api_scheme \<Rightarrow> ('r, 'e) link \<Rightarrow> 'r sfu_input list \<Rightarrow> bool" where
  "relays_some U k inputs \<longleftrightarrow> (\<exists>msgs. prefix msgs (lk_read k) \<and> relays_all U k msgs inputs)"

fun input_inv_at :: "('r, 'z) uuid_api_scheme \<Rightarrow> ('r, 'e) link \<Rightarrow> 'r stream_phase \<Rightarrow> bool" where
  "input_inv_at U k StreamOpening = (lk_read k = [] \<and> link_inputs k = [])"
| "input_inv_at U k (StreamConnecting input) = (relays_all U k (lk_read k) [input] \<and> link_inputs k = [])"
| "input_inv_at U k StreamSelecting = relays_all U k (lk_read k) (link_inputs k)"
| "input_inv_at U k (StreamForwarding input) = relays_all U k (lk_read k) (link_inputs k @ [input])"
| "input_inv_at U k (StreamReplying (Inr msg)) = relays_all U k (lk_read k) (link_inputs k)"
| "input_inv_at U k (StreamReplying (Inl status)) = relays_some U k (link_inputs k)"
| "input_inv_at U k StreamLeaving = relays_some U k (link_inputs k)"
| "input_inv_at U k StreamOver = (\<exists>inputs fin. link_inputs k = inputs @ fin \<and> relays_some U k inputs \<and>
     (fin = [] \<or> (\<exists>now. fin = [InDisconnected (lk_connection k) (lk_instance k) now])))"

abbreviation input_inv :: "('r, 'z) uuid_api_scheme \<Rightarrow> ('r, 'e) link \<Rightarrow> bool" where
  "input_inv U k \<equiv> input_inv_at U k (lk_stream k)"

lemma relays_someI:
  "relays_all U k (lk_read k) inputs \<Longrightarrow> relays_some U k inputs"
  "relays_all U k (lk_read k) (inputs @ later) \<Longrightarrow> relays_some U k inputs"
  "relays_some U k []"
  unfolding relays_some_def
  by (blast, metis list_all2_append2 prefixI, intro exI [of _ "[]"], simp)

lemma input_inv_at_cong:
  assumes "lk_read k' = lk_read k" and "link_inputs k' = link_inputs k"
    and "lk_connection k' = lk_connection k" and "lk_instance k' = lk_instance k"
  shows "input_inv_at U k' phase = input_inv_at U k phase"
  using assms
  by (cases "(U, k, phase)" rule: input_inv_at.cases) (simp_all add: relays_some_def)

lemma input_inv_at_update [simp]:
  "input_inv_at U (k\<lparr>lk_worker := w\<rparr>) phase = input_inv_at U k phase"
  "input_inv_at U (k\<lparr>lk_alive := b\<rparr>) phase = input_inv_at U k phase"
  "input_inv_at U (k\<lparr>lk_up := up\<rparr>) phase = input_inv_at U k phase"
  "input_inv_at U (k\<lparr>lk_stream := st\<rparr>) phase = input_inv_at U k phase"
  "input_inv_at U (k\<lparr>lk_outputs := outputs\<rparr>) phase = input_inv_at U k phase"
  "input_inv_at U (k\<lparr>lk_outputs_open := b\<rparr>) phase = input_inv_at U k phase"
  "input_inv_at U (k\<lparr>lk_wire := wire\<rparr>) phase = input_inv_at U k phase"
  "input_inv_at U (k\<lparr>lk_emitted := outputs\<rparr>) phase = input_inv_at U k phase"
  "input_inv_at U (k\<lparr>lk_delivered := msgs\<rparr>) phase = input_inv_at U k phase"
  by (rule input_inv_at_cong; simp)+

lemma input_inv_leaves: "input_inv_at U k phase \<Longrightarrow> phase \<noteq> StreamOver \<Longrightarrow> relays_some U k (link_inputs k)"
  by (cases "(U, k, phase)" rule: input_inv_at.cases) (auto intro: relays_someI)

lemma input_inv_step:
  assumes "link_step U A config window k k'" and "input_inv U k"
  shows "input_inv U k'"
  using assms(1)
proof cases
  case (stream_registers msg up counter instance_id input counter')
  then have "relays U (lk_connection k) instance_id msg input" by (auto simp: relays_def)
  with stream_registers assms(2) show ?thesis by simp
next
  case (stream_refuses first status)
  with assms(2) show ?thesis by (auto intro: relays_someI)
next
  case (stream_connects input)
  with assms(2) show ?thesis by (auto simp: list_all2_Cons2)
next
  case (stream_rejected input)
  with assms(2) show ?thesis by (auto intro: relays_someI)
next
  case (handler_dropped input)
  with assms(2) show ?thesis by (auto intro: relays_someI)
next
  case (stream_reads msg up now)
  then have read: "relays_all U k (lk_read k) (link_inputs k)" using assms(2) by simp
  show ?thesis
  proof (cases "decode_sfu_input U now (lk_connection k) (lk_instance k) (Some msg)")
    case (Inl status)
    with stream_reads(1) read show ?thesis
      by (auto simp: stream_takes_def relays_some_def)
  next
    case (Inr input)
    then have "relays U (lk_connection k) (lk_instance k) msg input" by (auto simp: relays_def)
    with read have "relays_all U k (lk_read k @ [msg]) (link_inputs k @ [input])" by (intro list_all2_appendI) simp_all
    with Inr stream_reads(1) show ?thesis by (simp add: stream_takes_def)
  qed
next
  case (stream_forwards input)
  with assms(2) obtain msg where "relays U (lk_connection k) (lk_instance k) msg input"
    by (auto simp: list_all2_append2 list_all2_Cons2)
  with stream_forwards assms(2) show ?thesis by simp
next
  case (stream_output out outputs)
  with assms(2) show ?thesis
    by (auto simp: stream_encodes_def relays_some_def split: option.splits)
next
  case (stream_replies item)
  with assms(2) show ?thesis by (cases item) (auto simp: relays_some_def)
next
  case (stream_leaves now)
  let ?fin = "[InDisconnected (lk_connection k) (lk_instance k) now]"
  have k': "link_inputs k' = link_inputs k @ ?fin" "relays_some U k' (link_inputs k)"
    "?fin = [InDisconnected (lk_connection k') (lk_instance k') now]" "lk_stream k' = StreamOver"
    using stream_leaves assms(2) by (simp_all add: relays_some_def)
  show ?thesis
    unfolding k'(4) input_inv_at.simps
    by (intro exI [of _ "link_inputs k"] exI [of _ ?fin] conjI k'(1,2) disjI2 exI [of _ now] k'(3))
next
  case (stream_leaves_alone)
  with assms(2) show ?thesis by (auto simp: relays_some_def)
next
  case (loop_takes cmd commands)
  have "input_inv_at U k' (lk_stream k) = input_inv_at U k (lk_stream k)"
    using loop_takes by (intro input_inv_at_cong) (simp_all add: inputs_of_Cons [of _ cmd commands])
  with loop_takes(1) assms(2) show ?thesis by simp
next
  case (others_send cmd)
  have "input_inv_at U k' (lk_stream k) = input_inv_at U k (lk_stream k)"
    using others_send by (intro input_inv_at_cong) simp_all
  with others_send(1) assms(2) show ?thesis by simp
next
  case loop_ends
  have "input_inv_at U k' (lk_stream k) = input_inv_at U k (lk_stream k)"
    using loop_ends by (intro input_inv_at_cong) simp_all
  with loop_ends(1) assms(2) show ?thesis by simp
next
  case stream_read_ends
  with input_inv_leaves [OF assms(2)] show ?thesis by (simp add: relays_some_def)
next
  case stream_forward_fails
  with input_inv_leaves [OF assms(2)] show ?thesis by (simp add: relays_some_def)
next
  case stream_outputs_end
  with input_inv_leaves [OF assms(2)] show ?thesis by (simp add: relays_some_def)
next
  case stream_reply_fails
  with input_inv_leaves [OF assms(2)] show ?thesis by (simp add: relays_some_def)
next
  case end_arrives
  with assms(2) show ?thesis by (simp add: relays_some_def)
qed (use assms(2) in simp_all)


text \<open>What went the other way.\<close>

abbreviation messages :: "(grpc_status, signaling_to_sfu) result list \<Rightarrow> signaling_to_sfu list" where
  "messages items \<equiv> concat (map (case_sum (\<lambda>_. []) (\<lambda>msg. [msg])) items)"

fun replying :: "'r stream_phase \<Rightarrow> signaling_to_sfu list" where
  "replying (StreamReplying (Inr msg)) = [msg]"
| "replying _ = []"

fun stream_lives :: "'r stream_phase \<Rightarrow> bool" where
  "stream_lives (StreamReplying (Inl status)) = False"
| "stream_lives StreamLeaving = False"
| "stream_lives StreamOver = False"
| "stream_lives _ = True"

abbreviation answered :: "('r, 'e) link \<Rightarrow> signaling_to_sfu option list" where
  "answered k \<equiv> map Some (lk_delivered k @ messages (lk_wire k) @ replying (lk_stream k))"

definition down_inv :: "('r, 'z) uuid_api_scheme \<Rightarrow> ('r, 'e) link \<Rightarrow> bool" where
  "down_inv U k \<longleftrightarrow> (\<exists>taken. lk_emitted k = taken @ lk_outputs k \<and>
     prefix (answered k) (map (encode_sfu_output U) taken) \<and>
     (stream_lives (lk_stream k) \<longrightarrow> answered k = map (encode_sfu_output U) taken))"

lemma down_inv_cong:
  assumes "down_inv U k" and "lk_emitted k' = lk_emitted k" and "lk_outputs k' = lk_outputs k"
    and "prefix (answered k') (answered k)"
    and "stream_lives (lk_stream k') \<Longrightarrow> stream_lives (lk_stream k) \<and> answered k' = answered k"
  shows "down_inv U k'"
proof -
  from assms(1) obtain taken where t: "lk_emitted k = taken @ lk_outputs k"
    "prefix (answered k) (map (encode_sfu_output U) taken)"
    "stream_lives (lk_stream k) \<longrightarrow> answered k = map (encode_sfu_output U) taken"
    unfolding down_inv_def by blast
  show ?thesis
    unfolding down_inv_def
    by (intro exI [of _ taken] conjI impI)
      (use t assms(2-5) in \<open>simp, blast intro: prefix_order.trans, simp\<close>)
qed

lemma down_inv_output:
  assumes "down_inv U k" and "lk_stream k = StreamSelecting" and "lk_outputs k = output # outputs"
  shows "down_inv U (k\<lparr>lk_outputs := outputs, lk_stream := stream_encodes U output\<rparr>)"
proof -
  from assms obtain taken where t: "lk_emitted k = (taken @ [output]) @ outputs"
    "map Some (lk_delivered k @ messages (lk_wire k)) = map (encode_sfu_output U) taken"
    unfolding down_inv_def by auto
  show ?thesis
    unfolding down_inv_def
    by (intro exI [of _ "taken @ [output]"] conjI impI)
      (use t in \<open>auto simp: stream_encodes_def split: option.splits simp flip: t(2)\<close>)
qed

lemma down_inv_emit:
  assumes "down_inv U k"
  shows "down_inv U (k\<lparr>lk_outputs := lk_outputs k @ [output], lk_emitted := lk_emitted k @ [output]\<rparr>)"
  using assms unfolding down_inv_def by auto

lemma down_inv_step:
  assumes "link_step U A config window k k'" and "down_inv U k"
  shows "down_inv U k'"
  using assms(1)
proof cases
  case (stream_reads msg up now)
  then show ?thesis
    by (intro down_inv_cong [OF assms(2)]) (auto simp: stream_takes_def split: sum.splits)
next
  case (stream_output out outputs)
  show ?thesis unfolding stream_output(1) by (rule down_inv_output [OF assms(2) stream_output(2,3)])
next
  case (stream_replies item)
  then show ?thesis
    by (intro down_inv_cong [OF assms(2)]) (cases item; simp)+
next
  case (stream_reply_fails item)
  then show ?thesis
    by (intro down_inv_cong [OF assms(2)]) (cases item; simp)+
next
  case (loop_emits out)
  show ?thesis unfolding loop_emits(1) by (rule down_inv_emit [OF assms(2)])
qed (rule down_inv_cong [OF assms(2)]; simp)+

interpretation up: step_invariant "link_step U A config window" up_inv for U A config window
  by unfold_locales (rule up_inv_step)

interpretation inputs: step_invariant "link_step U A config window" "input_inv U" for U A config window
  by unfold_locales (rule input_inv_step)

interpretation down: step_invariant "link_step U A config window" "down_inv U" for U A config window
  by unfold_locales (rule down_inv_step)


lemma link_connection:
  "link_steps U A config window k k' \<Longrightarrow> lk_connection k' = lk_connection k"
proof (induction rule: rtranclp_induct)
  case (step y z)
  from step(2) have "lk_connection z = lk_connection y" by cases simp_all
  with step(3) show ?case by simp
qed simp

lemma input_inv_split:
  assumes "input_inv U k"
  shows "\<exists>inputs fin. link_inputs k = inputs @ fin \<and> relays_some U k inputs \<and>
    (fin = [] \<or> (\<exists>now. fin = [InDisconnected (lk_connection k) (lk_instance k) now]))"
  using assms input_inv_leaves [OF assms] by (cases "lk_stream k = StreamOver") auto

text \<open>
  C12. A worker's session and the event loop see each other's messages in order, however the two processes
  and the transport interleave, and wherever the connection breaks, the loop ends or others send: the
  inputs that reach the loop for the connection are the registration and then what the messages the
  worker has sent decode to, one for each and none skipped, possibly followed by one disconnection; and
  the messages the worker is given are the encodings of the first outputs the state machine emitted for
  the connection.
\<close>
theorem link_in_order:
  assumes "connected_worker config w" and "link_steps U A config window (new_link connection w) k"
  shows "(\<forall>s. phase_session (fw_session (lk_worker k)) = Some s \<longrightarrow>
      (\<exists>msgs inputs fin. prefix msgs (ss_outgoing s) \<and> list_all2 (relays U connection (lk_instance k)) msgs inputs \<and>
         inputs_of connection (lk_handled k @ lk_commands k) = inputs @ fin \<and>
         (fin = [] \<or> (\<exists>now. fin = [InDisconnected connection (lk_instance k) now])))) \<and>
    prefix (map Some (lk_delivered k)) (map (encode_sfu_output U) (lk_emitted k))"
proof -
  have "up_inv k" "input_inv U k" "down_inv U k" and c: "lk_connection k = connection"
    using up.reachable [OF assms(2)] inputs.reachable [OF assms(2)] down.reachable [OF assms(2)]
      link_connection [OF assms(2)] assms(1)
    by (auto simp: new_link_def connected_worker_def up_inv_def down_inv_def)
  then have "prefix (map Some (lk_delivered k)) (map (encode_sfu_output U) (lk_emitted k))"
    by (auto simp: down_inv_def prefix_def)
  moreover obtain inputs fin msgs where inputs: "link_inputs k = inputs @ fin" "prefix msgs (lk_read k)"
    "relays_all U k msgs inputs" "fin = [] \<or> (\<exists>now. fin = [InDisconnected (lk_connection k) (lk_instance k) now])"
    using input_inv_split [OF \<open>input_inv U k\<close>] unfolding relays_some_def by blast
  have "prefix msgs (ss_outgoing s)" if "phase_session (fw_session (lk_worker k)) = Some s" for s
  proof -
    from \<open>up_inv k\<close> that have "prefix (lk_read k) (ss_outgoing s)"
      unfolding up_inv_def by (metis append_prefixD take_is_prefix)
    with inputs(2) show ?thesis by (rule prefix_order.trans)
  qed
  with inputs c have "\<forall>s. phase_session (fw_session (lk_worker k)) = Some s \<longrightarrow>
      (\<exists>msgs inputs fin. prefix msgs (ss_outgoing s) \<and> list_all2 (relays U connection (lk_instance k)) msgs inputs \<and>
         inputs_of connection (lk_handled k @ lk_commands k) = inputs @ fin \<and>
         (fin = [] \<or> (\<exists>now. fin = [InDisconnected connection (lk_instance k) now])))" by blast
  ultimately show ?thesis by blast
qed


section \<open>Neither side reads while it sends\<close>

text \<open>The phases in which the session waits for room in its outgoing channel.\<close>

fun sending_session :: "session_phase \<Rightarrow> session option" where
  "sending_session (Queueing msg s) = Some s"
| "sending_session (Resending (event # events) s) = Some s"
| "sending_session _ = None"

definition link_jammed :: "nat \<Rightarrow> ('r, 'e) link \<Rightarrow> bool" where
  "link_jammed window k \<longleftrightarrow> lk_alive k \<and>
     (\<exists>s. sending_session (fw_session (lk_worker k)) = Some s \<and> \<not> outgoing_ready (fw_taken (lk_worker k)) s) \<and>
     \<not> length (lk_up k) < window \<and> \<not> length (fw_incoming (lk_worker k)) < window \<and>
     (\<exists>item. lk_stream k = StreamReplying item) \<and> \<not> length (lk_wire k) < COMMAND_CAPACITY \<and>
     (\<exists>msg wire. lk_wire k = Inr msg # wire)"

text \<open>What both sides have read and where they are.\<close>

definition link_view :: "('r, 'e) link \<Rightarrow> session_phase \<times> 'r stream_phase \<times> sfu_to_signaling list \<times>
    signaling_to_sfu list \<times> (string, signaling_to_sfu option option) result list" where
  "link_view k = (fw_session (lk_worker k), lk_stream k, lk_read k, lk_delivered k, fw_incoming (lk_worker k))"

lemma task_step_blocked:
  assumes "task_step A config w w'" and "sending_session (fw_session w) = Some s" and "\<not> outgoing_ready (fw_taken w) s"
  shows "fw_session w' = fw_session w \<and> fw_taken w' = fw_taken w \<and> fw_incoming w' = fw_incoming w"
  using assms by (cases rule: task_step.cases) (auto elim!: sending_session.elims)

lemma link_jammed_step:
  assumes "link_step U A config window k k'" and "link_jammed window k" and "lk_alive k'"
  shows "link_jammed window k' \<and> link_view k' = link_view k"
  using assms(1)
proof cases
  case (worker_acts w')
  with assms(2) task_step_blocked [OF worker_acts(3)] show ?thesis
    by (auto simp: link_jammed_def link_view_def)
next
  case (message_leaves s)
  with assms(2) show ?thesis by (simp add: link_jammed_def)
qed (use assms(2,3) in \<open>auto simp: link_jammed_def link_view_def\<close>)

lemma link_alive_before: "link_step U A config window k k' \<Longrightarrow> lk_alive k' \<Longrightarrow> lk_alive k"
  by (erule link_step.cases) auto

interpretation standstill: step_invariant "link_step U A config window"
  "\<lambda>k. lk_alive k \<longrightarrow> link_jammed window k \<and> link_view k = view" for U A config window view
  by unfold_locales (metis link_alive_before link_jammed_step)

text \<open>
  C13. A session that only sends can stop both sides: when the worker waits for room in its outgoing channel
  while the task of its session in the service waits for room in the response channel, and the
  transport is full in both directions, then neither ever reads again. As long as the connection lasts,
  whatever the shards, the event loop and others do, a stop signal included, both tasks stay where they
  are, nothing more is read or delivered, and the worker does not stop.
\<close>
theorem link_jam_is_permanent:
  assumes "link_jammed window k" and "link_steps U A config window k k'" and "lk_alive k'"
  shows "fw_session (lk_worker k') = fw_session (lk_worker k) \<and> fw_session (lk_worker k') \<noteq> Over \<and>
    lk_stream k' = lk_stream k \<and> lk_read k' = lk_read k \<and> lk_delivered k' = lk_delivered k \<and>
    fw_incoming (lk_worker k') = fw_incoming (lk_worker k)"
proof -
  have "link_jammed window k' \<and> link_view k' = link_view k"
    using standstill.reachable [OF assms(2), of "link_view k"] assms(1,3) by simp
  then show ?thesis by (auto simp: link_view_def link_jammed_def)
qed


text \<open>
  Such a state is reachable. The worker registers; then the service emits acknowledgements the worker
  does not read until the response channel is full, and the worker reports its health until its
  outgoing channel is full.
\<close>

abbreviation sample_steps :: "(uuid16, nat) link \<Rightarrow> (uuid16, nat) link \<Rightarrow> bool" where
  "sample_steps \<equiv> link_steps uuid16_api burst_api sample_config 1"

definition sample_connected :: "(uuid16, nat) flow" where
  "sample_connected = (initial_flow [0])\<lparr>fw_session := Registering 1 (open_session sample_config 1 []),
     fw_next_event_id := 2\<rparr>"

definition serving :: "(uuid16, nat) link \<Rightarrow> bool" where
  "serving k \<longleftrightarrow> lk_alive k \<and> lk_running k \<and> lk_outputs_open k \<and> lk_connection k = 1 \<and> lk_outputs k = [] \<and>
     inputs_of 1 (lk_handled k) \<noteq> []"

definition reporting :: "nat \<Rightarrow> (uuid16, nat) link \<Rightarrow> bool" where
  "reporting n k \<longleftrightarrow> (\<exists>s. fw_session (lk_worker k) = InSession s \<and> ss_out_open s \<and>
     length (ss_outgoing s) = fw_taken (lk_worker k) + n)"

lemma service_emits:
  assumes "serving k" and "lk_stream k = StreamSelecting"
  shows "sample_steps k (k\<lparr>lk_emitted := lk_emitted k @ [OutEventAck 1 q], lk_stream := StreamReplying (Inr (EventAckMsg q))\<rparr>)"
proof -
  let ?k1 = "k\<lparr>lk_outputs := lk_outputs k @ [OutEventAck 1 q], lk_emitted := lk_emitted k @ [OutEventAck 1 q]\<rparr>"
  have "link_step uuid16_api burst_api sample_config 1 k ?k1"
    by (rule link_step.loop_emits) (use assms in \<open>simp_all add: serving_def COMMAND_CAPACITY_def\<close>)
  moreover have "link_step uuid16_api burst_api sample_config 1 ?k1
      (?k1\<lparr>lk_outputs := [], lk_stream := stream_encodes uuid16_api (OutEventAck 1 q)\<rparr>)"
    by (rule link_step.stream_output) (use assms in \<open>simp_all add: serving_def\<close>)
  moreover have "?k1\<lparr>lk_outputs := [], lk_stream := stream_encodes uuid16_api (OutEventAck 1 q)\<rparr> =
      k\<lparr>lk_emitted := lk_emitted k @ [OutEventAck 1 q], lk_stream := StreamReplying (Inr (EventAckMsg q))\<rparr>"
    using assms by (simp add: serving_def stream_encodes_def)
  ultimately show ?thesis by (metis converse_rtranclp_into_rtranclp r_into_rtranclp)
qed

lemma service_answers:
  assumes "serving k" and "lk_stream k = StreamSelecting" and "length (lk_wire k) < COMMAND_CAPACITY"
  shows "sample_steps k (k\<lparr>lk_emitted := lk_emitted k @ [OutEventAck 1 q], lk_wire := lk_wire k @ [Inr (EventAckMsg q)]\<rparr>)"
proof -
  let ?k1 = "k\<lparr>lk_emitted := lk_emitted k @ [OutEventAck 1 q], lk_stream := StreamReplying (Inr (EventAckMsg q))\<rparr>"
  have "link_step uuid16_api burst_api sample_config 1 ?k1
      (?k1\<lparr>lk_wire := lk_wire ?k1 @ [Inr (EventAckMsg q)], lk_stream := StreamSelecting\<rparr>)"
    using link_step.stream_replies [of ?k1 "Inr (EventAckMsg q)"] assms by (simp add: serving_def)
  moreover have "?k1\<lparr>lk_wire := lk_wire ?k1 @ [Inr (EventAckMsg q)], lk_stream := StreamSelecting\<rparr> =
      k\<lparr>lk_emitted := lk_emitted k @ [OutEventAck 1 q], lk_wire := lk_wire k @ [Inr (EventAckMsg q)]\<rparr>"
    using assms(2) by simp
  ultimately show ?thesis using service_emits [OF assms(1,2), of q] by (metis rtranclp.rtrancl_into_rtrancl)
qed

lemma wire_fills:
  assumes "serving k" and "lk_stream k = StreamSelecting" and "n \<le> COMMAND_CAPACITY" and "lk_wire k = []"
  shows "\<exists>emitted. sample_steps k (k\<lparr>lk_emitted := emitted, lk_wire := replicate n (Inr (EventAckMsg 1))\<rparr>)"
  using assms(3)
proof (induction n)
  case 0
  have "k\<lparr>lk_emitted := lk_emitted k, lk_wire := []\<rparr> = k" using assms(4) by simp
  then show ?case by (metis replicate_0 rtranclp.rtrancl_refl)
next
  case (Suc n)
  then obtain emitted where *: "sample_steps k (k\<lparr>lk_emitted := emitted, lk_wire := replicate n (Inr (EventAckMsg 1))\<rparr>)"
    by auto
  have "sample_steps (k\<lparr>lk_emitted := emitted, lk_wire := replicate n (Inr (EventAckMsg 1))\<rparr>)
      (k\<lparr>lk_emitted := emitted @ [OutEventAck 1 1], lk_wire := replicate (Suc n) (Inr (EventAckMsg 1))\<rparr>)"
    using service_answers [of "k\<lparr>lk_emitted := emitted, lk_wire := replicate n (Inr (EventAckMsg 1))\<rparr>" 1] assms Suc.prems
    by (simp add: serving_def replicate_append_same)
  from rtranclp_trans [OF * this] show ?case by blast
qed


lemma worker_ticks:
  assumes "fw_session (lk_worker k) = InSession s" and "next_nonzero (fw_next_event_id (lk_worker k)) = (q, n)"
  shows "link_step uuid16_api burst_api sample_config 1 k (k\<lparr>lk_worker := (lk_worker k)
    \<lparr>fw_session := queue_event (health_event sample_config (fw_metrics (lk_worker k)) q) s, fw_next_event_id := n\<rparr>\<rparr>)"
  by (rule link_step.worker_acts [OF _ task_step.session_ticks [OF assms]]) (use assms in simp)

lemma worker_reports:
  assumes "reporting n k" and "n < CHANNEL_CAPACITY"
  shows "\<exists>w'. sample_steps k (k\<lparr>lk_worker := w'\<rparr>) \<and> reporting (Suc n) (k\<lparr>lk_worker := w'\<rparr>) \<and>
    fw_incoming w' = fw_incoming (lk_worker k)"
proof -
  obtain q c where q: "next_nonzero (fw_next_event_id (lk_worker k)) = (q, c)" by fastforce
  from assms(1) obtain s where s: "fw_session (lk_worker k) = InSession s" "ss_out_open s"
    "length (ss_outgoing s) = fw_taken (lk_worker k) + n" unfolding reporting_def by blast
  let ?event = "health_event sample_config (fw_metrics (lk_worker k)) q"
  let ?s = "s\<lparr>ss_pending := hm_insert (ev_request_id ?event) ?event (ss_pending s)\<rparr>"
  let ?w1 = "(lk_worker k)\<lparr>fw_session := queue_event ?event s, fw_next_event_id := c\<rparr>"
  let ?w2 = "?w1\<lparr>fw_session := send_message (EventMsg ?event) ?s\<rparr>"
  have "task_step burst_api sample_config ?w1 ?w2"
    by (rule task_step.session_sends) (use s assms(2) in \<open>simp_all add: queue_event_def outgoing_ready_def\<close>)
  then have "link_step uuid16_api burst_api sample_config 1 (k\<lparr>lk_worker := ?w1\<rparr>)
      (k\<lparr>lk_worker := ?w1, lk_worker := ?w2\<rparr>)"
    by (intro link_step.worker_acts) (simp_all add: queue_event_def)
  then have "sample_steps (k\<lparr>lk_worker := ?w1\<rparr>) (k\<lparr>lk_worker := ?w1, lk_worker := ?w2\<rparr>)" by (rule r_into_rtranclp)
  with worker_ticks [OF s(1) q] have "sample_steps k (k\<lparr>lk_worker := ?w1, lk_worker := ?w2\<rparr>)"
    by (rule converse_rtranclp_into_rtranclp)
  then have "sample_steps k (k\<lparr>lk_worker := ?w2\<rparr>)" by simp
  moreover have "reporting (Suc n) (k\<lparr>lk_worker := ?w2\<rparr>)"
    using s by (simp add: reporting_def send_message_def send_out_def finish_send_def)
  ultimately show ?thesis by (intro exI [of _ ?w2]) simp
qed

lemma outgoing_fills:
  assumes "reporting 0 k" and "n \<le> CHANNEL_CAPACITY"
  shows "\<exists>w'. sample_steps k (k\<lparr>lk_worker := w'\<rparr>) \<and> reporting n (k\<lparr>lk_worker := w'\<rparr>) \<and>
    fw_incoming w' = fw_incoming (lk_worker k)"
  using assms(2)
proof (induction n)
  case 0
  with assms(1) show ?case by (intro exI [of _ "lk_worker k"]) simp
next
  case (Suc n)
  then obtain w1 where w1: "sample_steps k (k\<lparr>lk_worker := w1\<rparr>)" "reporting n (k\<lparr>lk_worker := w1\<rparr>)"
    "fw_incoming w1 = fw_incoming (lk_worker k)" by auto
  from worker_reports [OF w1(2)] Suc.prems obtain w2 where
    "sample_steps (k\<lparr>lk_worker := w1\<rparr>) (k\<lparr>lk_worker := w2\<rparr>)" "reporting (Suc n) (k\<lparr>lk_worker := w2\<rparr>)"
    "fw_incoming w2 = fw_incoming w1" by auto
  with w1 show ?case by (intro exI [of _ w2]) (auto intro: rtranclp_trans)
qed

lemma full_link_jams:
  assumes "serving k" and "lk_stream k = StreamSelecting" and "lk_wire k = []" and "reporting 0 k"
    and "length (lk_up k) = 1" and "length (fw_incoming (lk_worker k)) = 1"
  shows "\<exists>k'. sample_steps k k' \<and> link_jammed 1 k'"
proof -
  let ?full = "replicate COMMAND_CAPACITY (Inr (EventAckMsg 1)) :: (grpc_status, signaling_to_sfu) result list"
  from wire_fills [OF assms(1,2) order_refl assms(3)] obtain emitted where
    1: "sample_steps k (k\<lparr>lk_emitted := emitted, lk_wire := ?full\<rparr>)" by blast
  let ?k1 = "k\<lparr>lk_emitted := emitted, lk_wire := ?full\<rparr>"
  let ?k2 = "?k1\<lparr>lk_emitted := emitted @ [OutEventAck 1 1], lk_stream := StreamReplying (Inr (EventAckMsg 1))\<rparr>"
  have 2: "sample_steps ?k1 ?k2"
    using service_emits [of ?k1 1] assms(1,2) by (simp add: serving_def)
  have "reporting 0 ?k2" using assms(4) by (simp add: reporting_def)
  from outgoing_fills [OF this order_refl] obtain w' where w': "sample_steps ?k2 (?k2\<lparr>lk_worker := w'\<rparr>)"
    "reporting CHANNEL_CAPACITY (?k2\<lparr>lk_worker := w'\<rparr>)" "fw_incoming w' = fw_incoming (lk_worker k)" by auto
  let ?k3 = "?k2\<lparr>lk_worker := w'\<rparr>"
  obtain s where s: "fw_session w' = InSession s" "ss_out_open s" "length (ss_outgoing s) = fw_taken w' + CHANNEL_CAPACITY"
    using w'(2) by (auto simp: reporting_def)
  obtain q c where q: "next_nonzero (fw_next_event_id w') = (q, c)" by fastforce
  let ?w4 = "w'\<lparr>fw_session := queue_event (health_event sample_config (fw_metrics w') q) s, fw_next_event_id := c\<rparr>"
  have 4: "link_step uuid16_api burst_api sample_config 1 ?k3 (?k3\<lparr>lk_worker := ?w4\<rparr>)"
    using worker_ticks [of ?k3 s q c] s(1) q by simp
  have "COMMAND_CAPACITY = Suc 1023" by (simp add: COMMAND_CAPACITY_def)
  then have "\<exists>msg wire. ?full = Inr msg # wire" by (metis replicate_Suc)
  then have "link_jammed 1 (?k3\<lparr>lk_worker := ?w4\<rparr>)"
    using assms s w'(3)
    by (simp add: link_jammed_def serving_def queue_event_def outgoing_ready_def)
  moreover have "sample_steps k (?k3\<lparr>lk_worker := ?w4\<rparr>)"
    by (rule rtranclp.rtrancl_into_rtrancl [OF rtranclp_trans [OF rtranclp_trans [OF 1 2] w'(1)] 4])
  ultimately show ?thesis by blast
qed


lemma sample_registration:
  "\<exists>counter'. open_sfu_session True (ReadMessage (Some (hd (ss_outgoing (open_session sample_config 1 []))))) 1 =
     (Inr (1, ''w'', InRegister 1 ''w'' 1 (capacity sample_config)), counter')"
  by (simp add: open_sfu_session_def validate_registration_def open_session_def sfu_context_def sample_config_def
      capacity_def next_sfu_connection_id_def)

text \<open>The registration up to the service's answer, and from there to the first report of the worker.\<close>

lemma link_answers:
  "\<exists>k. sample_steps (new_link 1 sample_connected) k \<and> serving k \<and> lk_stream k = StreamSelecting \<and>
     lk_worker k = sample_connected\<lparr>fw_taken := 1, fw_incoming := [Inr (Some (Some (RegisteredMsg
       \<lparr>rr_context = response_context 1, rr_result = Some (RegisteredOk 5 False)\<rparr>)))]\<rparr> \<and>
     lk_wire k = [] \<and> lk_up k = []"
proof -
  let ?S = "link_step uuid16_api burst_api sample_config 1"
  let ?s = "open_session sample_config 1 []" and ?o = "OutRegistered 1 1 5 False :: uuid16 sfu_output"
  let ?m = "RegisteredMsg \<lparr>rr_context = response_context 1, rr_result = Some (RegisteredOk 5 False)\<rparr>"
  let ?inp = "InRegister 1 ''w'' 1 (capacity sample_config) :: uuid16 sfu_input"
  let ?k0 = "new_link 1 sample_connected"
  let ?k1 = "?k0\<lparr>lk_worker := sample_connected\<lparr>fw_taken := 1\<rparr>, lk_up := [hd (ss_outgoing ?s)]\<rparr>"
  let ?k2 = "?k1\<lparr>lk_up := [], lk_stream := StreamConnecting ?inp, lk_instance := ''w'', lk_read := [hd (ss_outgoing ?s)]\<rparr>"
  let ?k3 = "?k2\<lparr>lk_stream := StreamSelecting, lk_commands := [SfuConnected ?inp new_output_channel]\<rparr>"
  let ?k4 = "?k3\<lparr>lk_commands := [], lk_handled := [SfuConnected ?inp new_output_channel]\<rparr>"
  let ?k5 = "?k4\<lparr>lk_outputs := [?o], lk_emitted := [?o]\<rparr>"
  let ?k6 = "?k5\<lparr>lk_outputs := [], lk_stream := StreamReplying (Inr ?m)\<rparr>"
  let ?k7 = "?k6\<lparr>lk_wire := [Inr ?m], lk_stream := StreamSelecting\<rparr>"
  let ?k8 = "?k7\<lparr>lk_worker := sample_connected\<lparr>fw_taken := 1, fw_incoming := [Inr (Some (Some ?m))]\<rparr>,
    lk_wire := [], lk_delivered := [?m]\<rparr>"
  note defs = new_link_def sample_connected_def open_session_def initial_flow_def COMMAND_CAPACITY_def
  have 1: "?S ?k0 ?k1"
    using link_step.message_leaves [of ?k0 ?s 1] by (simp add: defs)
  have 2: "?S ?k1 ?k2"
    using sample_registration link_step.stream_registers [of ?k1 "hd (ss_outgoing ?s)" "[]" 1 "''w''" ?inp]
    by (auto simp: defs)
  have 3: "?S ?k2 ?k3" using link_step.stream_connects [of ?k2 ?inp] by (simp add: defs)
  have 4: "?S ?k3 ?k4" using link_step.loop_takes [of ?k3 "SfuConnected ?inp new_output_channel" "[]"] by (simp add: defs)
  have 5: "?S ?k4 ?k5" using link_step.loop_emits [of ?k4 ?o] by (simp add: defs inputs_of_def)
  have 6: "?S ?k5 ?k6" using link_step.stream_output [of ?k5 ?o "[]"] by (simp add: defs stream_encodes_def)
  have 7: "?S ?k6 ?k7" using link_step.stream_replies [of ?k6 "Inr ?m"] by (simp add: defs)
  have 8: "?S ?k7 ?k8" using link_step.message_arrives [of ?k7 ?m "[]" 1] by (simp add: defs)
  have "sample_steps ?k0 ?k8"
    by (rule converse_rtranclp_into_rtranclp, rule 1, rule converse_rtranclp_into_rtranclp, rule 2,
        rule converse_rtranclp_into_rtranclp, rule 3, rule converse_rtranclp_into_rtranclp, rule 4,
        rule converse_rtranclp_into_rtranclp, rule 5, rule converse_rtranclp_into_rtranclp, rule 6,
        rule converse_rtranclp_into_rtranclp, rule 7, rule r_into_rtranclp, rule 8)
  moreover have "serving ?k8" by (simp add: serving_def inputs_of_def new_link_def)
  ultimately show ?thesis by (intro exI [of _ ?k8]) simp
qed


lemma link_reports:
  "\<exists>k. sample_steps (new_link 1 sample_connected) k \<and> serving k \<and> lk_stream k = StreamSelecting \<and>
     lk_wire k = [] \<and> reporting 0 k \<and> length (lk_up k) = 1 \<and> fw_incoming (lk_worker k) = []"
proof -
  let ?S = "link_step uuid16_api burst_api sample_config 1" and ?s = "open_session sample_config 1 []"
  let ?m = "Inr (Some (Some (RegisteredMsg \<lparr>rr_context = response_context 1, rr_result = Some (RegisteredOk 5 False)\<rparr>)))
    :: (string, signaling_to_sfu option option) result"
  obtain k where k: "sample_steps (new_link 1 sample_connected) k" "serving k" "lk_stream k = StreamSelecting"
    "lk_worker k = sample_connected\<lparr>fw_taken := 1, fw_incoming := [?m]\<rparr>" "lk_wire k = []" "lk_up k = []"
    using link_answers by blast
  let ?event = "health_event sample_config (fw_metrics (lk_worker k)) 2"
  let ?s1 = "?s\<lparr>ss_pending := hm_insert 2 ?event []\<rparr>"
  let ?s2 = "?s1\<lparr>ss_outgoing := ss_outgoing ?s1 @ [EventMsg ?event]\<rparr>"
  let ?w1 = "(lk_worker k)\<lparr>fw_session := Resending [] ?s, fw_incoming := []\<rparr>"
  let ?w2 = "?w1\<lparr>fw_session := Queueing (EventMsg ?event) ?s1, fw_next_event_id := 3\<rparr>"
  let ?w3 = "?w2\<lparr>fw_session := InSession ?s2\<rparr>"
  let ?k4 = "k\<lparr>lk_worker := ?w3\<lparr>fw_taken := 2\<rparr>, lk_up := [EventMsg ?event]\<rparr>"
  note defs = sample_connected_def open_session_def initial_flow_def
  have answer: "registration_answer ?m 1 = Inr (5, False)"
    by (simp add: registration_answer_def decode_registration_def response_context_def)
  have "task_step burst_api sample_config (lk_worker k) ?w1"
    using task_step.session_registers [OF _ _ answer, of "lk_worker k" ?s "[]"] k(4) by (simp add: defs)
  then have 1: "?S k (k\<lparr>lk_worker := ?w1\<rparr>)" by (rule link_step.worker_acts [rotated]) (simp add: k(4) defs)
  have "task_step burst_api sample_config ?w1 ?w2"
    using task_step.session_resent [of ?w1 ?s 2 3 burst_api sample_config] k(4)
    by (simp add: defs queue_event_def health_event_def next_nonzero_eq)
  then have 2: "?S (k\<lparr>lk_worker := ?w1\<rparr>) (k\<lparr>lk_worker := ?w2\<rparr>)"
    using link_step.worker_acts [of "k\<lparr>lk_worker := ?w1\<rparr>" burst_api sample_config ?w2] by simp
  have "task_step burst_api sample_config ?w2 ?w3"
    using task_step.session_sends [of ?w2 "EventMsg ?event" ?s1 burst_api sample_config] k(4)
    by (simp add: defs outgoing_ready_def CHANNEL_CAPACITY_def send_message_def send_out_def finish_send_def)
  then have 3: "?S (k\<lparr>lk_worker := ?w2\<rparr>) (k\<lparr>lk_worker := ?w3\<rparr>)"
    using link_step.worker_acts [of "k\<lparr>lk_worker := ?w2\<rparr>" burst_api sample_config ?w3] by simp
  have 4: "?S (k\<lparr>lk_worker := ?w3\<rparr>) ?k4"
    using link_step.message_leaves [of "k\<lparr>lk_worker := ?w3\<rparr>" ?s2 1] k by (simp add: serving_def defs numeral_2_eq_2)
  have "sample_steps (new_link 1 sample_connected) ?k4"
    by (rule rtranclp_trans [OF k(1)])
      (rule converse_rtranclp_into_rtranclp, rule 1, rule converse_rtranclp_into_rtranclp, rule 2,
       rule converse_rtranclp_into_rtranclp, rule 3, rule r_into_rtranclp, rule 4)
  moreover have "serving ?k4" "reporting 0 ?k4" using k by (simp_all add: serving_def reporting_def open_session_def)
  ultimately show ?thesis using k by (intro exI [of _ ?k4]) simp
qed

lemma link_opens:
  "\<exists>k. sample_steps (new_link 1 sample_connected) k \<and> serving k \<and> lk_stream k = StreamSelecting \<and>
     lk_wire k = [] \<and> reporting 0 k \<and> length (lk_up k) = 1 \<and> length (fw_incoming (lk_worker k)) = 1"
proof -
  obtain k where k: "sample_steps (new_link 1 sample_connected) k" "serving k" "lk_stream k = StreamSelecting"
    "lk_wire k = []" "reporting 0 k" "length (lk_up k) = 1" "fw_incoming (lk_worker k) = []"
    using link_reports by blast
  let ?k1 = "k\<lparr>lk_emitted := lk_emitted k @ [OutEventAck 1 1], lk_wire := [Inr (EventAckMsg 1)]\<rparr>"
  let ?k2 = "?k1\<lparr>lk_worker := set_incoming (Inr (Some (Some (EventAckMsg 1)))) ?k1, lk_wire := [],
    lk_delivered := lk_delivered ?k1 @ [EventAckMsg 1]\<rparr>"
  have "sample_steps k ?k1"
    using service_answers [OF k(2,3), of 1] k(4) by (simp add: COMMAND_CAPACITY_def)
  moreover have "link_step uuid16_api burst_api sample_config 1 ?k1 ?k2"
    by (rule link_step.message_arrives) (use k in \<open>simp_all add: serving_def\<close>)
  ultimately have "sample_steps (new_link 1 sample_connected) ?k2"
    by (rule rtranclp_trans [OF k(1) rtranclp.rtrancl_into_rtrancl])
  with k show ?thesis by (intro exI [of _ ?k2]) (simp add: serving_def reporting_def)
qed

lemma sample_worker_connected: "connected_worker sample_config sample_connected"
  by (auto simp: connected_worker_def sample_connected_def initial_flow_def)

theorem link_in_order_witness:
  "\<exists>k s msgs inputs fin. sample_steps (new_link 1 sample_connected) k \<and>
     phase_session (fw_session (lk_worker k)) = Some s \<and> prefix msgs (ss_outgoing s) \<and>
     list_all2 (relays uuid16_api 1 (lk_instance k)) msgs inputs \<and>
     inputs_of 1 (lk_handled k @ lk_commands k) = inputs @ fin \<and>
     (fin = [] \<or> (\<exists>now. fin = [InDisconnected 1 (lk_instance k) now]))"
proof -
  obtain k where k: "sample_steps (new_link 1 sample_connected) k" "reporting 0 k" using link_opens by blast
  from k(2) obtain s where s: "phase_session (fw_session (lk_worker k)) = Some s" by (auto simp: reporting_def)
  from link_in_order [OF sample_worker_connected k(1), THEN conjunct1] s k(1) show ?thesis by blast
qed

theorem link_jam_is_permanent_witness:
  "\<exists>k. sample_steps (new_link 1 sample_connected) k \<and> link_jammed 1 k \<and>
     (\<forall>k'. sample_steps k k' \<and> lk_alive k' \<longrightarrow> fw_session (lk_worker k') \<noteq> Over)"
proof -
  obtain k where k: "sample_steps (new_link 1 sample_connected) k" "serving k" "lk_stream k = StreamSelecting"
    "lk_wire k = []" "reporting 0 k" "length (lk_up k) = 1" "length (fw_incoming (lk_worker k)) = 1"
    using link_opens by blast
  from full_link_jams [OF k(2-7)] obtain k' where k': "sample_steps k k'" "link_jammed 1 k'" by blast
  from k(1) k'(1) have "sample_steps (new_link 1 sample_connected) k'" by (rule rtranclp_trans)
  with k'(2) link_jam_is_permanent [OF k'(2)] show ?thesis by blast
qed

end
