(* ===== verification/Spec2Isabelle.thy ===== *)
theory Spec2Isabelle
  imports Protocol Execute_Once Startup Edge_Types Tls_Listener Signaling_Process
    Authority_Calls Sfu_Link
begin

text \<open>
  \<^bold>\<open>A verification library for AppRTC in Rust.\<close>

  \<^bold>\<open>The program.\<close> Three processes share one crate under \<open>src/src\<close>. The \<^emph>\<open>edge\<close> (\<open>bin/apprtc.rs\<close>) serves
  pages and the room API over HTTP; it holds no room state and asks the signaling service over gRPC.
  The \<^emph>\<open>signaling service\<close> (\<open>bin/signaling.rs\<close>) owns the rooms: an event loop drives a Sans-I/O state
  machine, fed by browser WebSockets, by the edge's gRPC calls and by the gRPC sessions of media
  workers. The \<^emph>\<open>media worker\<close> (\<open>bin/sfu.rs\<close>) applies the service's commands to media shards and
  reports events back. The theories follow this structure.

  \<^bold>\<open>Shared theories.\<close> \<open>Prelude\<close>: machine integers, \<open>Result\<close>, hash maps as key-distinct association
  lists, the skip-zero counter with its locale \<open>id_source\<close>. \<open>Decimal\<close>: decimal text of \<open>u64\<close> both ways.
  \<open>Utf8_Text\<close>: lossy UTF-8 decoding, encoding, white space and splitting of the standard library.
  \<open>Json\<close>: JSON values. \<open>Fifo_Cache\<close>: the locale of a bounded first-in-first-out cache. \<open>Wire\<close>: the
  protocol buffer messages and the domain types of the two sides. \<open>Room_Id\<close>: \<open>room_id.rs\<close>. \<open>Transitions\<close>: the
  locale \<open>step_invariant\<close> of a predicate that every step of a relation keeps, interpreted on
  the models of concurrent tasks.

  \<^bold>\<open>The media worker\<close> (\<open>sfu_server.rs\<close>). \<open>Sfu_Worker\<close>: the membership projection and \<open>apply_command\<close>
  with joins, leaves, signals and room synchronisation, the encoding and draining of engine events.
  Its lemmas show that an acknowledged command changes the projection as a roster specification says,
  that the projection agrees with the engine's members in every reachable state, that stale lifecycles
  and epochs are fenced, that other rooms are untouched and that draining ends. \<open>Sfu_Shards\<close>: the
  command cache, the shared metrics, the routing of rooms to shards and the media loop; replays are
  answered from the cache and the counters are exact under every interleaving of the shards.
  \<open>Sfu_Session\<close>: registration, health, commands and reliable events of one gRPC session and the
  reconnection loop; an event is resent until it is acknowledged, and delays stay bounded. \<open>Sfu_Flow\<close>: the
  session and the shards as concurrent tasks over bounded channels, a step relation in which a full
  channel makes its sender wait. A session that waits for the answer of a shard which itself waits for
  room in the event channel never goes on, not even for the stop signal, and such a state is reachable
  (a finding); once the session is in its loop or asleep the worker can stop on its own.

  \<^bold>\<open>The signaling service.\<close> \<open>Grpc_Codec\<close>, \<open>Request_Cache\<close>, \<open>Execute\<close>, \<open>Execute_Once\<close> and \<open>Grpc_Service\<close>
  model \<open>grpc_server.rs\<close>: the wire codec, the idempotent execution of authority operations as
  interleaved steps of concurrent calls (with cancellation and time-outs), the unary handlers and the
  worker sessions. A request is executed at most once while its key is cached, every waiting call gets
  the owner's answer, and a cancelled owner blocks its key (a finding). \<open>Signaling_Server\<close> models the
  event loop of \<open>signaling_server.rs\<close>, whose invariants are instances of the locale
  \<open>driver_invariant\<close> (answers and open sockets). \<open>Authority_Calls\<close> puts the calls and the loop together:
  every result is what the loop answered to the caller's own operation. \<open>Ws_Server\<close> models the
  stream, the request head, the upgrade, the session task and the accept loop of \<open>ws_server.rs\<close>. \<open>Browser\<close> and \<open>Endpoint\<close> show what the two do together: how a
  request is read and answered, which commands a session sends, that texts reach the browser in order,
  and that a graceful stop leaves no socket behind. \<open>Signaling_Process\<close> composes \<open>main\<close>, the accept loop, the
  sessions and the event loop of \<open>bin/signaling.rs\<close> as tasks over the bounded command channel: the event
  loop is the last to end and then holds no socket, the order of the stop does not deadlock, and a
  browser that does not read holds it up (a finding).

  \<^bold>\<open>The edge.\<close> \<open>Grpc_Client\<close> models \<open>grpc_client.rs\<close> and shows that each remote call executes exactly its
  operation on the service and reads the answer back. \<open>Params\<close> (\<open>config.rs\<close>, \<open>params.rs\<close>), \<open>Templates\<close>
  (\<open>templates.rs\<close>), \<open>Dashboard\<close> (\<open>dashboard.rs\<close>) and \<open>Room_Server\<close> (\<open>room_server.rs\<close>) model the pages and
  the room API; \<open>Edge\<close>, over the locale \<open>v2_authority\<close> of the remote service, shows that a V2 join always answers and retries at most eight times, that a leave
  names what its join admitted, and that the status page counts errors exactly. \<open>Edge_Types\<close> gives every
  route the type of its response and shows that the router is well typed. \<open>Startup\<close> models what the three
  \<open>main\<close> functions, \<open>tls.rs\<close>, the gRPC server and the gRPC endpoints check and configure, the certificate
  verifier included. \<open>Tls_Listener\<close> models the TLS listener of \<open>tls.rs\<close> with its handshake tasks: a stream is
  handed over once, and a slow peer holds up nobody else.

  \<^bold>\<open>Across the processes.\<close> \<open>Protocol\<close> composes the service's codec with the worker: a command is answered
  with what the worker did, a worker's messages are always accepted, events arrive as they were
  emitted, and the registration handshake completes. \<open>Sfu_Link\<close> puts the tasks of the worker, the task of
  its session in the service and the bounded channels and transport between them into one step relation:
  messages cross in order and none is skipped, both ways, wherever the connection breaks; and since
  neither side reads while it sends, full channels in both directions stop both for good (a finding,
  with a run that leads there).

  \<^bold>\<open>Conventions.\<close> A struct is a record, an enum a datatype, a \<open>u64\<close> a word of that width. A \<open>String\<close> is its
  UTF-8 bytes. A mutating method takes and returns the state. A loop that polls a foreign state machine
  is a \<open>partial_function\<close> over \<open>option\<close>, and the theorems show that it returns when the queues are
  finite; no definition uses fuel. Log statements are left out.

  \<^bold>\<open>Code outside the repository\<close> is a parameter: the state machine (\<open>collider_api\<close>), the media engine and
  its SDP types (\<open>sfu_api\<close>), UUIDs (\<open>uuid_api\<close>), URLs (\<open>url_api\<close>, \<open>full_url_api\<close>), templates
  (\<open>minijinja_api\<close>), printed JSON, hashing, randomness and clocks. What a theorem needs of them is a
  named hypothesis (\<open>uuid_laws\<close>, \<open>outputs_finite\<close>, \<open>url_laws\<close>, \<open>json_text_laws\<close> and others), and each has
  a concrete instance in the witnesses.

  \<^bold>\<open>Concurrency.\<close> The tasks of a process are interleaved at the points where they can wait: \<open>Execute_Once\<close>
  and \<open>Authority_Calls\<close> (concurrent calls), \<open>Sfu_Flow\<close> (the worker), \<open>Sfu_Link\<close> (a worker's session) and
  \<open>Signaling_Process\<close> are step relations, \<open>Tls_Listener\<close> and \<open>Sfu_Shards\<close> are functions on any sequence of events. The properties hold for every interleaving; that a
  process can stop means that a run to its end exists from the state in question.

  \<^bold>\<open>Not modelled.\<close> Sockets, TLS records, WebSocket framing with its size limits, HTTP routing and static
  files, the graceful shutdown of the HTTP and gRPC servers and option parsing are third-party code. Log
  statements (\<open>log_result\<close>, \<open>log_response\<close>, \<open>proto_command_name\<close>, the log levels) have no effect on the
  state. The unit tests in the source files and under \<open>tests\<close> and the JavaScript client are not part of the
  services.
\<close>

end
